(* ===== verification/Prelude.thy ===== *)
theory Prelude
  imports Complex_Main "HOL-Library.AList" "HOL-Library.Word" "HOL-Library.Multiset"
begin

text \<open>
  The base of the development: the types every component shares (byte slices, instants,
  durations), Go's 64-bit integer arithmetic, Go maps and the order in which a
  \<^verbatim>\<open>range\<close> loop visits them, loops with an early error return, the SQL helpers that the
  upsert statements use, and the list and map lemmas the component proofs share.

  A Go string is a sequence of bytes, so it is a HOL \<^typ>\<open>string\<close>. A byte slice whose
  nil-ness the code looks at is a \<^verbatim>\<open>bytes option\<close>. A \<^verbatim>\<open>time.Time\<close> is
  the number of nanoseconds since Go's zero time (1 January of year 1, UTC), so the zero
  time is \<open>0\<close> and \<^verbatim>\<open>Truncate\<close>, which Go defines relative to the zero
  time, is plain integer arithmetic.
\<close>

named_theorems sql_simps \<open>equations of the SQL expressions in the upsert statements\<close>
named_theorems go_simps \<open>equations of the Go operations the stages share\<close>

section \<open>Types\<close>

type_synonym bytes = "8 word list"
type_synonym time = int
type_synonym duration = int

text \<open>A Go map (iterated in an order of the runtime's choice) and a table with a primary key.\<close>

type_synonym ('k, 'v) gomap = "('k \<times> 'v) list"
type_synonym ('k, 'v) pgtable = "('k \<times> 'v) list"

section \<open>Integers\<close>

text \<open>Go's \<^verbatim>\<open>int\<close> and \<^verbatim>\<open>int64\<close>: two's complement, arithmetic wraps.\<close>

definition wrap64 :: "int \<Rightarrow> int" where
  "wrap64 x = (x + 2 ^ 63) mod 2 ^ 64 - 2 ^ 63"

lemma wrap64_id [go_simps]: "- (2 ^ 63) \<le> x \<Longrightarrow> x < 2 ^ 63 \<Longrightarrow> wrap64 x = x"
  by (simp add: wrap64_def)

lemma wrap64_range: "- (2 ^ 63) \<le> wrap64 x \<and> wrap64 x < 2 ^ 63"
  by (simp add: wrap64_def)

lemma wrap64_wrap64_add [simp]: "wrap64 (wrap64 x + y) = wrap64 (x + y)"
proof -
  have "((x + 2 ^ 63) mod 2 ^ 64 + y) mod 2 ^ 64 = (x + 2 ^ 63 + y) mod 2 ^ 64"
    by (rule mod_add_left_eq)
  then show ?thesis by (simp add: wrap64_def algebra_simps)
qed

lemma wrap64_add_wrap64 [simp]: "wrap64 (x + wrap64 y) = wrap64 (x + y)"
  by (metis add.commute wrap64_wrap64_add)

lemma wrap64_wrap64 [simp]: "wrap64 (wrap64 x) = wrap64 x"
  using wrap64_wrap64_add [of x 0] by simp

section \<open>Time\<close>

definition second :: duration where "second = 1000000000"
definition minute :: duration where "minute = 60 * second"
definition hour :: duration where "hour = 60 * minute"

definition zero_time :: time where [simp]: "zero_time = 0"

text \<open>\<^verbatim>\<open>t.UTC().Truncate(d)\<close>: down to a multiple of \<open>d\<close> since the zero time.\<close>

definition truncate_time :: "duration \<Rightarrow> time \<Rightarrow> time" where
  "truncate_time d t = t - t mod d"

text \<open>\<^verbatim>\<open>t.UnixNano()\<close>: an \<^verbatim>\<open>int64\<close>, so it wraps outside the years 1678 to 2262.\<close>

definition unix_epoch :: time where "unix_epoch = 62135596800 * second"

definition unix_nano :: "time \<Rightarrow> int" where
  "unix_nano t = wrap64 (t - unix_epoch)"

definition in_unix_range :: "time \<Rightarrow> bool" where
  "in_unix_range t \<longleftrightarrow> unix_epoch - 2 ^ 63 \<le> t \<and> t < unix_epoch + 2 ^ 63"

lemma unix_nano_inj:
  "in_unix_range a \<Longrightarrow> in_unix_range b \<Longrightarrow> unix_nano a = unix_nano b \<longleftrightarrow> a = b"
  by (auto simp: in_unix_range_def unix_nano_def wrap64_id)

lemma minute_pos [simp]: "0 < minute" and hour_pos [simp]: "0 < hour"
  by (simp_all add: minute_def hour_def second_def)

lemma minute_le_hour: "minute \<le> hour"
  by (simp add: minute_def hour_def second_def)

lemma truncate_time_le: "0 < d \<Longrightarrow> truncate_time d t \<le> t \<and> t < truncate_time d t + d"
  by (simp add: truncate_time_def)

lemma truncate_time_idem [simp]: "truncate_time d (truncate_time d t) = truncate_time d t"
  by (simp add: truncate_time_def) 

lemma truncate_time_mono: "0 < d \<Longrightarrow> s \<le> t \<Longrightarrow> truncate_time d s \<le> truncate_time d t"
  by (simp add: truncate_time_def minus_mod_eq_mult_div zdiv_mono1)

lemma truncate_time_unique:
  assumes "0 < d" "b = truncate_time d b" "b \<le> t" "t < b + d"
  shows "truncate_time d t = b"
proof -
  have b: "b = d * (b div d)"
    using assms(2) by (simp add: truncate_time_def minus_mod_eq_mult_div)
  have "t div d = b div d"
    using assms(1,3,4) b
    by (metis (no_types, opaque_lifting) div_pos_geq int_div_pos_eq le_add_diff_inverse
        add_less_cancel_left diff_ge_0_iff_ge)
  then show ?thesis using b by (simp add: truncate_time_def minus_mod_eq_mult_div)
qed

section \<open>Errors and loops with an early return\<close>

text \<open>
  What an operation of the projector can fail with: a failed round trip to Postgres (lost
  connection, cancelled context), or a value or row that Postgres rejects, named by the
  table.
\<close>

datatype err = ConnError | ConstraintError string

text \<open>
  \<^verbatim>\<open>for _, x := range xs { ...; if err != nil { return err } }\<close>: the body updates the
  in-memory state \<open>'s\<close> and the transaction \<open>'t\<close>; an error ends the loop, keeps the
  memory as it is then and gives the transaction up.
\<close>

fun for_each ::
  "('x \<Rightarrow> 's \<Rightarrow> 't \<Rightarrow> 's \<times> (err + 't)) \<Rightarrow> 'x list \<Rightarrow> 's \<Rightarrow> 't \<Rightarrow> 's \<times> (err + 't)"
where
  "for_each body [] s t = (s, Inr t)"
| "for_each body (x # xs) s t =
     (case body x s t of
        (s', Inl e) \<Rightarrow> (s', Inl e)
      | (s', Inr t') \<Rightarrow> for_each body xs s' t')"

text \<open>An invariant of the body that follows the visited prefix holds at a normal exit.\<close>

lemma for_each_rule:
  assumes "for_each body xs s t = (s', Inr t')" and "I [] s t"
    and "\<And>pre x post s t s' t'. xs = pre @ x # post \<Longrightarrow> I pre s t \<Longrightarrow>
      body x s t = (s', Inr t') \<Longrightarrow> I (pre @ [x]) s' t'"
  shows "I xs s' t'"
proof -
  have "I pre s t \<Longrightarrow> for_each body ys s t = (s', Inr t') \<Longrightarrow> xs = pre @ ys \<Longrightarrow> I (pre @ ys) s' t'"
    for pre ys s t
  proof (induction ys arbitrary: pre s t)
    case Nil
    then show ?case by simp
  next
    case (Cons y ys)
    then obtain s1 t1 where b: "body y s t = (s1, Inr t1)"
      and r: "for_each body ys s1 t1 = (s', Inr t')"
      by (auto split: prod.splits sum.splits)
    have "I (pre @ [y]) s1 t1" using Cons.prems b assms(3) by blast
    from Cons.IH [OF this r] Cons.prems(3) show ?case by simp
  qed
  from this [of "[]"] assms(1,2) show ?thesis by simp
qed

text \<open>At a normal exit the body has succeeded on every element.\<close>

lemma for_each_all:
  "for_each body xs s t = (s', Inr t') \<Longrightarrow> x \<in> set xs \<Longrightarrow> \<exists>s1 t1 s2 t2. body x s1 t1 = (s2, Inr t2)"
  by (induction xs arbitrary: s t) (auto split: prod.splits sum.splits)

lemma for_each_map: "for_each body (map f xs) s t = for_each (\<lambda>x. body (f x)) xs s t"
  by (induction xs arbitrary: s t) (auto split: prod.splits sum.splits)

section \<open>Go maps and tables\<close>

text \<open>
  A Go map is an association list with distinct keys. A \<^verbatim>\<open>range\<close> loop visits it in
  an order the runtime chooses: \<open>it n\<close> is the order of the indices of a map of \<open>n\<close>
  entries, a permutation of \<open>0, \<dots>, n - 1\<close>.
\<close>

definition go_range :: "(nat \<Rightarrow> nat list) \<Rightarrow> ('k, 'v) gomap \<Rightarrow> ('k, 'v) gomap" where
  "go_range it m = map (\<lambda>i. m ! i) (it (length m))"

definition range_order :: "(nat \<Rightarrow> nat list) \<Rightarrow> bool" where
  "range_order it \<longleftrightarrow> (\<forall>n. mset (it n) = mset [0..<n])"

lemma mset_go_range: "range_order it \<Longrightarrow> mset (go_range it m) = mset m"
proof -
  assume "range_order it"
  then have "mset (go_range it m) = image_mset (\<lambda>i. m ! i) (mset [0..<length m])"
    unfolding go_range_def range_order_def by (simp only: mset_map)
  also have "\<dots> = mset (map (\<lambda>i. m ! i) [0..<length m])" by (simp only: mset_map)
  also have "\<dots> = mset m" by (simp only: map_nth)
  finally show ?thesis .
qed

lemma set_go_range [simp]: "range_order it \<Longrightarrow> set (go_range it m) = set m"
  by (metis mset_go_range set_mset_mset)

lemma distinct_keys_go_range:
  "range_order it \<Longrightarrow> distinct (map fst m) \<Longrightarrow> distinct (map fst (go_range it m))"
  by (metis mset_go_range mset_map mset_eq_imp_distinct_iff)

lemma go_range_Nil [simp]: "range_order it \<Longrightarrow> go_range it [] = []"
  by (metis mset_go_range mset_zero_iff)

lemma map_of_go_range [simp]:
  "range_order it \<Longrightarrow> distinct (map fst m) \<Longrightarrow> map_of (go_range it m) = map_of m"
  by (metis distinct_keys_go_range map_of_inject_set set_go_range)

lemma map_add_single: "m k = None \<Longrightarrow> [k \<mapsto> v] ++ m = m(k \<mapsto> v)"
  by (rule ext) (simp add: map_add_def split: option.splits)

lemma go_range_insertion: "go_range (\<lambda>n. [0..<n]) m = m"
  by (simp add: go_range_def map_nth)

lemma range_order_insertion [simp]: "range_order (\<lambda>n. [0..<n])"
  by (simp add: range_order_def)

lemma set_map_filter_iff: "y \<in> set (List.map_filter f xs) \<longleftrightarrow> (\<exists>x \<in> set xs. f x = Some y)"
  by (force simp: List.map_filter_def)

text \<open>
  The loop \<^verbatim>\<open>for rows.Next() { acc, ok := m[key]; if !ok { continue }; ... }\<close> over the rows of a
  query: \<open>f\<close> is what one row does to the entry of its key.
\<close>

definition alter :: "('x \<Rightarrow> 'a \<Rightarrow> 'a) \<Rightarrow> 'k \<times> 'x \<Rightarrow> ('k, 'a) gomap \<Rightarrow> ('k, 'a) gomap" where
  "alter f = (\<lambda>(k, x) m. case map_of m k of None \<Rightarrow> m | Some a \<Rightarrow> AList.update k (f x a) m)"

lemma map_of_fold_alter:
  "map_of (fold (alter f) rows m) k =
     map_option (fold f (map snd (filter (\<lambda>r. fst r = k) rows))) (map_of m k)"
proof (induction rows arbitrary: m)
  case (Cons r rows)
  obtain h x where r: "r = (h, x)" by (rule prod.exhaust)
  show ?case
    using Cons.IH [of "alter f r m"]
    by (cases "map_of m h")
      (auto simp: r alter_def update_conv' option.map_comp comp_def simp del: map_of_eq_Some_iff)
qed (simp add: option.map_id)

lemma distinct_fold_alter: "distinct (map fst m) \<Longrightarrow> distinct (map fst (fold (alter f) rows m))"
  by (induction rows arbitrary: m) (auto simp: alter_def distinct_update split: prod.splits option.splits)

lemma map_of_map_values: "map_of (map (\<lambda>(k, v). (k, f v)) m) k = map_option f (map_of m k)"
  by (induction m) auto

text \<open>
  The rows of a table selected by key, as they are looked up again under \<open>f\<close> of the key.
\<close>

lemma selected_rows:
  "distinct (map fst tab) \<Longrightarrow> (\<And>k. k \<in> sel \<Longrightarrow> f k = f k0 \<Longrightarrow> k = k0) \<Longrightarrow>
    map snd (filter (\<lambda>r. fst r = f k0) (map (\<lambda>(k, r). (f k, r)) (filter (\<lambda>(k, r). k \<in> sel) tab))) =
    (case map_of tab k0 of None \<Rightarrow> [] | Some r \<Rightarrow> if k0 \<in> sel then [r] else [])"
proof (induction tab)
  case (Cons x tab)
  obtain k r where x: "x = (k, r)" by (rule prod.exhaust)
  have new: "map_of tab k = None" using Cons.prems(1) x by (simp add: map_of_eq_None_iff)
  have IH: "map snd (filter (\<lambda>r. fst r = f k0) (map (\<lambda>(k, r). (f k, r)) (filter (\<lambda>(k, r). k \<in> sel) tab))) =
    (case map_of tab k0 of None \<Rightarrow> [] | Some r \<Rightarrow> if k0 \<in> sel then [r] else [])"
    using Cons.IH Cons.prems by simp
  show ?case
  proof (cases "k \<in> sel \<and> f k = f k0")
    case True
    then have "k = k0" using Cons.prems(2) by blast
    with True IH x new show ?thesis by simp
  next
    case False
    then have "k \<in> sel \<Longrightarrow> f k \<noteq> f k0" by blast
    with IH x new show ?thesis by (cases "k \<in> sel"; cases "k = k0") simp_all
  qed
qed simp

section \<open>SQL expressions\<close>

text \<open>\<^verbatim>\<open>COALESCE(NULLIF(a, ''), b)\<close> and \<^verbatim>\<open>COALESCE(a, b)\<close>.\<close>

definition coalesce_text :: "string \<Rightarrow> string \<Rightarrow> string" where
  "coalesce_text a b = (if a = [] then b else a)"

definition coalesce :: "'a option \<Rightarrow> 'a option \<Rightarrow> 'a option" where
  "coalesce a b = (case a of None \<Rightarrow> b | Some _ \<Rightarrow> a)"

text \<open>\<^verbatim>\<open>LEAST\<close> and \<^verbatim>\<open>GREATEST\<close> ignore a NULL argument.\<close>

definition least :: "'a::linorder option \<Rightarrow> 'a option \<Rightarrow> 'a option" where
  "least a b = (case (a, b) of (Some x, Some y) \<Rightarrow> Some (min x y) | (None, _) \<Rightarrow> b | (_, None) \<Rightarrow> a)"

definition greatest :: "'a::linorder option \<Rightarrow> 'a option \<Rightarrow> 'a option" where
  "greatest a b = (case (a, b) of (Some x, Some y) \<Rightarrow> Some (max x y) | (None, _) \<Rightarrow> b | (_, None) \<Rightarrow> a)"

lemma coalesce_simps [sql_simps]:
  "coalesce None b = b" "coalesce (Some x) b = Some x" "coalesce a None = a"
  by (simp_all add: coalesce_def split: option.splits)

lemma least_simps [sql_simps]:
  "least None b = b" "least a None = a" "least (Some x) (Some y) = Some (min x y)"
  by (simp_all add: least_def split: option.splits)

lemma greatest_simps [sql_simps]:
  "greatest None b = b" "greatest a None = a" "greatest (Some x) (Some y) = Some (max x y)"
  by (simp_all add: greatest_def split: option.splits)

section \<open>What a sequence of optional values amounts to\<close>

text \<open>
  The specifications of the tables are stated over the list of the events a key has seen:
  the last non-empty text, the last present value, the first present value, the smallest
  and the largest.
\<close>

definition last_text :: "string list \<Rightarrow> string" where
  "last_text xs = (let ys = filter (\<lambda>x. x \<noteq> []) xs in if ys = [] then [] else last ys)"

definition last_some :: "'a option list \<Rightarrow> 'a option" where
  "last_some xs = (let ys = filter (\<lambda>x. x \<noteq> None) xs in if ys = [] then None else last ys)"

definition first_some :: "'a option list \<Rightarrow> 'a option" where
  "first_some xs = (let ys = filter (\<lambda>x. x \<noteq> None) xs in if ys = [] then None else hd ys)"

definition min_of :: "'a::linorder list \<Rightarrow> 'a option" where
  "min_of xs = (if xs = [] then None else Some (Min (set xs)))"

definition max_of :: "'a::linorder list \<Rightarrow> 'a option" where
  "max_of xs = (if xs = [] then None else Some (Max (set xs)))"

lemma last_text_Nil [simp]: "last_text [] = []"
  by (simp add: last_text_def)

lemma last_some_Nil [simp]: "last_some [] = None"
  by (simp add: last_some_def)

lemma first_some_Nil [simp]: "first_some [] = None"
  by (simp add: first_some_def)

lemma min_of_Nil [simp]: "min_of [] = None" and max_of_Nil [simp]: "max_of [] = None"
  by (simp_all add: min_of_def max_of_def)

lemma last_text_nonempty: "filter (\<lambda>x. x \<noteq> []) xs \<noteq> [] \<Longrightarrow> last_text xs \<noteq> []"
  using last_in_set [of "filter (\<lambda>x. x \<noteq> []) xs"] by (auto simp: last_text_def Let_def)

lemma last_some_present: "filter (\<lambda>x. x \<noteq> None) xs \<noteq> [] \<Longrightarrow> last_some xs \<noteq> None"
  using last_in_set [of "filter (\<lambda>x. x \<noteq> None) xs"] by (auto simp: last_some_def Let_def)

lemma first_some_present: "filter (\<lambda>x. x \<noteq> None) xs \<noteq> [] \<Longrightarrow> first_some xs \<noteq> None"
  using hd_in_set [of "filter (\<lambda>x. x \<noteq> None) xs"] by (auto simp: first_some_def Let_def)

lemma last_text_append: "last_text (xs @ ys) = coalesce_text (last_text ys) (last_text xs)"
proof (cases "filter (\<lambda>x. x \<noteq> []) ys = []")
  case True
  then show ?thesis by (simp add: last_text_def coalesce_text_def Let_def)
next
  case False
  then show ?thesis
    using last_text_nonempty [of ys] by (simp add: last_text_def coalesce_text_def Let_def)
qed

lemma last_some_append: "last_some (xs @ ys) = coalesce (last_some ys) (last_some xs)"
proof (cases "filter (\<lambda>x. x \<noteq> None) ys = []")
  case True
  then show ?thesis by (simp add: last_some_def coalesce_def Let_def)
next
  case False
  then have "last_some (xs @ ys) = last_some ys" by (simp add: last_some_def Let_def)
  with last_some_present [OF False] show ?thesis by (auto simp: coalesce_def)
qed

lemma first_some_append: "first_some (xs @ ys) = coalesce (first_some xs) (first_some ys)"
proof (cases "filter (\<lambda>x. x \<noteq> None) xs = []")
  case True
  then show ?thesis by (simp add: first_some_def coalesce_def Let_def)
next
  case False
  then have "first_some (xs @ ys) = first_some xs" by (simp add: first_some_def Let_def)
  with first_some_present [OF False] show ?thesis by (auto simp: coalesce_def)
qed

lemma last_text_single [simp]: "last_text [x] = x"
  by (simp add: last_text_def)

lemma last_some_single [simp]: "last_some [x] = x"
  by (simp add: last_some_def)

lemma first_some_single [simp]: "first_some [x] = x"
  by (simp add: first_some_def)

lemma min_of_append: "min_of (xs @ ys) = least (min_of xs) (min_of ys)"
  by (simp add: min_of_def least_def Min_Un)

lemma max_of_append: "max_of (xs @ ys) = greatest (max_of xs) (max_of ys)"
  by (simp add: max_of_def greatest_def Max_Un)

lemma min_of_single [simp]: "min_of [x] = Some x" and max_of_single [simp]: "max_of [x] = Some x"
  by (simp_all add: min_of_def max_of_def)

lemma least_assoc: "least (least a b) c = least a (least b c)"
  by (auto simp: least_def min.assoc split: option.splits)

lemma greatest_assoc: "greatest (greatest a b) c = greatest a (greatest b c)"
  by (auto simp: greatest_def max.assoc split: option.splits)

lemma least_commute: "least a b = least b a"
  by (auto simp: least_def min.commute split: option.splits)

lemma greatest_commute: "greatest a b = greatest b a"
  by (auto simp: greatest_def max.commute split: option.splits)

lemma least_idem [simp]: "least a a = a" and greatest_idem [simp]: "greatest a a = a"
  by (auto simp: least_def greatest_def split: option.splits)

text \<open>The earliest and the latest of the instants of a non-empty list.\<close>

definition earliest :: "time list \<Rightarrow> time" where
  "earliest ts = Min (set ts)"

definition latest :: "time list \<Rightarrow> time" where
  "latest ts = Max (set ts)"

lemma earliest_single [simp]: "earliest [t] = t" and latest_single [simp]: "latest [t] = t"
  by (simp_all add: earliest_def latest_def)

lemma earliest_append: "xs \<noteq> [] \<Longrightarrow> ys \<noteq> [] \<Longrightarrow> earliest (xs @ ys) = min (earliest xs) (earliest ys)"
  by (simp add: earliest_def Min_Un)

lemma latest_append: "xs \<noteq> [] \<Longrightarrow> ys \<noteq> [] \<Longrightarrow> latest (xs @ ys) = max (latest xs) (latest ys)"
  by (simp add: latest_def Max_Un)

text \<open>Merging an overlap twice does not change the aggregate.\<close>

lemma agg_overlap:
  "coalesce_text (last_text (c @ b)) (last_text (a @ c)) = last_text (a @ c @ b)"
  "coalesce (last_some (c' @ b')) (last_some (a' @ c')) = last_some (a' @ c' @ b')"
  "coalesce (first_some (a' @ c')) (first_some (c' @ b')) = first_some (a' @ c' @ b')"
  by (auto simp: last_text_append last_some_append first_some_append coalesce_text_def coalesce_def
      split: option.splits)

lemma latest_overlap:
  "a @ c \<noteq> [] \<Longrightarrow> b \<noteq> [] \<Longrightarrow> max (latest (a @ c)) (latest (c @ b)) = latest (a @ c @ b)"
  by (cases "a = []"; cases "c = []") (simp_all add: latest_append)

text \<open>The assignments \<^verbatim>\<open>if x != "" { row.f = x }\<close>, \<^verbatim>\<open>if x != nil { ... }\<close>,
  \<^verbatim>\<open>if ts.Before(row.f) { ... }\<close> and \<^verbatim>\<open>if ts.After(row.f) { ... }\<close>.\<close>

lemma go_assign [go_simps]:
  "(if a \<noteq> [] then a else b) = coalesce_text a b"
  "(if x \<noteq> None then x else y) = coalesce x y"
  "(if (t::time) < u then t else u) = min u t"
  "(if (u::time) < t then t else u) = max u t"
  by (auto simp: coalesce_text_def coalesce_def split: option.splits)

lemmas agg_append = last_text_append last_some_append first_some_append min_of_append max_of_append
  earliest_append latest_append

end
