(* ===== verification/Go_Float.thy ===== *)
theory Go_Float
  imports Prelude "HOL-Library.Log_Nat"
begin

text \<open>
  Go's \<^verbatim>\<open>float64\<close>: IEEE 754 binary64 values over the rationals, with every operation
  rounded to nearest, ties to even. The sign of a zero is not kept: no modelled operation
  divides by a computed zero or formats a negative one. A conversion to \<^verbatim>\<open>int64\<close>
  that is out of range is implementation-defined in Go; the value here is amd64's.
\<close>

datatype f64 = Fin rat | PInf | NInf | NaN

section \<open>Rounding\<close>

text \<open>The exponent \<open>k\<close> with \<open>2\<^sup>k \<le> x < 2\<^sup>k\<^sup>+\<^sup>1\<close>, for positive \<open>x\<close>.\<close>

definition pow2 :: "int \<Rightarrow> rat" where
  "pow2 k = (if 0 \<le> k then 2 ^ nat k else 1 / 2 ^ nat (- k))"

definition ilog2 :: "rat \<Rightarrow> int" where
  "ilog2 x = (case quotient_of x of (n, d) \<Rightarrow>
     let k = bitlen n - bitlen d in if pow2 k \<le> x then k else k - 1)"

definition round_even :: "rat \<Rightarrow> int" where
  "round_even x = (let f = \<lfloor>x\<rfloor>; r = x - of_int f in
     if r < 1 / 2 then f else if 1 / 2 < r then f + 1 else if even f then f else f + 1)"

text \<open>53 significant bits, least exponent \<open>-1074\<close> (the subnormals), overflow at \<open>2\<^sup>1\<^sup>0\<^sup>2\<^sup>4\<close>.\<close>

definition ulp_exp :: "rat \<Rightarrow> int" where
  "ulp_exp x = max (- 1074) (ilog2 \<bar>x\<bar> - 52)"

definition round_rat :: "rat \<Rightarrow> rat" where
  "round_rat x = (if x = 0 then 0
     else let e = ulp_exp x in of_int (round_even (x / pow2 e)) * pow2 e)"

definition rnd :: "rat \<Rightarrow> f64" where
  "rnd x = (let y = round_rat x in
     if 2 ^ 1024 \<le> y then PInf else if y \<le> - (2 ^ 1024) then NInf else Fin y)"

section \<open>Operations\<close>

definition f64_of_int :: "int \<Rightarrow> f64" where
  "f64_of_int i = rnd (of_int i)"

fun f64_to_int64 :: "f64 \<Rightarrow> int" where
  "f64_to_int64 (Fin x) =
     (let i = (if 0 \<le> x then \<lfloor>x\<rfloor> else \<lceil>x\<rceil>) in
      if - (2 ^ 63) \<le> i \<and> i < 2 ^ 63 then i else - (2 ^ 63))"
| "f64_to_int64 _ = - (2 ^ 63)"

fun f64_neg :: "f64 \<Rightarrow> f64" where
  "f64_neg (Fin a) = Fin (- a)"
| "f64_neg PInf = NInf"
| "f64_neg NInf = PInf"
| "f64_neg NaN = NaN"

fun f64_add :: "f64 \<Rightarrow> f64 \<Rightarrow> f64" where
  "f64_add (Fin a) (Fin b) = rnd (a + b)"
| "f64_add NaN _ = NaN"
| "f64_add _ NaN = NaN"
| "f64_add PInf NInf = NaN"
| "f64_add NInf PInf = NaN"
| "f64_add PInf _ = PInf"
| "f64_add _ PInf = PInf"
| "f64_add NInf _ = NInf"
| "f64_add _ NInf = NInf"

definition f64_inf_sign :: "bool \<Rightarrow> f64" where
  "f64_inf_sign pos = (if pos then PInf else NInf)"

fun f64_pos :: "f64 \<Rightarrow> bool" where
  "f64_pos (Fin a) = (0 < a)"
| "f64_pos PInf = True"
| "f64_pos _ = False"

fun f64_mul :: "f64 \<Rightarrow> f64 \<Rightarrow> f64" where
  "f64_mul (Fin a) (Fin b) = rnd (a * b)"
| "f64_mul NaN _ = NaN"
| "f64_mul _ NaN = NaN"
| "f64_mul (Fin a) y = (if a = 0 then NaN else f64_inf_sign (0 < a \<longleftrightarrow> f64_pos y))"
| "f64_mul x (Fin b) = (if b = 0 then NaN else f64_inf_sign (f64_pos x \<longleftrightarrow> 0 < b))"
| "f64_mul x y = f64_inf_sign (f64_pos x \<longleftrightarrow> f64_pos y)"

fun f64_div :: "f64 \<Rightarrow> f64 \<Rightarrow> f64" where
  "f64_div (Fin a) (Fin b) =
     (if b = 0 then (if a = 0 then NaN else f64_inf_sign (0 < a)) else rnd (a / b))"
| "f64_div NaN _ = NaN"
| "f64_div _ NaN = NaN"
| "f64_div (Fin a) _ = Fin 0"
| "f64_div x (Fin b) = f64_inf_sign (f64_pos x \<longleftrightarrow> 0 \<le> b)"
| "f64_div _ _ = NaN"

fun f64_less :: "f64 \<Rightarrow> f64 \<Rightarrow> bool" where
  "f64_less (Fin a) (Fin b) = (a < b)"
| "f64_less NaN _ = False"
| "f64_less _ NaN = False"
| "f64_less x PInf = (x \<noteq> PInf)"
| "f64_less NInf y = (y \<noteq> NInf)"
| "f64_less _ _ = False"

instantiation f64 :: "{ord, plus, minus, uminus, times, inverse}"
begin
definition "plus_f64 = f64_add"
definition "uminus_f64 = f64_neg"
definition "minus_f64 a b = f64_add a (f64_neg b)"
definition "times_f64 = f64_mul"
definition "divide_f64 = f64_div"
definition "inverse_f64 = f64_div (Fin 1)"
definition "less_f64 = f64_less"
definition "less_eq_f64 a b = (f64_less a b \<or> (a = b \<and> a \<noteq> NaN))"
instance ..
end

section \<open>Properties of the rounding\<close>

lemma pow2_pos [simp]: "0 < pow2 k"
  by (simp add: pow2_def)

lemma pow2_nonzero [simp]: "pow2 k \<noteq> 0"
  by (simp add: pow2_def)

lemma pow2_add: "pow2 (a + b) = pow2 a * pow2 b"
proof -
  have "pow2 k = (2::rat) powi k" for k
    by (auto simp: pow2_def power_int_def inverse_eq_divide power_one_over)
  then show ?thesis by (simp add: power_int_add)
qed

lemma pow2_mono: "a \<le> b \<Longrightarrow> pow2 a \<le> pow2 b"
proof -
  assume "a \<le> b"
  then have "pow2 b = pow2 a * 2 ^ nat (b - a)"
    using pow2_add [of a "b - a"] by (simp add: pow2_def)
  moreover have "(1::rat) \<le> 2 ^ nat (b - a)" by simp
  ultimately show ?thesis using mult_left_mono [of 1 "2 ^ nat (b - a)" "pow2 a"] by (simp add: less_imp_le)
qed

lemma pow2_less_cancel: "pow2 a < pow2 b \<Longrightarrow> a < b"
  using pow2_mono [of b a] by (meson not_le)

lemma pow2_Suc: "pow2 (k + 1) = 2 * pow2 k"
  by (simp add: pow2_add) (simp add: pow2_def)

lemma round_even_mono:
  assumes "x \<le> y" shows "round_even x \<le> round_even y"
proof (cases "\<lfloor>x\<rfloor> = \<lfloor>y\<rfloor>")
  case True
  then show ?thesis using assms by (auto simp: round_even_def Let_def)
next
  case False
  then have "\<lfloor>x\<rfloor> + 1 \<le> \<lfloor>y\<rfloor>" using floor_mono [OF assms] by linarith
  moreover have "round_even x \<le> \<lfloor>x\<rfloor> + 1" and "\<lfloor>y\<rfloor> \<le> round_even y"
    by (auto simp: round_even_def Let_def)
  ultimately show ?thesis by linarith
qed

lemma round_even_of_int [simp]: "round_even (of_int i) = i"
  by (simp add: round_even_def)

lemma round_even_minus: "round_even (- x) = - round_even x"
proof (cases "x = of_int \<lfloor>x\<rfloor>")
  case True
  then show ?thesis by (metis of_int_minus round_even_of_int)
next
  case False
  then have "of_int \<lfloor>x\<rfloor> < x" using of_int_floor_le [of x] by linarith
  then have "\<lfloor>- x\<rfloor> = - \<lfloor>x\<rfloor> - 1" by (intro floor_unique) (auto, linarith)
  then show ?thesis by (auto simp: round_even_def Let_def)
qed

lemma bitlen_pow2:
  assumes "0 < n"
  shows "pow2 (bitlen n - 1) \<le> of_int n \<and> of_int n < pow2 (bitlen n)"
proof -
  have b: "2 ^ nat (bitlen n - 1) \<le> n \<and> n < 2 ^ nat (bitlen n)"
    using bitlen_bounds [OF assms] .
  have "1 \<le> bitlen n" using assms by (simp add: bitlen_def floorlog_def)
  then have "pow2 (bitlen n - 1) = of_int (2 ^ nat (bitlen n - 1))"
    and "pow2 (bitlen n) = of_int (2 ^ nat (bitlen n))"
    by (simp_all add: pow2_def)
  with b show ?thesis by (simp only: of_int_le_iff of_int_less_iff)
qed

lemma ilog2_bounds:
  assumes "0 < x"
  shows "pow2 (ilog2 x) \<le> x \<and> x < pow2 (ilog2 x + 1)"
proof -
  obtain n d where q: "quotient_of x = (n, d)" by force
  then have x: "x = of_int n / of_int d" and d: "0 < d"
    by (simp_all add: quotient_of_div quotient_of_denom_pos)
  with assms have n: "0 < n" by (simp add: zero_less_divide_iff)
  let ?k = "bitlen n - bitlen d"
  have N: "pow2 (bitlen n - 1) \<le> of_int n" "of_int n < pow2 (bitlen n)"
    and D: "pow2 (bitlen d - 1) \<le> of_int d" "of_int d < pow2 (bitlen d)"
    using bitlen_pow2 [OF n] bitlen_pow2 [OF d] by auto
  have d': "(0::rat) < of_int d" using d by simp
  have up: "x < pow2 (?k + 1)"
  proof -
    have "of_int n < pow2 (?k + 1) * pow2 (bitlen d - 1)"
      using N(2) by (simp flip: pow2_add)
    also have "\<dots> \<le> pow2 (?k + 1) * of_int d" using D(1) by simp
    finally show ?thesis using d' by (simp add: x field_simps)
  qed
  have lo: "pow2 (?k - 1) \<le> x"
  proof -
    have "pow2 (?k - 1) * of_int d \<le> pow2 (?k - 1) * pow2 (bitlen d)" using D(2) by simp
    also have "\<dots> \<le> of_int n" using N(1) by (simp flip: pow2_add)
    finally show ?thesis using d' by (simp add: x field_simps)
  qed
  show ?thesis using up lo by (auto simp: ilog2_def q Let_def)
qed

lemma ilog2_mono:
  assumes "0 < x" "x \<le> y" shows "ilog2 x \<le> ilog2 y"
proof -
  have "pow2 (ilog2 x) < pow2 (ilog2 y + 1)"
    using ilog2_bounds [of x] ilog2_bounds [of y] assms by linarith
  from pow2_less_cancel [OF this] show ?thesis by simp
qed

lemma round_rat_minus: "round_rat (- x) = - round_rat x"
  by (simp add: round_rat_def ulp_exp_def Let_def round_even_minus)

lemma round_rat_nonneg: "0 \<le> x \<Longrightarrow> 0 \<le> round_rat x"
proof -
  assume "0 \<le> x"
  then have "round_even 0 \<le> round_even (x / pow2 (ulp_exp x))"
    by (intro round_even_mono) (simp add: less_imp_le)
  then show ?thesis
    using round_even_of_int [of 0] by (simp add: round_rat_def Let_def less_imp_le)
qed

text \<open>A power of two that is at least an ulp is a fixed point of the rounding on its side.\<close>

lemma round_even_ge_pow2:
  assumes "0 \<le> k" "pow2 k \<le> x" shows "pow2 k \<le> of_int (round_even x)"
proof -
  have p: "pow2 k = of_int (2 ^ nat k)" using assms(1) by (simp add: pow2_def)
  have "round_even (of_int (2 ^ nat k)) \<le> round_even x"
    using assms(2) unfolding p by (rule round_even_mono)
  then show ?thesis unfolding p round_even_of_int by (simp only: of_int_le_iff)
qed

lemma round_even_le_pow2:
  assumes "0 \<le> k" "x \<le> pow2 k" shows "of_int (round_even x) \<le> pow2 k"
proof -
  have p: "pow2 k = of_int (2 ^ nat k)" using assms(1) by (simp add: pow2_def)
  have "round_even x \<le> round_even (of_int (2 ^ nat k))"
    using assms(2) unfolding p by (rule round_even_mono)
  then show ?thesis unfolding p round_even_of_int by (simp only: of_int_le_iff)
qed

lemma round_rat_mono_pos:
  assumes "0 < x" "x \<le> y" shows "round_rat x \<le> round_rat y"
proof (cases "ulp_exp x = ulp_exp y")
  case True
  have "round_even (x / pow2 (ulp_exp y)) \<le> round_even (y / pow2 (ulp_exp y))"
    using assms by (intro round_even_mono) (simp add: divide_right_mono less_imp_le)
  then show ?thesis using assms True by (simp add: round_rat_def Let_def)
next
  case False
  have "ilog2 x \<le> ilog2 y" by (rule ilog2_mono [OF assms])
  with False have lt: "ulp_exp x < ulp_exp y" and ey: "ulp_exp y = ilog2 y - 52"
    and xy: "ilog2 x + 1 \<le> ilog2 y"
    using assms by (auto simp: ulp_exp_def)
  have ex: "ilog2 x - 52 \<le> ulp_exp x" using assms by (simp add: ulp_exp_def)
  let ?m = "pow2 (ilog2 y)"
  have m: "?m / pow2 e = pow2 (ilog2 y - e)" for e
    using pow2_add [of "ilog2 y - e" e] by (simp add: divide_eq_eq)
  have x: "x \<le> ?m"
    using ilog2_bounds [of x] pow2_mono [OF xy] assms by linarith
  have "of_int (round_even (x / pow2 (ulp_exp x))) \<le> pow2 (ilog2 y - ulp_exp x)"
  proof (rule round_even_le_pow2)
    show "0 \<le> ilog2 y - ulp_exp x" using lt ey by linarith
    show "x / pow2 (ulp_exp x) \<le> pow2 (ilog2 y - ulp_exp x)"
      using x by (simp add: divide_right_mono less_imp_le flip: m)
  qed
  then have 1: "round_rat x \<le> ?m"
    using assms by (simp add: round_rat_def Let_def le_divide_eq flip: m)
  have y: "?m \<le> y" using ilog2_bounds [of y] assms by linarith
  have "pow2 (ilog2 y - ulp_exp y) \<le> of_int (round_even (y / pow2 (ulp_exp y)))"
  proof (rule round_even_ge_pow2)
    show "0 \<le> ilog2 y - ulp_exp y" using ey by linarith
    show "pow2 (ilog2 y - ulp_exp y) \<le> y / pow2 (ulp_exp y)"
      using y by (simp add: divide_right_mono less_imp_le flip: m)
  qed
  then have 2: "?m \<le> round_rat y"
    using assms by (simp add: round_rat_def Let_def divide_le_eq flip: m)
  from 1 2 show ?thesis by linarith
qed

lemma round_rat_mono: "x \<le> y \<Longrightarrow> round_rat x \<le> round_rat y"
proof (cases "0 < x")
  case True
  then show "x \<le> y \<Longrightarrow> ?thesis" by (rule round_rat_mono_pos)
next
  case False
  assume xy: "x \<le> y"
  show ?thesis
  proof (cases "y < 0")
    case True
    have "round_rat (- y) \<le> round_rat (- x)" by (rule round_rat_mono_pos) (use True xy in auto)
    then show ?thesis by (simp add: round_rat_minus)
  next
    case ny: False
    have "0 \<le> round_rat (- x)" by (rule round_rat_nonneg) (use False in simp)
    moreover have "0 \<le> round_rat y" by (rule round_rat_nonneg) (use ny in simp)
    ultimately show ?thesis by (simp add: round_rat_minus)
  qed
qed

text \<open>Integers of at most 53 bits are exact.\<close>

lemma round_rat_of_int:
  assumes "\<bar>i\<bar> \<le> 2 ^ 53" shows "round_rat (of_int i) = of_int i"
proof -
  have pos: "round_rat (of_int i) = of_int i" if i: "0 < i" "i \<le> 2 ^ 53" for i
  proof (cases "i = 2 ^ 53")
    case True
    have "pow2 (ilog2 (2 ^ 53)) \<le> 2 ^ 53 \<and> 2 ^ 53 < pow2 (ilog2 (2 ^ 53) + 1)"
      by (rule ilog2_bounds) simp
    moreover have "pow2 53 = 2 ^ 53" by (simp add: pow2_def)
    ultimately have "pow2 (ilog2 (2 ^ 53)) < pow2 54" "pow2 53 < pow2 (ilog2 (2 ^ 53) + 1)"
      by (simp_all add: pow2_def)
    then have "ilog2 (2 ^ 53) < 54" "53 < ilog2 (2 ^ 53) + 1"
      by (blast intro: pow2_less_cancel)+
    then have "ilog2 (2 ^ 53) = 53" by linarith
    then show ?thesis
      using True round_even_of_int [of "2 ^ 52"]
      by (simp add: round_rat_def ulp_exp_def Let_def pow2_def)
  next
    case False
    have b: "pow2 (ilog2 (of_int i)) \<le> of_int i" by (rule ilog2_bounds [THEN conjunct1]) (use i in simp)
    have "of_int i < (of_int (2 ^ 53) :: rat)" using i False by (simp only: of_int_less_iff)
    then have "pow2 (ilog2 (of_int i)) < pow2 53" using b by (simp add: pow2_def)
    then have "ilog2 (of_int i) < 53" by (rule pow2_less_cancel)
    then have e: "ulp_exp (of_int i) \<le> 0" using i by (simp add: ulp_exp_def)
    then have "of_int i / pow2 (ulp_exp (of_int i)) = of_int (i * 2 ^ nat (- ulp_exp (of_int i)))"
      by (auto simp: pow2_def)
    then have "of_int (round_even (of_int i / pow2 (ulp_exp (of_int i)))) =
      of_int i / pow2 (ulp_exp (of_int i))"
      by (metis round_even_of_int)
    then show ?thesis using i by (simp add: round_rat_def Let_def)
  qed
  consider "i = 0" | "0 < i" | "0 < - i" by linarith
  then show ?thesis
  proof cases
    case 1
    then show ?thesis by (simp add: round_rat_def)
  next
    case 2
    then show ?thesis using pos assms by simp
  next
    case 3
    then have "round_rat (of_int (- i)) = of_int (- i)" using pos [of "- i"] assms by linarith
    then show ?thesis by (simp add: round_rat_minus)
  qed
qed

lemma f64_of_int_exact: "\<bar>i\<bar> \<le> 2 ^ 53 \<Longrightarrow> f64_of_int i = Fin (of_int i)"
proof -
  assume i: "\<bar>i\<bar> \<le> 2 ^ 53"
  then have "\<bar>of_int i :: rat\<bar> \<le> 2 ^ 53"
    by (metis of_int_abs of_int_le_iff of_int_numeral of_int_power)
  moreover have "(2::rat) ^ 53 < 2 ^ 1024" by simp
  ultimately show ?thesis
    by (auto simp: f64_of_int_def rnd_def round_rat_of_int [OF i] Let_def abs_le_iff)
qed

end
