(* ===== verification/Event_Types.thy ===== *)
theory Event_Types
  imports Prelude Go_Float
begin

text \<open>
  The decoded events that flow through the projection pipeline
  (\<^verbatim>\<open>internal/project/pipeline/types.go\<close>). A pointer field is an option, a slice
  that may be nil is a \<^verbatim>\<open>bytes option\<close>. The two payload pointers of
  \<^verbatim>\<open>Event\<close>, of which \<^verbatim>\<open>Kind\<close> says which one is set, are one
  tagged value \<^verbatim>\<open>EventPayload\<close>.
\<close>

record StatusPayload =
  sp_Status :: string
  sp_Origin :: string
  sp_Model :: string
  sp_FirmwareVersion :: string
  sp_ClientVersion :: string
  sp_Source :: string
  sp_RadioFreqKHz :: "int option"
  sp_RadioBWKHz :: "f64 option"
  sp_RadioSF :: "int option"
  sp_RadioCR :: "int option"
  sp_UptimeSecs :: "int option"
  sp_BatteryMV :: "int option"
  sp_QueueLen :: "int option"
  sp_NoiseFloor :: "int option"
  sp_TxAirSecs :: "int option"
  sp_RxAirSecs :: "int option"
  sp_RecvErrors :: "int option"
  sp_LastRSSI :: "int option"
  sp_LastSNR :: "f64 option"
  sp_DebugFlags :: "int option"

record AdvertInfo =
  adv_PublicKey :: bytes
  adv_Timestamp :: time
  adv_NodeType :: string
  adv_Name :: string
  adv_HasLatLon :: bool
  adv_LatE6 :: int
  adv_LonE6 :: int
  adv_HasFeat1 :: bool
  adv_Feat1 :: int
  adv_HasFeat2 :: bool
  adv_Feat2 :: int

record PacketPayload =
  pp_PacketHash :: "bytes option"
  pp_Direction :: string
  pp_PacketType :: string
  pp_Route :: string
  pp_Len :: "int option"
  pp_PayloadLen :: "int option"
  pp_RSSI :: "int option"
  pp_SNR :: "f64 option"
  pp_Score :: "int option"
  pp_DurationMS :: "int option"
  pp_Raw :: "bytes option"
  pp_DecodedType :: "int option"
  pp_SourcePrefix :: "bytes option"
  pp_DestPrefix :: "bytes option"
  pp_TransportCodes :: "bytes option"
  pp_Advert :: "AdvertInfo option"

datatype EventPayload = KindStatus StatusPayload | KindPacket PacketPayload

record Event =
  ev_RawID :: int
  ev_TS :: time
  ev_ObserverID :: bytes
  ev_Topic :: string
  ev_Region :: string
  ev_Payload :: EventPayload

text \<open>\<^verbatim>\<open>len\<close> of a slice that may be nil, and its content as a map key.\<close>

definition slice_len :: "bytes option \<Rightarrow> nat" where
  "slice_len b = (case b of None \<Rightarrow> 0 | Some x \<Rightarrow> length x)"

definition slice_key :: "bytes option \<Rightarrow> bytes" where
  "slice_key b = (case b of None \<Rightarrow> [] | Some x \<Rightarrow> x)"

lemma slice_simps [simp]:
  "slice_len None = 0" "slice_len (Some x) = length x"
  "slice_key None = []" "slice_key (Some x) = x"
  by (simp_all add: slice_len_def slice_key_def)

lemma slice_len_pos: "0 < slice_len b \<longleftrightarrow> (\<exists>x. b = Some x \<and> x \<noteq> [])"
  by (cases b) auto

text \<open>The status messages and the packets of a log, each with its event.\<close>

definition status_of :: "Event \<Rightarrow> StatusPayload option" where
  "status_of e = (case ev_Payload e of KindStatus p \<Rightarrow> Some p | KindPacket _ \<Rightarrow> None)"

definition packet_of :: "Event \<Rightarrow> PacketPayload option" where
  "packet_of e = (case ev_Payload e of KindPacket p \<Rightarrow> Some p | KindStatus _ \<Rightarrow> None)"

lemma payload_of_simps [simp]:
  "ev_Payload e = KindStatus p \<Longrightarrow> status_of e = Some p"
  "ev_Payload e = KindPacket q \<Longrightarrow> status_of e = None"
  "ev_Payload e = KindStatus p \<Longrightarrow> packet_of e = None"
  "ev_Payload e = KindPacket q \<Longrightarrow> packet_of e = Some q"
  by (simp_all add: status_of_def packet_of_def)

lemma payload_of_iff:
  "status_of e = Some p \<longleftrightarrow> ev_Payload e = KindStatus p"
  "packet_of e = Some q \<longleftrightarrow> ev_Payload e = KindPacket q"
  by (auto simp: status_of_def packet_of_def split: EventPayload.splits)

text \<open>
  Instants the stages can key a bucket by: after the zero time, and with the whole hour
  around them in the range of \<^verbatim>\<open>UnixNano\<close>. Server clocks are.
\<close>

definition wf_time :: "time \<Rightarrow> bool" where
  "wf_time t \<longleftrightarrow> in_unix_range (t - hour) \<and> in_unix_range t"

lemma wf_time_pos: "wf_time t \<Longrightarrow> 0 < t"
  by (simp add: wf_time_def in_unix_range_def unix_epoch_def second_def hour_def minute_def)

lemma wf_time_bucket:
  assumes "wf_time t" "0 < d" "d \<le> hour" shows "in_unix_range (truncate_time d t)"
  using assms truncate_time_le [of d t] by (auto simp: wf_time_def in_unix_range_def)

end
