(* ===== verification/Go_Strings.thy ===== *)
theory Go_Strings
  imports Prelude Go_Float
begin

text \<open>
  The parts of Go's \<^verbatim>\<open>strings\<close>, \<^verbatim>\<open>strconv\<close>, \<^verbatim>\<open>unicode/utf8\<close> and \<^verbatim>\<open>encoding/hex\<close> that the
  program uses, on strings as byte sequences, with the round trips the components rely on.
\<close>

abbreviation ord_of :: "char \<Rightarrow> nat" where "ord_of c \<equiv> of_char c"
abbreviation chr_of :: "nat \<Rightarrow> char" where "chr_of n \<equiv> char_of n"

section \<open>UTF-8\<close>

definition cont_byte :: "char \<Rightarrow> bool" where
  "cont_byte c \<longleftrightarrow> 128 \<le> ord_of c \<and> ord_of c < 192"

text \<open>
  The length of the rune that a leading byte announces (0 for no leading byte), the second
  bytes that would make it overlong, a surrogate or too large, and the length of the valid
  rune at the head of a string, 0 if there is none.
\<close>

definition rune_len :: "nat \<Rightarrow> nat" where
  "rune_len x = (if x < 128 then 1 else if x < 194 then 0 else if x < 224 then 2
     else if x < 240 then 3 else if x < 245 then 4 else 0)"

definition second_byte_ok :: "nat \<Rightarrow> nat \<Rightarrow> bool" where
  "second_byte_ok x b \<longleftrightarrow> (x = 224 \<longrightarrow> 160 \<le> b) \<and> (x = 237 \<longrightarrow> b < 160) \<and>
     (x = 240 \<longrightarrow> 144 \<le> b) \<and> (x = 244 \<longrightarrow> b < 144)"

fun utf8_width :: "string \<Rightarrow> nat" where
  "utf8_width [] = 0"
| "utf8_width (a # s) =
     (let n = rune_len (ord_of a) in
      if n \<le> 1 then n
      else if n \<le> Suc (length s) \<and> list_all cont_byte (take (n - 1) s) \<and>
              second_byte_ok (ord_of a) (ord_of (hd s)) then n
      else 0)"

declare utf8_width.simps(2) [simp del]

function utf8_valid :: "string \<Rightarrow> bool" where
  "utf8_valid s = (if s = [] then True
     else if utf8_width s = 0 then False
     else utf8_valid (drop (utf8_width s) s))"
  by pat_completeness auto
termination by (relation "measure length") auto

declare utf8_valid.simps [simp del]

lemma utf8_valid_Nil [simp]: "utf8_valid []"
  by (simp add: utf8_valid.simps)

lemma utf8_valid_code [code]:
  "utf8_valid s = (if s = [] then True
     else let w = utf8_width s in w \<noteq> 0 \<and> utf8_valid (drop w s))"
  by (subst utf8_valid.simps) (simp add: Let_def)

lemma utf8_width_ascii: "ord_of a < 128 \<Longrightarrow> utf8_width (a # s) = 1"
  by (simp add: rune_len_def utf8_width.simps)

lemma utf8_valid_ascii: "(\<forall>c \<in> set s. ord_of c < 128) \<Longrightarrow> utf8_valid s"
proof (induction s)
  case Nil
  then show ?case by simp
next
  case (Cons a s)
  then show ?case by (subst utf8_valid.simps) (simp add: utf8_width_ascii)
qed

text \<open>
  \<^verbatim>\<open>strings.ToValidUTF8(s, r)\<close>: each run of invalid bytes becomes one \<open>r\<close>.
\<close>

function to_valid_utf8 :: "string \<Rightarrow> bool \<Rightarrow> string \<Rightarrow> string" where
  "to_valid_utf8 r bad s = (if s = [] then []
     else if utf8_width s = 0 then (if bad then [] else r) @ to_valid_utf8 r True (drop 1 s)
     else take (utf8_width s) s @ to_valid_utf8 r False (drop (utf8_width s) s))"
  by pat_completeness auto
termination by (relation "measure (length \<circ> snd \<circ> snd)") auto

declare to_valid_utf8.simps [simp del]

definition ToValidUTF8 :: "string \<Rightarrow> string \<Rightarrow> string" where
  "ToValidUTF8 s r = to_valid_utf8 r False s"

text \<open>The width looks only at the bytes of the rune.\<close>

lemma utf8_width_le: "utf8_width s \<le> length s"
  by (cases s) (auto simp: Let_def utf8_width.simps)

lemma utf8_width_prefix:
  assumes "utf8_width s \<noteq> 0" and "take (utf8_width s) s = take (utf8_width s) s'"
    and "utf8_width s \<le> length s'"
  shows "utf8_width s' = utf8_width s"
proof (cases s)
  case (Cons a u)
  define n where "n = rune_len (ord_of a)"
  have w: "utf8_width s = n" "n \<noteq> 0" using assms(1) Cons by (auto simp: utf8_width.simps Let_def n_def split: if_splits)
  then obtain m where m: "n = Suc m" by (cases n) auto
  with assms(2,3) w Cons obtain v where s': "s' = a # v" and v: "take m u = take m v" "m \<le> length v"
    by (cases s') auto
  show ?thesis
  proof (cases "m = 0")
    case True
    then show ?thesis using w m n_def s' by (simp add: utf8_width.simps)
  next
    case False
    then have "hd u = hd v" using v w Cons m n_def
      by (metis hd_take neq0_conv)
    then show ?thesis
      using w m n_def s' v Cons assms(1) False by (auto simp: utf8_width.simps Let_def split: if_splits)
  qed
qed (use assms in simp)

lemma utf8_width_take: "utf8_width s \<noteq> 0 \<Longrightarrow> utf8_width (take (utf8_width s) s @ t) = utf8_width s"
  by (rule utf8_width_prefix) (use utf8_width_le [of s] in auto)

lemma utf8_valid_append: "utf8_valid s \<Longrightarrow> utf8_valid t \<Longrightarrow> utf8_valid (s @ t)"
proof (induction s rule: utf8_valid.induct)
  case (1 s)
  show ?case
  proof (cases "s = []")
    case False
    with 1 have w: "utf8_width s \<noteq> 0" and v: "utf8_valid (drop (utf8_width s) s)"
      by (auto simp: utf8_valid.simps [of s] split: if_splits)
    have "utf8_width (s @ t) = utf8_width s"
      using utf8_width_take [OF w, of "drop (utf8_width s) s @ t"] unfolding append_assoc [symmetric]
      by simp
    then show ?thesis
      using 1 False w v utf8_width_le [of s] by (subst utf8_valid.simps) simp
  qed (use 1 in simp)
qed

lemma utf8_valid_rune: "utf8_width s \<noteq> 0 \<Longrightarrow> utf8_valid (take (utf8_width s) s)"
  using utf8_width_take [of s "[]"] utf8_width_le [of s] by (subst utf8_valid.simps) auto

lemma to_valid_utf8_valid: "utf8_valid r \<Longrightarrow> utf8_valid (to_valid_utf8 r bad s)"
proof (induction r bad s rule: to_valid_utf8.induct)
  case (1 r bad s)
  then show ?case
    by (subst to_valid_utf8.simps) (auto intro!: utf8_valid_append utf8_valid_rune)
qed

lemma ToValidUTF8_valid: "utf8_valid r \<Longrightarrow> utf8_valid (ToValidUTF8 s r)"
  by (simp add: ToValidUTF8_def to_valid_utf8_valid)

lemma to_valid_utf8_id: "utf8_valid s \<Longrightarrow> to_valid_utf8 r bad s = s"
proof (induction r bad s rule: to_valid_utf8.induct)
  case (1 r bad s)
  then show ?case
    by (subst to_valid_utf8.simps) (auto simp: utf8_valid.simps [of s] split: if_splits)
qed

lemma ToValidUTF8_id: "utf8_valid s \<Longrightarrow> ToValidUTF8 s r = s"
  by (simp add: ToValidUTF8_def to_valid_utf8_id)

text \<open>\<^verbatim>\<open>strings.ReplaceAll(s, "\x00", "")\<close>.\<close>

definition strip_nul :: "string \<Rightarrow> string" where
  "strip_nul s = filter (\<lambda>c. c \<noteq> CHR 0x00) s"

lemma utf8_width_no_nul:
  assumes "utf8_width (a # s) \<noteq> 0" "a \<noteq> CHR 0x00"
  shows "filter (\<lambda>c. c \<noteq> CHR 0x00) (take (utf8_width (a # s)) (a # s)) = take (utf8_width (a # s)) (a # s)"
proof -
  define m where "m = utf8_width (a # s) - 1"
  have "cont_byte c \<Longrightarrow> c \<noteq> CHR 0x00" for c by (auto simp: cont_byte_def)
  moreover have "list_all cont_byte (take m s)"
    using assms(1) unfolding m_def
    by (cases "rune_len (ord_of a) \<le> 1") (auto simp: utf8_width.simps Let_def le_Suc_eq split: if_splits)
  ultimately have "filter (\<lambda>c. c \<noteq> CHR 0x00) (take m s) = take m s"
    by (auto simp: filter_id_conv list_all_iff)
  moreover have "utf8_width (a # s) = Suc m" using assms(1) m_def by simp
  ultimately show ?thesis using assms(2) by simp
qed

lemma utf8_valid_strip_nul: "utf8_valid s \<Longrightarrow> utf8_valid (strip_nul s)"
proof (induction s rule: utf8_valid.induct)
  case (1 s)
  show ?case
  proof (cases s)
    case Nil
    then show ?thesis by (simp add: strip_nul_def)
  next
    case (Cons a s1)
    with 1 have w: "utf8_width s \<noteq> 0" and IH: "utf8_valid (strip_nul (drop (utf8_width s) s))"
      by (auto simp: utf8_valid.simps [of "a # s1"] split: if_splits)
    show ?thesis
    proof (cases "a = CHR 0x00")
      case True
      then have "utf8_width s = 1" using Cons by (simp add: rune_len_def utf8_width.simps)
      then show ?thesis using IH Cons True by (simp add: strip_nul_def)
    next
      case False
      have "strip_nul s = strip_nul (take (utf8_width s) s) @ strip_nul (drop (utf8_width s) s)"
        unfolding strip_nul_def by (metis append_take_drop_id filter_append)
      also have "strip_nul (take (utf8_width s) s) = take (utf8_width s) s"
        using utf8_width_no_nul [of a s1] w False Cons by (simp add: strip_nul_def)
      finally show ?thesis using IH utf8_valid_append utf8_valid_rune [OF w] by simp
    qed
  qed
qed

section \<open>Hexadecimal\<close>

definition hex_digit :: "nat \<Rightarrow> char" where
  "hex_digit n = chr_of (if n < 10 then 48 + n else 87 + n)"

definition hex_val :: "char \<Rightarrow> nat option" where
  "hex_val c = (let x = ord_of c in
     if 48 \<le> x \<and> x \<le> 57 then Some (x - 48)
     else if 97 \<le> x \<and> x \<le> 102 then Some (x - 87)
     else if 65 \<le> x \<and> x \<le> 70 then Some (x - 55)
     else None)"

text \<open>\<^verbatim>\<open>hex.EncodeToString\<close>.\<close>

definition hex_encode :: "bytes \<Rightarrow> string" where
  "hex_encode bs = concat (map (\<lambda>b. [hex_digit (unat b div 16), hex_digit (unat b mod 16)]) bs)"

text \<open>
  \<^verbatim>\<open>hex.DecodeString\<close>: the bytes before the first error, and whether there was none.
\<close>

fun hex_decode :: "string \<Rightarrow> bytes \<times> bool" where
  "hex_decode [] = ([], True)"
| "hex_decode [c] = ([], False)"
| "hex_decode (c # d # s) = (case (hex_val c, hex_val d) of
     (Some x, Some y) \<Rightarrow> (let (bs, ok) = hex_decode s in (word_of_nat (16 * x + y) # bs, ok))
   | _ \<Rightarrow> ([], False))"

lemma hex_val_digit [simp]: "n < 16 \<Longrightarrow> hex_val (hex_digit n) = Some n"
  by (auto simp: hex_val_def hex_digit_def)

lemma hex_decode_encode [simp]: "hex_decode (hex_encode bs) = (bs, True)"
proof (induction bs)
  case Nil
  then show ?case by (simp add: hex_encode_def)
next
  case (Cons b bs)
  have "unat b div 16 < 16" using unsigned_less [of b, where 'a = nat] by simp
  then show ?case using Cons by (simp add: hex_encode_def)
qed

lemma hex_encode_inj: "hex_encode as = hex_encode bs \<Longrightarrow> as = bs"
  by (metis hex_decode_encode prod.inject)

lemma length_hex_encode [simp]: "length (hex_encode bs) = 2 * length bs"
  by (induction bs) (auto simp: hex_encode_def)

lemma hex_decode_length:
  "hex_decode s = (bs, ok) \<Longrightarrow> 2 * length bs \<le> length s \<and> (ok \<longrightarrow> length s = 2 * length bs)"
  by (induction s arbitrary: bs ok rule: hex_decode.induct)
    (auto split: option.splits prod.splits)

section \<open>Decimal integers\<close>

text \<open>\<^verbatim>\<open>strconv.Itoa\<close> and \<^verbatim>\<open>strconv.FormatInt(_, 10)\<close>.\<close>

fun nat_digits :: "nat \<Rightarrow> string" where
  "nat_digits n = (if n < 10 then [chr_of (48 + n)] else nat_digits (n div 10) @ [chr_of (48 + n mod 10)])"

declare nat_digits.simps [simp del]

definition itoa :: "int \<Rightarrow> string" where
  "itoa i = (if i < 0 then ''-'' @ nat_digits (nat (- i)) else nat_digits (nat i))"

definition digit_val :: "char \<Rightarrow> nat option" where
  "digit_val c = (let x = ord_of c in if 48 \<le> x \<and> x \<le> 57 then Some (x - 48) else None)"

text \<open>The value of a string of decimal digits, in the order they are read.\<close>

fun digits_val :: "nat \<Rightarrow> string \<Rightarrow> nat option" where
  "digits_val acc [] = Some acc"
| "digits_val acc (c # s) = (case digit_val c of None \<Rightarrow> None | Some d \<Rightarrow> digits_val (10 * acc + d) s)"

text \<open>
  \<^verbatim>\<open>strconv.Atoi\<close> and \<^verbatim>\<open>strconv.ParseInt(s, 10, 64)\<close>; \<open>None\<close> stands for either error,
  syntax or range, which the code does not tell apart.
\<close>

definition parse_uint :: "string \<Rightarrow> nat option" where
  "parse_uint s = (if s = [] then None else digits_val 0 s)"

definition atoi :: "string \<Rightarrow> int option" where
  "atoi s = (case s of
       [] \<Rightarrow> None
     | c # s1 \<Rightarrow>
         let neg = (c = CHR ''-''); body = (if c = CHR ''-'' \<or> c = CHR ''+'' then s1 else s) in
         (case parse_uint body of
            None \<Rightarrow> None
          | Some n \<Rightarrow>
              if neg then (if n \<le> 2 ^ 63 then Some (- int n) else None)
              else (if n < 2 ^ 63 then Some (int n) else None)))"

lemma digit_val_chr [simp]: "d < 10 \<Longrightarrow> digit_val (chr_of (48 + d)) = Some d"
  by (simp add: digit_val_def)

lemma digits_val_append:
  "digits_val acc (s @ t) = (case digits_val acc s of None \<Rightarrow> None | Some a \<Rightarrow> digits_val a t)"
  by (induction s arbitrary: acc) (auto split: option.splits)

lemma nat_digits_nonempty [simp]: "nat_digits n \<noteq> []"
  by (subst nat_digits.simps) simp

lemma length_nat_digits: "0 < d \<Longrightarrow> n < 10 ^ d \<Longrightarrow> length (nat_digits n) \<le> d"
proof (induction d arbitrary: n)
  case (Suc d)
  show ?case
  proof (cases "n < 10")
    case True
    then show ?thesis by (subst nat_digits.simps) simp
  next
    case False
    then have "d \<noteq> 0" using Suc.prems(2) by (cases d) auto
    then have "length (nat_digits (n div 10)) \<le> d" using Suc.prems(2) by (intro Suc.IH) (simp_all add: less_mult_imp_div_less mult.commute)
    then show ?thesis using False by (subst nat_digits.simps) simp
  qed
qed simp

lemma length_itoa: "0 < i \<Longrightarrow> i < 2 ^ 63 \<Longrightarrow> 1 \<le> length (itoa i) \<and> length (itoa i) \<le> 19"
  using length_nat_digits [of 19 "nat i"] nat_digits_nonempty [of "nat i"] by (auto simp: itoa_def Suc_le_eq nat_less_iff)

lemma digits_val_digits [simp]: "digits_val 0 (nat_digits n) = Some n"
proof (induction n rule: nat_digits.induct)
  case (1 n)
  then show ?case
    by (cases "n < 10") (simp_all add: nat_digits.simps [of n] digits_val_append)
qed

lemma nat_digits_set: "c \<in> set (nat_digits n) \<Longrightarrow> digit_val c \<noteq> None"
proof (induction n rule: nat_digits.induct)
  case (1 n)
  show ?case
  proof (cases "n < 10")
    case True
    then show ?thesis using 1(2) by (auto simp: nat_digits.simps [of n])
  next
    case False
    then show ?thesis using 1 by (auto simp: nat_digits.simps [of n])
  qed
qed

lemma atoi_itoa:
  assumes "- (2 ^ 63) \<le> i" "i < 2 ^ 63" shows "atoi (itoa i) = Some i"
proof (cases "i < 0")
  case True
  then show ?thesis using assms by (simp add: atoi_def itoa_def parse_uint_def)
next
  case False
  have "digit_val (hd (nat_digits (nat i))) \<noteq> None"
    by (rule nat_digits_set [OF hd_in_set [OF nat_digits_nonempty]])
  moreover have "digit_val CHR ''-'' = None" "digit_val CHR ''+'' = None"
    by (simp_all add: digit_val_def)
  ultimately have "hd (nat_digits (nat i)) \<noteq> CHR ''-''" "hd (nat_digits (nat i)) \<noteq> CHR ''+''"
    by metis+
  then show ?thesis
    using assms False digits_val_digits [of "nat i"]
    by (cases "nat_digits (nat i)") (simp_all add: atoi_def itoa_def parse_uint_def
        del: digits_val.simps digits_val_digits)
qed

lemma atoi_range: "atoi s = Some i \<Longrightarrow> - (2 ^ 63) \<le> i \<and> i < 2 ^ 63"
  by (auto simp: atoi_def Let_def split: list.splits option.splits if_splits)

section \<open>Splitting and trimming\<close>

text \<open>\<^verbatim>\<open>strings.Split(s, sep)\<close> for a one-byte separator, and \<^verbatim>\<open>strings.Join\<close>.\<close>

fun split_on :: "char \<Rightarrow> string \<Rightarrow> string list" where
  "split_on c [] = [[]]"
| "split_on c (x # s) =
     (if x = c then [] # split_on c s
      else (case split_on c s of p # ps \<Rightarrow> (x # p) # ps | [] \<Rightarrow> [[x]]))"

fun join_on :: "char \<Rightarrow> string list \<Rightarrow> string" where
  "join_on c [] = []"
| "join_on c [p] = p"
| "join_on c (p # q # ps) = p @ c # join_on c (q # ps)"

lemma split_on_nonempty [simp]: "split_on c s \<noteq> []"
  by (induction s) (auto split: list.splits)

lemma join_split_on: "join_on c (split_on c s) = s"
proof (induction s)
  case (Cons x s)
  then show ?case
    by (cases "split_on c s" rule: list.exhaust; cases "tl (split_on c s)") auto
qed simp

lemma split_on_none: "c \<notin> set p \<Longrightarrow> split_on c p = [p]"
  by (induction p) auto

lemma split_on_append: "c \<notin> set p \<Longrightarrow> split_on c (p @ c # s) = p # split_on c s"
  by (induction p) auto

lemma split_join_on:
  "ps \<noteq> [] \<Longrightarrow> (\<And>p. p \<in> set ps \<Longrightarrow> c \<notin> set p) \<Longrightarrow> split_on c (join_on c ps) = ps"
  by (induction c ps rule: join_on.induct) (simp_all add: split_on_none split_on_append)

text \<open>\<^verbatim>\<open>strings.TrimPrefix\<close>, \<^verbatim>\<open>HasPrefix\<close>, \<^verbatim>\<open>HasSuffix\<close>.\<close>

definition has_prefix :: "string \<Rightarrow> string \<Rightarrow> bool" where
  "has_prefix s p \<longleftrightarrow> take (length p) s = p"

definition has_suffix :: "string \<Rightarrow> string \<Rightarrow> bool" where
  "has_suffix s p \<longleftrightarrow> length p \<le> length s \<and> drop (length s - length p) s = p"

definition trim_prefix :: "string \<Rightarrow> string \<Rightarrow> string" where
  "trim_prefix s p = (if has_prefix s p then drop (length p) s else s)"

lemma trim_prefix_append [simp]: "trim_prefix (p @ s) p = s"
  by (simp add: trim_prefix_def has_prefix_def)

text \<open>
  \<^verbatim>\<open>strings.TrimSpace\<close>: the code points \<^verbatim>\<open>unicode.IsSpace\<close> accepts, as UTF-8.
\<close>

definition bytes_str :: "nat list \<Rightarrow> string" where
  "bytes_str xs = map chr_of xs"

definition spaces :: "string list" where
  "spaces = map bytes_str ([[9], [10], [11], [12], [13], [32], [194, 133], [194, 160],
     [225, 154, 128], [226, 128, 168], [226, 128, 169], [226, 128, 175], [226, 129, 159],
     [227, 128, 128]] @ map (\<lambda>i. [226, 128, 128 + i]) [0..<11])"

definition space_at :: "string \<Rightarrow> nat" where
  "space_at s = (case filter (has_prefix s) spaces of [] \<Rightarrow> 0 | sp # _ \<Rightarrow> length sp)"

definition space_before :: "string \<Rightarrow> nat" where
  "space_before s = (case filter (has_suffix s) spaces of [] \<Rightarrow> 0 | sp # _ \<Rightarrow> length sp)"

function trim_left :: "string \<Rightarrow> string" where
  "trim_left s = (if s = [] \<or> space_at s = 0 then s else trim_left (drop (space_at s) s))"
  by pat_completeness auto
termination by (relation "measure length") auto

function trim_right :: "string \<Rightarrow> string" where
  "trim_right s = (if s = [] \<or> space_before s = 0 then s
     else trim_right (take (length s - space_before s) s))"
  by pat_completeness auto
termination by (relation "measure length") auto

declare trim_left.simps [simp del] trim_right.simps [simp del]

definition TrimSpace :: "string \<Rightarrow> string" where
  "TrimSpace s = trim_right (trim_left s)"

end
