(* ===== verification/Project_DB.thy ===== *)
theory Project_DB
  imports Event_Types Go_Strings
begin

text \<open>
  The tables of the \<^verbatim>\<open>project\<close> schema (\<^verbatim>\<open>internal/store/migrations/project\<close>) and
  the transaction the stages write through. A table with a primary key is an association
  list from the key to the other columns; \<^verbatim>\<open>packet_observations\<close> and
  \<^verbatim>\<open>anomalies\<close>, whose keys are generated, are lists in insertion order. Each SQL
  statement of the stages is translated where it is used, as a function on \<open>db\<close> that
  fails where Postgres rejects a value or row.

  What the code cannot decide is a parameter. Whether a round trip to Postgres fails is the
  \<open>fuse\<close> of a transaction: \<open>Some n\<close> lets \<open>n\<close> statements pass and fails the next
  one. The value a \<^verbatim>\<open>numeric(p,s)\<close> column holds after a \<^verbatim>\<open>float64\<close> was
  written to it (or that it is rejected) is the driver's and the server's: \<open>q62\<close> and
  \<open>q103\<close> of \<open>env\<close>. \<^verbatim>\<open>numeric\<close> values are rationals; the value of a column or parameter
  that is one of these floats, the quotient (rounded to a scale of the server's choice) and the
  conversion to \<^verbatim>\<open>float8\<close> are \<open>num_of\<close>, \<open>num_div\<close> and \<open>num_float\<close>. The order of a \<^verbatim>\<open>range\<close> over a Go map is \<open>range_of\<close>.
\<close>

section \<open>Rows\<close>

record observers_row =
  o_origin_name :: string
  o_region :: string
  o_model :: string
  o_firmware_version :: string
  o_client_version :: string
  o_source :: string
  o_radio_freq_khz :: "int option"
  o_radio_bw_khz :: "f64 option"
  o_radio_sf :: "int option"
  o_radio_cr :: "int option"
  o_first_seen :: time
  o_last_seen :: time

record status_row =
  s_status :: string
  s_uptime_secs :: "int option"
  s_battery_mv :: "int option"
  s_queue_len :: "int option"
  s_noise_floor :: "int option"
  s_tx_air_secs :: "int option"
  s_rx_air_secs :: "int option"
  s_recv_errors :: "int option"
  s_last_rssi :: "int option"
  s_last_snr :: "f64 option"
  s_debug_flags :: "int option"

record nodes_row =
  n_prefix1 :: bytes
  n_prefix4 :: bytes
  n_node_type :: string
  n_name :: string
  n_has_lat_lon :: bool
  n_lat_e6 :: "int option"
  n_lon_e6 :: "int option"
  n_has_feat1 :: bool
  n_feat1 :: "int option"
  n_has_feat2 :: bool
  n_feat2 :: "int option"
  n_advert_timestamp :: "time option"
  n_advert_received_at :: "time option"
  n_advert_count :: int
  n_first_seen :: time
  n_last_seen :: time

record packet_row =
  po_id :: int
  po_ts :: time
  po_observer_id :: bytes
  po_packet_hash :: "bytes option"
  po_direction :: string
  po_packet_type :: string
  po_route :: string
  po_len :: "int option"
  po_payload_len :: "int option"
  po_rssi :: "int option"
  po_snr :: "f64 option"
  po_score :: "int option"
  po_duration_ms :: "int option"
  po_raw :: "bytes option"
  po_decoded_type :: "int option"
  po_source_prefix :: "bytes option"
  po_dest_prefix :: "bytes option"
  po_transport_codes :: "bytes option"

record unique_row =
  u_first_seen :: time
  u_last_seen :: time
  u_packet_type :: string
  u_route :: string
  u_decoded_type :: "int option"
  u_source_prefix :: "bytes option"
  u_observer_count :: int

record rollup_row =
  ro_packets :: int
  ro_unique_pkts :: int
  ro_flood_pkts :: int
  ro_direct_pkts :: int
  ro_avg_rssi :: "f64 option"
  ro_min_rssi :: "int option"
  ro_max_rssi :: "int option"
  ro_avg_snr :: "f64 option"
  ro_noise_floor :: "int option"

record neighbor_row =
  rn_packets :: int
  rn_avg_rssi :: "f64 option"
  rn_min_rssi :: "int option"
  rn_max_rssi :: "int option"
  rn_avg_snr :: "f64 option"

text \<open>A JSON value of an anomaly's details.\<close>

datatype detail = DText string | DFloat f64 | DInt int | DBytes bytes

record anomaly_row =
  an_id :: int
  an_ts :: time
  an_kind :: string
  an_subject_id :: "bytes option"
  an_severity :: string
  an_details :: "(string \<times> detail) list"
  an_resolved_at :: "time option"

record db =
  t_observers :: "(bytes, observers_row) pgtable"
  t_observer_status :: "(bytes \<times> time, status_row) pgtable"
  t_nodes :: "(bytes, nodes_row) pgtable"
  t_packet_observations :: "packet_row list"
  t_packet_observations_seq :: int
  t_packets_unique :: "(bytes, unique_row) pgtable"
  t_rollup_observer_1m :: "(bytes \<times> time, rollup_row) pgtable"
  t_rollup_observer_1h :: "(bytes \<times> time, rollup_row) pgtable"
  t_rollup_neighbor_1m :: "(bytes \<times> bytes \<times> time, neighbor_row) pgtable"
  t_anomalies :: "anomaly_row list"
  t_anomalies_seq :: int
  t_projector_state :: "(string, int) pgtable"

text \<open>The tables right after \<^verbatim>\<open>meshbug migrate\<close>: empty, with the cursor row at 0.\<close>

definition empty_db :: db where
  "empty_db = \<lparr>t_observers = [], t_observer_status = [], t_nodes = [],
     t_packet_observations = [], t_packet_observations_seq = 0, t_packets_unique = [],
     t_rollup_observer_1m = [], t_rollup_observer_1h = [], t_rollup_neighbor_1m = [],
     t_anomalies = [], t_anomalies_seq = 0, t_projector_state = [(''default'', 0)]\<rparr>"

section \<open>Transactions\<close>

record env =
  range_of :: "nat \<Rightarrow> nat list"
  q62 :: "f64 \<Rightarrow> f64 option"
  q103 :: "f64 \<Rightarrow> f64 option"
  num_of :: "f64 \<Rightarrow> rat"
  num_div :: "rat \<Rightarrow> rat \<Rightarrow> rat"
  num_float :: "rat \<Rightarrow> f64"

record tx =
  tables :: db
  fuse :: "nat option"

definition burn :: "nat option \<Rightarrow> nat option" where
  "burn f = map_option (\<lambda>n. n - 1) f"

text \<open>\<^verbatim>\<open>tx.Exec\<close> of a statement that rewrites the tables, and \<^verbatim>\<open>tx.Query\<close> (with
  every row scanned) of one that reads them.\<close>

definition exec :: "(db \<Rightarrow> err + db) \<Rightarrow> tx \<Rightarrow> err + tx" where
  "exec stmt t =
     (if fuse t = Some 0 then Inl ConnError
      else case stmt (tables t) of
             Inl e \<Rightarrow> Inl e
           | Inr d \<Rightarrow> Inr (t\<lparr>tables := d, fuse := burn (fuse t)\<rparr>))"

definition query :: "(db \<Rightarrow> 'a) \<Rightarrow> tx \<Rightarrow> err + 'a \<times> tx" where
  "query sel t =
     (if fuse t = Some 0 then Inl ConnError
      else Inr (sel (tables t), t\<lparr>fuse := burn (fuse t)\<rparr>))"

text \<open>\<^verbatim>\<open>tx.QueryRow(...).Scan\<close> of a statement that rewrites the tables and returns a value.\<close>

definition exec_returning :: "(db \<Rightarrow> err + 'a \<times> db) \<Rightarrow> tx \<Rightarrow> err + 'a \<times> tx" where
  "exec_returning stmt t =
     (if fuse t = Some 0 then Inl ConnError
      else case stmt (tables t) of
             Inl e \<Rightarrow> Inl e
           | Inr (x, d) \<Rightarrow> Inr (x, t\<lparr>tables := d, fuse := burn (fuse t)\<rparr>))"

lemma exec_returning_Inr:
  "exec_returning stmt t = Inr (x, t') \<longleftrightarrow>
     (\<exists>d. fuse t \<noteq> Some 0 \<and> stmt (tables t) = Inr (x, d) \<and> t' = t\<lparr>tables := d, fuse := burn (fuse t)\<rparr>)"
  by (auto simp: exec_returning_def split: sum.splits)

lemma exec_Inr:
  "exec stmt t = Inr t' \<longleftrightarrow>
     (\<exists>d. fuse t \<noteq> Some 0 \<and> stmt (tables t) = Inr d \<and> t' = t\<lparr>tables := d, fuse := burn (fuse t)\<rparr>)"
  by (auto simp: exec_def split: sum.splits)

lemma query_Inr:
  "query sel t = Inr (x, t') \<longleftrightarrow>
     fuse t \<noteq> Some 0 \<and> x = sel (tables t) \<and> t' = t\<lparr>fuse := burn (fuse t)\<rparr>"
  by (auto simp: query_def)

section \<open>Column domains\<close>

text \<open>\<^verbatim>\<open>int\<close> columns hold 32 bits; \<^verbatim>\<open>text\<close> columns hold valid UTF-8 without NUL.\<close>

definition int4_ok :: "int \<Rightarrow> bool" where
  "int4_ok i \<longleftrightarrow> - (2 ^ 31) \<le> i \<and> i < 2 ^ 31"

definition int4_opt_ok :: "int option \<Rightarrow> bool" where
  "int4_opt_ok i = (case i of None \<Rightarrow> True | Some x \<Rightarrow> int4_ok x)"

definition int2_opt_ok :: "int option \<Rightarrow> bool" where
  "int2_opt_ok i = (case i of None \<Rightarrow> True | Some x \<Rightarrow> - (2 ^ 15) \<le> x \<and> x < 2 ^ 15)"

definition text_ok :: "string \<Rightarrow> bool" where
  "text_ok s \<longleftrightarrow> CHR 0x00 \<notin> set s \<and> utf8_valid s"

text \<open>A float written to a nullable numeric column.\<close>

definition numeric_opt :: "(f64 \<Rightarrow> f64 option) \<Rightarrow> f64 option \<Rightarrow> f64 option option" where
  "numeric_opt q x = (case x of None \<Rightarrow> Some None | Some v \<Rightarrow> map_option Some (q v))"

lemma numeric_opt_Some:
  "numeric_opt q x = Some y \<Longrightarrow> y = (case x of None \<Rightarrow> None | Some v \<Rightarrow> q v)"
  by (auto simp: numeric_opt_def split: option.splits)

end
