(* ===== verification/Stage_Interface.thy ===== *)
theory Stage_Interface
  imports Project_DB
begin

text \<open>
  The contract of a pipeline stage (the \<^verbatim>\<open>Stage\<close> interface of
  \<^verbatim>\<open>internal/project/pipeline/types.go\<close>) as a hierarchy of locales: \<open>table\<close> is the
  part of the database a stage owns, \<open>keyed_table\<close> a table with a primary key, with the
  effect of a loop of upserts, and \<open>stage\<close> the contract of the stage itself. A stage's
  table is read with \<open>get\<close>; \<open>ok E hist tab\<close> is what it promises of the table once
  the events of \<open>hist\<close> have been committed, whatever batches they came in.
  \<open>sync E hist es s tab\<close> relates the stage's memory \<open>s\<close> and table while the events
  \<open>es\<close> of the current batch have been applied but not committed. A fresh memory (a
  process restart) is in sync with any table that keeps the promise.
\<close>

section \<open>The table a stage owns\<close>

locale table =
  fixes get :: "db \<Rightarrow> 't"
    and put :: "'t \<Rightarrow> db \<Rightarrow> db"
  assumes get_put [simp]: "get (put x d) = x"
    and put_put [simp]: "put x (put y d) = put x d"
    and put_get [simp]: "put (get d) d = d"

locale keyed_table = table get put
  for get :: "db \<Rightarrow> ('k, 'v) pgtable" and put :: "('k, 'v) pgtable \<Rightarrow> db \<Rightarrow> db"

text \<open>
  A loop of statements each of which stays within the table leaves the rest of the database
  alone.
\<close>

context table
begin

lemma for_each_frame:
  assumes "for_each body xs s t = (s', Inr t')"
    and "\<And>x s1 t1 s2 t2. x \<in> set xs \<Longrightarrow> body x s1 t1 = (s2, Inr t2) \<Longrightarrow> \<exists>y. tables t2 = put y (tables t1)"
  shows "\<exists>y. tables t' = put y (tables t)"
proof -
  let ?I = "\<lambda>pre s1 t1. \<exists>y. tables t1 = put y (tables t)"
  show ?thesis
  proof (rule for_each_rule [where I = ?I, OF assms(1)])
    show "\<exists>y. tables t = put y (tables t)" using put_get by metis
    show "\<exists>y. tables t2 = put y (tables t)"
      if "xs = pre @ x # post" "\<exists>y. tables t1 = put y (tables t)" "body x s1 t1 = (s2, Inr t2)"
      for pre x post s1 t1 s2 t2
      using assms(2) [OF _ that(3)] that(1,2) by (fastforce simp: put_put)
  qed
qed

end

section \<open>Stages that keep the rows touched by one batch\<close>

text \<open>
  The contract of a stage whose memory is the set of rows the current batch has touched:
  \<open>evs hist k\<close> are the contributions of a history to the row of key \<open>k\<close>, the memory
  holds \<open>agg k\<close> of the batch's contributions, the table \<open>spec\<close> of all of them, and
  the upsert of a touched row merges the two, for contributions that are \<open>good\<close>.
\<close>

locale working_set = keyed_table get put
  for get :: "db \<Rightarrow> ('k, 'v) pgtable" and put :: "('k, 'v) pgtable \<Rightarrow> db \<Rightarrow> db" +
  fixes evs :: "Event list \<Rightarrow> 'k \<Rightarrow> 'x list"
    and agg :: "'k \<Rightarrow> 'x list \<Rightarrow> 'r"
    and spec :: "env \<Rightarrow> 'x list \<Rightarrow> 'v"
    and stmt :: "env \<Rightarrow> 'r \<Rightarrow> db \<Rightarrow> err + db"
    and good :: "'x list \<Rightarrow> bool"
  assumes evs_Nil [simp]: "evs [] k = []"
    and evs_append [simp]: "evs (es @ fs) k = evs es k @ evs fs k"
    and stmt_frame: "stmt E r d = Inr d' \<Longrightarrow> \<exists>x. d' = put x d"
    and stmt_spec: "stmt E (agg k ys) d = Inr d' \<Longrightarrow> ys \<noteq> [] \<Longrightarrow>
      good (xs @ ys) \<Longrightarrow> map_of (get d) k = (if xs = [] then None else Some (spec E xs)) \<Longrightarrow>
      d' = put (AList.update k (spec E (xs @ ys)) (get d)) d"
begin

definition table_ok :: "env \<Rightarrow> Event list \<Rightarrow> ('k, 'v) pgtable \<Rightarrow> bool" where
  "table_ok E hist tab \<longleftrightarrow> distinct (map fst tab) \<and>
     (\<forall>k. map_of tab k = (if evs hist k = [] then None else Some (spec E (evs hist k))))"

definition in_sync ::
  "env \<Rightarrow> Event list \<Rightarrow> Event list \<Rightarrow> ('k, 'r) gomap \<Rightarrow> ('k, 'v) pgtable \<Rightarrow> bool" where
  "in_sync E hist es m tab \<longleftrightarrow> table_ok E hist tab \<and> distinct (map fst m) \<and>
     (\<forall>k. map_of m k = (if evs es k = [] then None else Some (agg k (evs es k))))"

lemma empty_in_sync: "in_sync E hist [] [] tab \<longleftrightarrow> table_ok E hist tab"
  by (simp add: in_sync_def)

lemma idle_in_sync: "in_sync E hist [] m tab \<Longrightarrow> m = []"
  by (cases m) (auto simp: in_sync_def dest: spec [of _ "fst (hd m)"] split: if_splits)

lemma touch_in_sync:
  assumes "in_sync E hist es m tab" and "\<And>k. evs [e] k = (if k = k0 then [x] else [])"
    and "r = agg k0 (evs es k0 @ [x])"
  shows "in_sync E hist (es @ [e]) (AList.update k0 r m) tab"
  using assms by (simp add: in_sync_def distinct_update update_conv')

lemma skip_in_sync:
  "in_sync E hist es m tab \<Longrightarrow> (\<And>k. evs [e] k = []) \<Longrightarrow> in_sync E hist (es @ [e]) m tab"
  by (simp add: in_sync_def)

lemma flush_frame:
  assumes "for_each (\<lambda>(k, r) s t. (s, exec (stmt E r) t)) xs s t = (s', Inr t')"
  shows "\<exists>x. tables t' = put x (tables t)"
  by (rule for_each_frame [OF assms]) (auto simp: exec_Inr split: prod.splits dest: stmt_frame)

lemma flush_in_sync:
  assumes run: "for_each (\<lambda>(k, r) s t. (s, exec (stmt E r) t)) (go_range it m) s t = (s', Inr t')"
    and ord: "range_order it" and sync: "in_sync E hist es m (get (tables t))"
    and good: "\<And>k. good (evs (hist @ es) k)"
  shows "table_ok E (hist @ es) (get (tables t'))" and "s' = s"
proof -
  let ?xs = "go_range it m" and ?tab = "\<lambda>u. get (tables u)"
  let ?row = "\<lambda>h k. if evs h k = [] then None else Some (spec E (evs h k))"
  let ?I = "\<lambda>pre s1 t1. s1 = s \<and> distinct (map fst (?tab t1)) \<and>
    (distinct (map fst pre) \<longrightarrow> (\<forall>k. map_of (?tab t1) k =
       ?row (if k \<in> fst ` set pre then hist @ es else hist) k))"
  have dm: "distinct (map fst m)" and tab0: "distinct (map fst (?tab t))"
    "\<And>k. map_of (?tab t) k = ?row hist k"
    and m: "\<And>k. map_of m k = (if evs es k = [] then None else Some (agg k (evs es k)))"
    using sync by (auto simp: in_sync_def table_ok_def)
  have "?I ?xs s' t'"
  proof (rule for_each_rule [where I = ?I, OF run])
    show "?I [] s t" using tab0 by simp
  next
    fix pre x post s1 t1 s2 t2
    assume x: "?xs = pre @ x # post" and I: "?I pre s1 t1"
      and b: "(case x of (k, r) \<Rightarrow> \<lambda>s t. (s, exec (stmt E r) t)) s1 t1 = (s2, Inr t2)"
    obtain k r where kr: "x = (k, r)" by force
    have "x \<in> set m" using x ord by (metis in_set_conv_decomp set_go_range)
    then have "map_of m k = Some r" using kr dm by simp
    then have ne: "evs es k \<noteq> []" and r: "r = agg k (evs es k)"
      using m [of k] by (auto split: if_splits)
    from b kr have s: "s2 = s1" and "stmt E r (tables t1) = Inr (tables t2)"
      by (auto simp: exec_Inr)
    then have st: "stmt E (agg k (evs es k)) (tables t1) = Inr (tables t2)" by (simp add: r)
    have "distinct (map fst (pre @ x # post))"
      using distinct_keys_go_range [OF ord dm] x by simp
    then have "k \<notin> fst ` set pre" "distinct (map fst pre)" using kr by auto
    with I have old: "map_of (?tab t1) k = ?row hist k"
      and I': "\<And>k'. map_of (?tab t1) k' = ?row (if k' \<in> fst ` set pre then hist @ es else hist) k'"
      by auto
    have t2: "?tab t2 = AList.update k (spec E (evs hist k @ evs es k)) (?tab t1)"
      using stmt_spec [OF st ne _ old] good [of k] by simp
    then have "map_of (?tab t2) k' =
        ?row (if k' \<in> fst ` set (pre @ [x]) then hist @ es else hist) k'" for k'
      using I' [of k'] ne kr by (auto simp: update_conv')
    then show "?I (pre @ [x]) s2 t2" using I s t2 by (auto simp: distinct_update)
  qed
  moreover have "k \<in> fst ` set ?xs \<longleftrightarrow> evs es k \<noteq> []" for k
    using m [of k] ord map_of_eq_None_iff [of m k] by (simp split: if_splits)
  ultimately show "table_ok E (hist @ es) (?tab t')" and "s' = s"
    using distinct_keys_go_range [OF ord dm] by (auto simp: table_ok_def)
qed

end

section \<open>Stages that keep accumulators across batches\<close>

text \<open>
  The flush loop of a stage whose memory maps keys to accumulators: each dirty accumulator is
  upserted under the table key \<open>tkey\<close> and marked clean. \<open>entries\<close> and \<open>with_entries\<close> read
  and replace the map in the stage's memory; \<open>newrow\<close> is the row the upsert leaves, given the
  row before; \<open>valid\<close> is what its success says of the accumulator.
\<close>

locale accum_loop = keyed_table get put
  for get :: "db \<Rightarrow> ('k, 'v) pgtable" and put :: "('k, 'v) pgtable \<Rightarrow> db \<Rightarrow> db" +
  fixes entries :: "'s \<Rightarrow> ('i, 'a) gomap"
    and with_entries :: "('i, 'a) gomap \<Rightarrow> 's \<Rightarrow> 's"
    and dirty :: "'a \<Rightarrow> bool"
    and clean :: "'a \<Rightarrow> 'a"
    and tkey :: "'a \<Rightarrow> 'k"
    and upsert :: "env \<Rightarrow> 'a \<Rightarrow> db \<Rightarrow> err + db"
    and newrow :: "env \<Rightarrow> 'a \<Rightarrow> 'v option \<Rightarrow> 'v"
    and valid :: "env \<Rightarrow> 'a \<Rightarrow> bool"
  assumes entries_with [simp]: "entries (with_entries m s) = m"
    and with_with [simp]: "with_entries m (with_entries m' s) = with_entries m s"
    and with_entries_id [simp]: "with_entries (entries s) s = s"
    and upsert_effect: "upsert E a d = Inr d' \<Longrightarrow>
      valid E a \<and> d' = put (AList.update (tkey a) (newrow E a (map_of (get d) (tkey a))) (get d)) d"
begin

definition flush_entry :: "env \<Rightarrow> 'i \<times> 'a \<Rightarrow> 's \<Rightarrow> tx \<Rightarrow> 's \<times> (err + tx)" where
  "flush_entry E = (\<lambda>(i, a) s t.
     if \<not> dirty a then (s, Inr t)
     else case exec (upsert E a) t of
            Inl e \<Rightarrow> (s, Inl e)
          | Inr t' \<Rightarrow> (with_entries (AList.update i (clean a) (entries s)) s, Inr t'))"

lemma flush_entry_cases:
  assumes "flush_entry E (i, a) s t = (s', Inr t')"
  obtains "\<not> dirty a" "s' = s" "t' = t"
  | "dirty a" "valid E a" "s' = with_entries (AList.update i (clean a) (entries s)) s"
    "tables t' = put (AList.update (tkey a) (newrow E a (map_of (get (tables t)) (tkey a))) (get (tables t))) (tables t)"
  using assms by (auto simp: flush_entry_def exec_Inr dest!: upsert_effect split: if_splits sum.splits)

lemma flush_entries_frame:
  assumes "for_each (flush_entry E) xs s t = (s', Inr t')"
  shows "\<exists>x. tables t' = put x (tables t)"
proof (rule for_each_frame [OF assms])
  show "\<exists>y. tables t2 = put y (tables t1)" if "flush_entry E x s1 t1 = (s2, Inr t2)" for x s1 t1 s2 t2
  proof (cases x)
    case (Pair i a)
    with that have "flush_entry E (i, a) s1 t1 = (s2, Inr t2)" by simp
    then show ?thesis by (rule flush_entry_cases) (metis put_get)+
  qed
qed

lemma flush_entries:
  assumes run: "for_each (flush_entry E) (go_range it (entries s)) s t = (s', Inr t')"
    and ord: "range_order it" and d: "distinct (map fst (entries s))"
    and dt: "distinct (map fst (get (tables t)))"
    and inj: "\<forall>i a j b. map_of (entries s) i = Some a \<longrightarrow> map_of (entries s) j = Some b \<longrightarrow>
      tkey a = tkey b \<longrightarrow> i = j"
  shows "distinct (map fst (get (tables t')))" and "distinct (map fst (entries s'))"
    and "s' = with_entries (entries s') s"
    and "map_of (entries s') i = map_option (\<lambda>a. if dirty a then clean a else a) (map_of (entries s) i)"
    and "map_of (entries s) i = Some a \<Longrightarrow> dirty a \<Longrightarrow> valid E a \<and>
      map_of (get (tables t')) (tkey a) = Some (newrow E a (map_of (get (tables t)) (tkey a)))"
    and "\<forall>i a. map_of (entries s) i = Some a \<longrightarrow> dirty a \<longrightarrow> tkey a \<noteq> k \<Longrightarrow>
      map_of (get (tables t')) k = map_of (get (tables t)) k"
proof -
  let ?xs = "go_range it (entries s)" and ?tab = "\<lambda>u. get (tables u)"
  let ?done = "\<lambda>a. if dirty a then clean a else a"
  let ?I = "\<lambda>pre s1 t1. distinct (map fst (entries s1)) \<and> distinct (map fst (?tab t1)) \<and>
    s1 = with_entries (entries s1) s \<and>
    (\<forall>i. map_of (entries s1) i = map_option (if i \<in> fst ` set pre then ?done else id) (map_of (entries s) i)) \<and>
    (\<forall>i a. (i, a) \<in> set pre \<longrightarrow> dirty a \<longrightarrow> valid E a \<and>
       map_of (?tab t1) (tkey a) = Some (newrow E a (map_of (?tab t) (tkey a)))) \<and>
    (\<forall>k. (\<forall>(i, a) \<in> set pre. dirty a \<longrightarrow> tkey a \<noteq> k) \<longrightarrow> map_of (?tab t1) k = map_of (?tab t) k)"
  have "?I ?xs s' t'"
  proof (rule for_each_rule [where I = ?I, OF run])
    show "?I [] s t" using d dt by (simp add: option.map_id)
  next
    fix pre x post s1 t1 s2 t2
    assume x: "?xs = pre @ x # post" and I: "?I pre s1 t1" and b: "flush_entry E x s1 t1 = (s2, Inr t2)"
    obtain i a where ia: "x = (i, a)" by (rule prod.exhaust)
    have dx: "distinct (map fst (pre @ x # post))" using distinct_keys_go_range [OF ord d] x by simp
    then have fresh: "i \<notin> fst ` set pre" using ia by auto
    have mem: "map_of (entries s) j = Some c" if "(j, c) \<in> set pre \<or> (j, c) = x" for j c
      using that d x set_go_range [OF ord, of "entries s"] by auto
    have other: "tkey c \<noteq> tkey a" if "(j, c) \<in> set pre" for j c
      using inj mem [of j c] mem [of i a] that ia fresh by (metis fst_conv image_eqI)
    from b [unfolded ia] show "?I (pre @ [x]) s2 t2"
    proof (cases rule: flush_entry_cases)
      case 1
      have "map_of (entries s2) j = map_option (if j \<in> fst ` set (pre @ [x]) then ?done else id)
          (map_of (entries s) j)" for j
        using I 1 ia mem [of i a] by (cases "j = i") (auto simp del: map_of_eq_Some_iff)
      then show ?thesis using I 1 ia by auto
    next
      case 2
      have tab: "?tab t2 = AList.update (tkey a) (newrow E a (map_of (?tab t1) (tkey a))) (?tab t1)"
        using 2 by simp
      have same: "map_of (?tab t1) (tkey a) = map_of (?tab t) (tkey a)"
      proof -
        have "\<forall>(j, c) \<in> set pre. dirty c \<longrightarrow> tkey c \<noteq> tkey a" using other by blast
        with I show ?thesis by blast
      qed
      have "map_of (entries s2) j = map_option (if j \<in> fst ` set (pre @ [x]) then ?done else id)
          (map_of (entries s) j)" for j
        using I 2 ia mem [of i a] by (cases "j = i") (auto simp: update_conv' simp del: map_of_eq_Some_iff)
      moreover have "valid E c \<and> map_of (?tab t2) (tkey c) = Some (newrow E c (map_of (?tab t) (tkey c)))"
        if "(j, c) \<in> set (pre @ [x])" "dirty c" for j c
        using that I 2 ia same other [of j c] by (auto simp: tab update_conv')
      moreover have "map_of (?tab t2) k = map_of (?tab t) k"
        if "\<forall>(i, a) \<in> set (pre @ [x]). dirty a \<longrightarrow> tkey a \<noteq> k" for k
        using that I 2(1) ia by (auto simp: tab update_conv')
      moreover have "s2 = with_entries (entries s2) s" using I 2(3) by (metis entries_with with_with)
      ultimately show ?thesis using I 2(3) by (simp add: tab distinct_update)
    qed
  qed
  note fin = this
  have mem: "(i, a) \<in> set ?xs \<longleftrightarrow> map_of (entries s) i = Some a" for i a using ord d by simp
  show "distinct (map fst (?tab t'))" "distinct (map fst (entries s'))" "s' = with_entries (entries s') s"
    using fin by blast+
  show "map_of (entries s') i = map_option ?done (map_of (entries s) i)"
  proof (cases "map_of (entries s) i")
    case (Some a)
    then have "i \<in> fst ` set ?xs" using mem [of i a] by (metis fst_conv image_eqI)
    then show ?thesis using fin by simp
  qed (use fin in simp)
  show "valid E a \<and> map_of (?tab t') (tkey a) = Some (newrow E a (map_of (?tab t) (tkey a)))"
    if "map_of (entries s) i = Some a" "dirty a"
    using fin that mem by blast
  show "map_of (?tab t') k = map_of (?tab t) k"
    if "\<forall>i a. map_of (entries s) i = Some a \<longrightarrow> dirty a \<longrightarrow> tkey a \<noteq> k"
    using fin that mem by blast
qed

end

section \<open>The stage\<close>

locale stage = table get put
  for get :: "db \<Rightarrow> 't" and put :: "'t \<Rightarrow> db \<Rightarrow> db" +
  fixes apply_event :: "Event \<Rightarrow> 's \<Rightarrow> 's"
    and flush :: "env \<Rightarrow> 's \<Rightarrow> tx \<Rightarrow> 's \<times> (err + tx)"
    and evict :: "time \<Rightarrow> 's \<Rightarrow> 's"
    and fresh :: "'s"
    and reads :: "Event list \<Rightarrow> db \<Rightarrow> bool"
    and wf :: "Event \<Rightarrow> bool"
    and ok :: "env \<Rightarrow> Event list \<Rightarrow> 't \<Rightarrow> bool"
    and sync :: "env \<Rightarrow> Event list \<Rightarrow> Event list \<Rightarrow> 's \<Rightarrow> 't \<Rightarrow> bool"
  assumes fresh_sync: "ok E hist tab \<Longrightarrow> sync E hist [] fresh tab"
    and sync_ok: "sync E hist [] s tab \<Longrightarrow> ok E hist tab"
    and apply_sync: "sync E hist es s tab \<Longrightarrow> wf e \<Longrightarrow> sync E hist (es @ [e]) (apply_event e s) tab"
    and flush_frame: "flush E s t = (s', Inr t') \<Longrightarrow> sync E hist es s (get (tables t)) \<Longrightarrow>
      \<exists>x. tables t' = put x (tables t)"
    and flush_idle: "flush E s t = (s', Inr t') \<Longrightarrow> range_order (range_of E) \<Longrightarrow>
      reads hist (tables t) \<Longrightarrow> list_all wf hist \<Longrightarrow>
      sync E hist [] s (get (tables t)) \<Longrightarrow> sync E hist [] s' (get (tables t'))"
    and flush_sync: "flush E s t = (s', Inr t') \<Longrightarrow> range_order (range_of E) \<Longrightarrow>
      reads hist (tables t) \<Longrightarrow> list_all wf (hist @ es) \<Longrightarrow>
      sync E hist es s (get (tables t)) \<Longrightarrow> sync E (hist @ es) [] (evict h s') (get (tables t'))"
begin

lemma fold_apply_sync:
  "sync E hist es s tab \<Longrightarrow> list_all wf fs \<Longrightarrow> sync E hist (es @ fs) (fold apply_event fs s) tab"
proof (induction fs arbitrary: es s)
  case Nil
  then show ?case by simp
next
  case (Cons f fs)
  then have "sync E hist (es @ [f]) (apply_event f s) tab" by (simp add: apply_sync)
  from Cons.IH [OF this] Cons.prems(2) show ?case by simp
qed

text \<open>One batch that commits: the memory after the post-commit eviction is in sync again.\<close>

lemma batch_sync:
  assumes "flush E (fold apply_event es s) t = (s', Inr t')" and "range_order (range_of E)"
    and "reads hist (tables t)" and "list_all wf (hist @ es)"
    and "sync E hist [] s (get (tables t))"
  shows "sync E (hist @ es) [] (evict h s') (get (tables t'))"
    and "es = [] \<Longrightarrow> sync E hist [] s' (get (tables t'))"
proof -
  have "sync E hist ([] @ es) (fold apply_event es s) (get (tables t))"
    using assms(4,5) by (intro fold_apply_sync) auto
  then show "sync E (hist @ es) [] (evict h s') (get (tables t'))"
    using assms flush_sync by simp
  show "es = [] \<Longrightarrow> sync E hist [] s' (get (tables t'))"
    using assms flush_idle by auto
qed

text \<open>A process restart drops the memory and keeps the table.\<close>

lemma restart_sync: "sync E hist [] s tab \<Longrightarrow> sync E hist [] fresh tab"
  by (blast intro: fresh_sync sync_ok)

text \<open>
  So after each committed batch the table keeps its promise for all the events committed
  so far.
\<close>

lemma flush_keeps_promise:
  assumes "flush E (fold apply_event es s) t = (s', Inr t')" and "range_order (range_of E)"
    and "reads hist (tables t)" and "list_all wf (hist @ es)"
    and "sync E hist [] s (get (tables t))"
  shows "ok E (hist @ es) (get (tables t'))"
  using batch_sync(1) [OF assms] by (rule sync_ok)

end

end
