(* ===== verification/Sample_Log.thy ===== *)
theory Sample_Log
  imports Stage_Interface
begin

text \<open>
  A small concrete log, a database connection that never fails and a numeric conversion that
  never rounds: the inputs at which the conditional theorems of the stages are applied.
\<close>

definition sample_env :: env where
  "sample_env = \<lparr>range_of = (\<lambda>n. [0..<n]), q62 = Some, q103 = Some,
     num_of = (\<lambda>x. case x of Fin r \<Rightarrow> r | _ \<Rightarrow> 0), num_div = (/), num_float = rnd\<rparr>"

definition sample_tx :: tx where
  "sample_tx = \<lparr>tables = empty_db, fuse = None\<rparr>"

text \<open>A connection to a database that knows the observer of the log and its packets.\<close>

definition sample_observer :: observers_row where
  "sample_observer = \<lparr>o_origin_name = ''hill'', o_region = ''BUF'', o_model = [],
     o_firmware_version = [], o_client_version = [], o_source = [], o_radio_freq_khz = None,
     o_radio_bw_khz = None, o_radio_sf = None, o_radio_cr = None, o_first_seen = unix_epoch,
     o_last_seen = unix_epoch\<rparr>"

definition observed_tx :: tx where
  "observed_tx = \<lparr>tables = empty_db\<lparr>t_observers := [([7], sample_observer)]\<rparr>, fuse = None\<rparr>"

definition sample_time :: time where
  "sample_time = unix_epoch + 1700000000 * second"

definition sample_status :: StatusPayload where
  "sample_status = \<lparr>sp_Status = ''online'', sp_Origin = ''hill'', sp_Model = ''V4'',
     sp_FirmwareVersion = ''v1.15'', sp_ClientVersion = [], sp_Source = [],
     sp_RadioFreqKHz = Some 910525, sp_RadioBWKHz = Some (Fin (125/2)), sp_RadioSF = Some 7,
     sp_RadioCR = None, sp_UptimeSecs = Some 12, sp_BatteryMV = None, sp_QueueLen = None,
     sp_NoiseFloor = Some (- 84), sp_TxAirSecs = None, sp_RxAirSecs = None, sp_RecvErrors = None,
     sp_LastRSSI = None, sp_LastSNR = None, sp_DebugFlags = None\<rparr>"

definition sample_advert :: AdvertInfo where
  "sample_advert = \<lparr>adv_PublicKey = [9, 8, 7, 6, 5], adv_Timestamp = sample_time - hour,
     adv_NodeType = ''CHAT'', adv_Name = ''node'', adv_HasLatLon = True, adv_LatE6 = 42, adv_LonE6 = - 78,
     adv_HasFeat1 = False, adv_Feat1 = 0, adv_HasFeat2 = False, adv_Feat2 = 0\<rparr>"

definition sample_packet :: PacketPayload where
  "sample_packet = \<lparr>pp_PacketHash = Some [1, 2], pp_Direction = ''rx'', pp_PacketType = ''4'',
     pp_Route = ''F'', pp_Len = Some 40, pp_PayloadLen = Some 38, pp_RSSI = Some (- 95),
     pp_SNR = Some (Fin (21/4)), pp_Score = None, pp_DurationMS = None, pp_Raw = None,
     pp_DecodedType = Some 4, pp_SourcePrefix = Some [9], pp_DestPrefix = None,
     pp_TransportCodes = None, pp_Advert = Some sample_advert\<rparr>"

definition status_event :: Event where
  "status_event = \<lparr>ev_RawID = 1, ev_TS = sample_time, ev_ObserverID = [7],
     ev_Topic = ''meshcore/BUF/07/status'', ev_Region = ''BUF'', ev_Payload = KindStatus sample_status\<rparr>"

definition packet_event :: Event where
  "packet_event = \<lparr>ev_RawID = 2, ev_TS = sample_time + second, ev_ObserverID = [7],
     ev_Topic = ''meshcore/BUF/07/packets'', ev_Region = ''BUF'', ev_Payload = KindPacket sample_packet\<rparr>"

definition second_packet :: Event where
  "second_packet = packet_event\<lparr>ev_RawID := 3, ev_TS := sample_time + 3 * second, ev_ObserverID := [6]\<rparr>"

text \<open>A packet received without signal measurements.\<close>

definition quiet_event :: Event where
  "quiet_event = packet_event\<lparr>ev_Payload := KindPacket (sample_packet\<lparr>pp_RSSI := None, pp_SNR := None\<rparr>)\<rparr>"

lemmas sample_defs = sample_env_def sample_tx_def sample_time_def sample_status_def sample_advert_def
  sample_packet_def status_event_def packet_event_def second_packet_def

lemma sample_range [simp]: "range_order (range_of sample_env)"
  by (simp add: sample_env_def)

text \<open>Whether a flush succeeded, to be evaluated.\<close>

definition succeeds :: "'s \<times> (err + 't) \<Rightarrow> bool" where
  "succeeds r = (case snd r of Inl _ \<Rightarrow> False | Inr _ \<Rightarrow> True)"

lemma succeedsE:
  assumes "succeeds r" obtains s t where "r = (s, Inr t)"
  using assms by (cases r) (auto simp: succeeds_def split: sum.splits)

end
