(* ===== verification/Stage_Observers.thy ===== *)
theory Stage_Observers
  imports Stage_Interface Sample_Log
begin

text \<open>
  The \<^verbatim>\<open>observers\<close> stage (\<^verbatim>\<open>internal/project/stages/observers.go\<close>): one row per
  observer that ever published a status, upserted from a working set that is dropped after
  each batch. The table is shown to be a function of the committed events alone: first and
  last sighting, and for every other column the last non-empty value.
\<close>

section \<open>Model\<close>

record observerRow =
  or_id :: bytes
  or_originName :: string
  or_region :: string
  or_model :: string
  or_firmwareVersion :: string
  or_clientVersion :: string
  or_source :: string
  or_radioFreqKHz :: "int option"
  or_radioBWKHz :: "f64 option"
  or_radioSF :: "int option"
  or_radioCR :: "int option"
  or_firstSeen :: time
  or_lastSeen :: time

record Observers =
  obs_touched :: "(bytes, observerRow) gomap"

definition NewObservers :: Observers where
  "NewObservers = \<lparr>obs_touched = []\<rparr>"

definition new_observerRow :: "Event \<Rightarrow> observerRow" where
  "new_observerRow e = \<lparr>or_id = ev_ObserverID e, or_originName = [], or_region = ev_Region e,
     or_model = [], or_firmwareVersion = [], or_clientVersion = [], or_source = [],
     or_radioFreqKHz = None, or_radioBWKHz = None, or_radioSF = None, or_radioCR = None,
     or_firstSeen = ev_TS e, or_lastSeen = ev_TS e\<rparr>"

definition update_observerRow :: "Event \<Rightarrow> StatusPayload \<Rightarrow> observerRow \<Rightarrow> observerRow" where
  "update_observerRow e p row = row\<lparr>
     or_firstSeen := (if ev_TS e < or_firstSeen row then ev_TS e else or_firstSeen row),
     or_lastSeen := (if ev_TS e > or_lastSeen row then ev_TS e else or_lastSeen row),
     or_region := (if ev_Region e \<noteq> [] then ev_Region e else or_region row),
     or_originName := (if sp_Origin p \<noteq> [] then sp_Origin p else or_originName row),
     or_model := (if sp_Model p \<noteq> [] then sp_Model p else or_model row),
     or_firmwareVersion := (if sp_FirmwareVersion p \<noteq> [] then sp_FirmwareVersion p else or_firmwareVersion row),
     or_clientVersion := (if sp_ClientVersion p \<noteq> [] then sp_ClientVersion p else or_clientVersion row),
     or_source := (if sp_Source p \<noteq> [] then sp_Source p else or_source row),
     or_radioFreqKHz := (if sp_RadioFreqKHz p \<noteq> None then sp_RadioFreqKHz p else or_radioFreqKHz row),
     or_radioBWKHz := (if sp_RadioBWKHz p \<noteq> None then sp_RadioBWKHz p else or_radioBWKHz row),
     or_radioSF := (if sp_RadioSF p \<noteq> None then sp_RadioSF p else or_radioSF row),
     or_radioCR := (if sp_RadioCR p \<noteq> None then sp_RadioCR p else or_radioCR row)\<rparr>"

definition Observers_Apply :: "Event \<Rightarrow> Observers \<Rightarrow> Observers" where
  "Observers_Apply e s = (case ev_Payload e of
       KindPacket _ \<Rightarrow> s
     | KindStatus p \<Rightarrow>
         let key = ev_ObserverID e;
             row = (case map_of (obs_touched s) key of Some r \<Rightarrow> r | None \<Rightarrow> new_observerRow e)
         in s\<lparr>obs_touched := AList.update key (update_observerRow e p row) (obs_touched s)\<rparr>)"

text \<open>The row proposed for insertion, and the row after \<^verbatim>\<open>ON CONFLICT (id) DO UPDATE\<close>.\<close>

definition observers_excluded :: "observerRow \<Rightarrow> f64 option \<Rightarrow> observers_row" where
  "observers_excluded r bw = \<lparr>o_origin_name = or_originName r, o_region = or_region r,
     o_model = or_model r, o_firmware_version = or_firmwareVersion r,
     o_client_version = or_clientVersion r, o_source = or_source r,
     o_radio_freq_khz = or_radioFreqKHz r, o_radio_bw_khz = bw, o_radio_sf = or_radioSF r,
     o_radio_cr = or_radioCR r, o_first_seen = or_firstSeen r, o_last_seen = or_lastSeen r\<rparr>"

definition observers_conflict :: "observers_row \<Rightarrow> observers_row \<Rightarrow> observers_row" where
  "observers_conflict old ex = \<lparr>
     o_origin_name = coalesce_text (o_origin_name ex) (o_origin_name old),
     o_region = coalesce_text (o_region ex) (o_region old),
     o_model = coalesce_text (o_model ex) (o_model old),
     o_firmware_version = coalesce_text (o_firmware_version ex) (o_firmware_version old),
     o_client_version = coalesce_text (o_client_version ex) (o_client_version old),
     o_source = coalesce_text (o_source ex) (o_source old),
     o_radio_freq_khz = coalesce (o_radio_freq_khz ex) (o_radio_freq_khz old),
     o_radio_bw_khz = coalesce (o_radio_bw_khz ex) (o_radio_bw_khz old),
     o_radio_sf = coalesce (o_radio_sf ex) (o_radio_sf old),
     o_radio_cr = coalesce (o_radio_cr ex) (o_radio_cr old),
     o_first_seen = min (o_first_seen old) (o_first_seen ex),
     o_last_seen = max (o_last_seen old) (o_last_seen ex)\<rparr>"

definition observers_row_ok :: "observerRow \<Rightarrow> bool" where
  "observers_row_ok r \<longleftrightarrow>
     text_ok (or_originName r) \<and> text_ok (or_region r) \<and> text_ok (or_model r) \<and>
     text_ok (or_firmwareVersion r) \<and> text_ok (or_clientVersion r) \<and> text_ok (or_source r) \<and>
     int4_opt_ok (or_radioFreqKHz r) \<and> int4_opt_ok (or_radioSF r) \<and> int4_opt_ok (or_radioCR r)"

definition observers_upsert :: "env \<Rightarrow> observerRow \<Rightarrow> db \<Rightarrow> err + db" where
  "observers_upsert E r d =
     (case numeric_opt (q103 E) (or_radioBWKHz r) of
        None \<Rightarrow> Inl (ConstraintError ''observers'')
      | Some bw \<Rightarrow>
          if \<not> observers_row_ok r then Inl (ConstraintError ''observers'')
          else
            let ex = observers_excluded r bw;
                row = (case map_of (t_observers d) (or_id r) of
                         None \<Rightarrow> ex | Some old \<Rightarrow> observers_conflict old ex)
            in Inr (d\<lparr>t_observers := AList.update (or_id r) row (t_observers d)\<rparr>))"

definition Observers_Flush :: "env \<Rightarrow> Observers \<Rightarrow> tx \<Rightarrow> Observers \<times> (err + tx)" where
  "Observers_Flush E s t =
     (if obs_touched s = [] then (s, Inr t)
      else for_each (\<lambda>(k, r) s t. (s, exec (observers_upsert E r) t))
             (go_range (range_of E) (obs_touched s)) s t)"

definition Observers_Evict :: "time \<Rightarrow> Observers \<Rightarrow> Observers" where
  "Observers_Evict hwm s = s\<lparr>obs_touched := []\<rparr>"

definition Observers_Clear :: "Observers \<Rightarrow> Observers" where
  "Observers_Clear s = s\<lparr>obs_touched := []\<rparr>"

section \<open>What the table is a function of\<close>

definition observer_events :: "Event list \<Rightarrow> bytes \<Rightarrow> (Event \<times> StatusPayload) list" where
  "observer_events hist k =
     List.map_filter (\<lambda>e. if ev_ObserverID e = k then map_option (Pair e) (status_of e) else None) hist"

definition observer_spec :: "env \<Rightarrow> (Event \<times> StatusPayload) list \<Rightarrow> observers_row" where
  "observer_spec E xs = \<lparr>
     o_origin_name = last_text (map (sp_Origin \<circ> snd) xs),
     o_region = last_text (map (ev_Region \<circ> fst) xs),
     o_model = last_text (map (sp_Model \<circ> snd) xs),
     o_firmware_version = last_text (map (sp_FirmwareVersion \<circ> snd) xs),
     o_client_version = last_text (map (sp_ClientVersion \<circ> snd) xs),
     o_source = last_text (map (sp_Source \<circ> snd) xs),
     o_radio_freq_khz = last_some (map (sp_RadioFreqKHz \<circ> snd) xs),
     o_radio_bw_khz = Option.bind (last_some (map (sp_RadioBWKHz \<circ> snd) xs)) (q103 E),
     o_radio_sf = last_some (map (sp_RadioSF \<circ> snd) xs),
     o_radio_cr = last_some (map (sp_RadioCR \<circ> snd) xs),
     o_first_seen = earliest (map (ev_TS \<circ> fst) xs),
     o_last_seen = latest (map (ev_TS \<circ> fst) xs)\<rparr>"

definition observers_ok :: "env \<Rightarrow> Event list \<Rightarrow> (bytes, observers_row) pgtable \<Rightarrow> bool" where
  "observers_ok E hist tab \<longleftrightarrow> distinct (map fst tab) \<and>
     (\<forall>k. map_of tab k =
        (if observer_events hist k = [] then None else Some (observer_spec E (observer_events hist k))))"

text \<open>The working set after the events of the batch: the same columns over this batch only.\<close>

definition observer_agg :: "bytes \<Rightarrow> (Event \<times> StatusPayload) list \<Rightarrow> observerRow" where
  "observer_agg k xs = \<lparr>or_id = k,
     or_originName = last_text (map (sp_Origin \<circ> snd) xs),
     or_region = last_text (map (ev_Region \<circ> fst) xs),
     or_model = last_text (map (sp_Model \<circ> snd) xs),
     or_firmwareVersion = last_text (map (sp_FirmwareVersion \<circ> snd) xs),
     or_clientVersion = last_text (map (sp_ClientVersion \<circ> snd) xs),
     or_source = last_text (map (sp_Source \<circ> snd) xs),
     or_radioFreqKHz = last_some (map (sp_RadioFreqKHz \<circ> snd) xs),
     or_radioBWKHz = last_some (map (sp_RadioBWKHz \<circ> snd) xs),
     or_radioSF = last_some (map (sp_RadioSF \<circ> snd) xs),
     or_radioCR = last_some (map (sp_RadioCR \<circ> snd) xs),
     or_firstSeen = earliest (map (ev_TS \<circ> fst) xs),
     or_lastSeen = latest (map (ev_TS \<circ> fst) xs)\<rparr>"

section \<open>Proofs\<close>

lemma observer_events_append [simp]:
  "observer_events (xs @ ys) k = observer_events xs k @ observer_events ys k"
  by (simp add: observer_events_def List.map_filter_def)

lemma observer_events_Nil [simp]: "observer_events [] k = []"
  by (simp add: observer_events_def List.map_filter_def)

lemma observer_events_single:
  "observer_events [e] k =
     (if ev_ObserverID e = k then case status_of e of None \<Rightarrow> [] | Some p \<Rightarrow> [(e, p)] else [])"
  by (simp add: observer_events_def List.map_filter_def split: option.splits)

lemma observer_agg_single:
  "update_observerRow e p (new_observerRow e) = observer_agg (ev_ObserverID e) [(e, p)]"
  by (simp add: update_observerRow_def new_observerRow_def observer_agg_def)

lemma observer_agg_snoc:
  "xs \<noteq> [] \<Longrightarrow> update_observerRow e p (observer_agg k xs) = observer_agg k (xs @ [(e, p)])"
  unfolding update_observerRow_def go_simps by (simp add: observer_agg_def agg_append)

lemma observer_spec_merge:
  assumes "xs \<noteq> []" "ys \<noteq> []"
    and "numeric_opt (q103 E) (or_radioBWKHz (observer_agg k ys)) = Some bw"
  shows "observers_conflict (observer_spec E xs) (observers_excluded (observer_agg k ys) bw) =
    observer_spec E (xs @ ys)"
proof -
  have "coalesce bw (Option.bind a (q103 E)) = Option.bind (coalesce r a) (q103 E)"
    if "numeric_opt (q103 E) r = Some bw" for r a
    using that by (auto simp: numeric_opt_def coalesce_def split: option.splits)
  with assms show ?thesis
    by (simp add: observers_conflict_def observers_excluded_def observer_agg_def
        observer_spec_def agg_append)
qed

lemma observer_spec_first:
  "numeric_opt (q103 E) (or_radioBWKHz (observer_agg k ys)) = Some bw \<Longrightarrow>
    observers_excluded (observer_agg k ys) bw = observer_spec E ys"
  by (auto simp: observers_excluded_def observer_agg_def observer_spec_def numeric_opt_def
      split: option.splits)

text \<open>What the upsert of one working-set row does to the table.\<close>

definition observer_merge :: "env \<Rightarrow> observerRow \<Rightarrow> observers_row option \<Rightarrow> observers_row" where
  "observer_merge E r old =
     (let ex = observers_excluded r (Option.bind (or_radioBWKHz r) (q103 E)) in
      case old of None \<Rightarrow> ex | Some o' \<Rightarrow> observers_conflict o' ex)"

text \<open>What the upsert of a working-set row leaves in the table.\<close>

lemma observers_upsert_spec:
  assumes "observers_upsert E (observer_agg k ys) d = Inr d'" and "ys \<noteq> []"
    and "map_of (t_observers d) k = (if xs = [] then None else Some (observer_spec E xs))"
  shows "d' = d\<lparr>t_observers := AList.update k (observer_spec E (xs @ ys)) (t_observers d)\<rparr>"
proof -
  have [simp]: "or_id (observer_agg k ys) = k" by (simp add: observer_agg_def)
  from assms(1) obtain bw where "numeric_opt (q103 E) (or_radioBWKHz (observer_agg k ys)) = Some bw"
    by (auto simp: observers_upsert_def split: option.splits)
  with assms show ?thesis
    using observer_spec_first [of E k ys bw] observer_spec_merge [of xs ys E k bw]
    by (auto simp: observers_upsert_def Let_def split: if_splits)
qed

lemma observers_upsert_frame: "observers_upsert E r d = Inr d' \<Longrightarrow> \<exists>x. d' = d\<lparr>t_observers := x\<rparr>"
  by (auto simp: observers_upsert_def Let_def split: option.splits if_splits)

interpretation observers_ws: working_set t_observers "\<lambda>x. t_observers_update (\<lambda>_. x)"
  observer_events observer_agg observer_spec observers_upsert "\<lambda>_. True"
  by unfold_locales (auto dest: observers_upsert_frame observers_upsert_spec)

lemma observers_ok_iff: "observers_ok E hist tab \<longleftrightarrow> observers_ws.table_ok E hist tab"
  by (simp add: observers_ok_def observers_ws.table_ok_def)

definition observers_sync ::
  "env \<Rightarrow> Event list \<Rightarrow> Event list \<Rightarrow> Observers \<Rightarrow> (bytes, observers_row) pgtable \<Rightarrow> bool" where
  "observers_sync E hist es s tab \<longleftrightarrow> observers_ws.in_sync E hist es (obs_touched s) tab"

lemma Observers_Apply_sync:
  assumes "observers_sync E hist es s tab"
  shows "observers_sync E hist (es @ [e]) (Observers_Apply e s) tab"
proof (cases "ev_Payload e")
  case (KindStatus p)
  have "update_observerRow e p (case map_of (obs_touched s) (ev_ObserverID e) of
      Some r \<Rightarrow> r | None \<Rightarrow> new_observerRow e) =
    observer_agg (ev_ObserverID e) (observer_events es (ev_ObserverID e) @ [(e, p)])"
    using assms by (simp add: observers_sync_def observers_ws.in_sync_def observer_agg_single
        observer_agg_snoc)
  with assms KindStatus show ?thesis
    by (auto simp: observers_sync_def Observers_Apply_def Let_def observer_events_single
        intro!: observers_ws.touch_in_sync)
next
  case (KindPacket p)
  with assms show ?thesis
    by (auto simp: observers_sync_def Observers_Apply_def observer_events_single
        intro: observers_ws.skip_in_sync)
qed

lemma Observers_Flush_run:
  "Observers_Flush E s t = (s', Inr t') \<Longrightarrow> range_order (range_of E) \<Longrightarrow>
    for_each (\<lambda>(k, r) s t. (s, exec (observers_upsert E r) t))
      (go_range (range_of E) (obs_touched s)) s t = (s', Inr t')"
  by (auto simp: Observers_Flush_def split: if_splits)

lemma Observers_Flush_frame:
  "Observers_Flush E s t = (s', Inr t') \<Longrightarrow> \<exists>x. tables t' = (tables t)\<lparr>t_observers := x\<rparr>"
  by (cases "obs_touched s = []")
    (auto simp: Observers_Flush_def intro: observers_ws.flush_frame observers_ws.put_get [symmetric])

lemma Observers_Flush_sync:
  assumes "Observers_Flush E s t = (s', Inr t')" and "range_order (range_of E)"
    and "observers_sync E hist es s (t_observers (tables t))"
  shows "observers_ok E (hist @ es) (t_observers (tables t'))" and "s' = s"
  using observers_ws.flush_in_sync [OF Observers_Flush_run [OF assms(1,2)] assms(2)] assms(3)
  by (auto simp: observers_sync_def observers_ok_iff)

interpretation observers_stage: stage t_observers "\<lambda>x. t_observers_update (\<lambda>_. x)"
  Observers_Apply Observers_Flush Observers_Evict NewObservers "\<lambda>_ _. True" "\<lambda>_. True"
  observers_ok observers_sync
proof unfold_locales
  fix E hist and s :: Observers and tab t s' t'
  show "observers_ok E hist tab \<Longrightarrow> observers_sync E hist [] NewObservers tab"
    by (simp add: observers_sync_def NewObservers_def observers_ok_iff observers_ws.empty_in_sync)
  show "observers_sync E hist [] s tab \<Longrightarrow> observers_ok E hist tab"
    by (simp add: observers_sync_def observers_ok_iff observers_ws.in_sync_def)
  show "Observers_Flush E s t = (s', Inr t') \<Longrightarrow> \<exists>x. tables t' = (tables t)\<lparr>t_observers := x\<rparr>"
    by (rule Observers_Flush_frame)
  assume f: "Observers_Flush E s t = (s', Inr t')" "range_order (range_of E)"
  show "observers_sync E hist [] s' (t_observers (tables t'))"
    if "observers_sync E hist [] s (t_observers (tables t))"
  proof -
    have "obs_touched s = []"
      using that unfolding observers_sync_def by (rule observers_ws.idle_in_sync)
    then show ?thesis
      using Observers_Flush_sync [OF f that]
      by (simp add: observers_sync_def observers_ok_iff observers_ws.empty_in_sync)
  qed
  show "observers_sync E (hist @ es) [] (Observers_Evict h s') (t_observers (tables t'))"
    if "observers_sync E hist es s (t_observers (tables t))" for es h
    using Observers_Flush_sync [OF f that]
    by (simp add: observers_sync_def observers_ok_iff Observers_Evict_def observers_ws.empty_in_sync)
qed (rule Observers_Apply_sync)

section \<open>Properties\<close>

text \<open>C12 Whatever batches the status events come in, after each committed batch the
  \<^verbatim>\<open>observers\<close> table is the function \<open>observer_spec\<close> of all the events committed
  so far: one row per observer that published a status, with the first and last sighting
  and, per column, the last value that was present.\<close>

theorem observers_function_of_log:
  assumes "observers_sync E hist [] s (t_observers (tables t))" and "range_order (range_of E)"
    and "Observers_Flush E (fold Observers_Apply es s) t = (s', Inr t')"
  shows "observers_ok E (hist @ es) (t_observers (tables t')) \<and>
    observers_sync E (hist @ es) [] (Observers_Evict h s') (t_observers (tables t'))"
  using observers_stage.batch_sync(1) [OF assms(3,2) _ _ assms(1)]
    observers_stage.flush_keeps_promise [OF assms(3,2) _ _ assms(1)]
  by (simp add: list_all_iff)

lemma observers_function_of_log_witness:
  "\<exists>s' t'. Observers_Flush sample_env (fold Observers_Apply [status_event] NewObservers) sample_tx = (s', Inr t') \<and>
    observers_ok sample_env [status_event] (t_observers (tables t'))"
proof -
  have "succeeds (Observers_Flush sample_env (fold Observers_Apply [status_event] NewObservers) sample_tx)"
    by code_simp
  then obtain s' t' where
    r: "Observers_Flush sample_env (fold Observers_Apply [status_event] NewObservers) sample_tx = (s', Inr t')"
    by (rule succeedsE)
  have "observers_sync sample_env [] [] NewObservers (t_observers (tables sample_tx))"
    by (rule observers_stage.fresh_sync) (simp add: observers_ok_def sample_tx_def empty_db_def)
  from observers_function_of_log [OF this sample_range r] r show ?thesis by auto
qed

end
