(* ===== verification/Notify.thy ===== *)
theory Notify
  imports Go_Strings
begin

text \<open>
  The event bus between the projector and the web service (\<^verbatim>\<open>internal/notify/notify.go\<close>):
  the JSON payloads that \<^verbatim>\<open>Publish\<close> sends with \<^verbatim>\<open>pg_notify\<close>, its size limit, and
  the reconnecting \<^verbatim>\<open>Listen\<close> loop. Postgres is a parameter: the outcome of each
  round trip of the pool, and for each connection attempt of the listener what it meets.
\<close>

section \<open>Channels and payloads\<close>

definition ChannelPackets :: string where "ChannelPackets = ''meshbug_packets''"
definition ChannelStatus :: string where "ChannelStatus = ''meshbug_status''"
definition ChannelAnomaly :: string where "ChannelAnomaly = ''meshbug_anomaly''"

text \<open>The values of the \<^verbatim>\<open>map[string]any\<close> payloads: strings, integers, lists of strings.\<close>

datatype payload_value = PText string | PInt int | PTexts "string list"

type_synonym payload = "(string \<times> payload_value) list"

text \<open>\<^verbatim>\<open>json.Marshal\<close> of a string (HTML characters are escaped) and of such a map, whose keys
  are written in sorted order.\<close>

definition json_escape :: "char \<Rightarrow> string" where
  "json_escape c = (let x = ord_of c in
     if c = CHR 0x22 \<or> c = CHR 0x5C then [CHR 0x5C, c]
     else if x = 8 then CHR 0x5C # ''b''
     else if x = 12 then CHR 0x5C # ''f''
     else if x = 10 then CHR 0x5C # ''n''
     else if x = 13 then CHR 0x5C # ''r''
     else if x = 9 then CHR 0x5C # ''t''
     else if x < 32 \<or> c = CHR ''<'' \<or> c = CHR ''>'' \<or> c = CHR ''&''
       then CHR 0x5C # ''u00'' @ [hex_digit (x div 16), hex_digit (x mod 16)]
     else [c])"

definition json_rune :: "string \<Rightarrow> string" where
  "json_rune r =
     (if r = bytes_str [226, 128, 168] then CHR 0x5C # ''u2028''
      else if r = bytes_str [226, 128, 169] then CHR 0x5C # ''u2029''
      else r)"

function json_chars :: "string \<Rightarrow> string" where
  "json_chars s = (if s = [] then []
     else if ord_of (hd s) < 128 then json_escape (hd s) @ json_chars (tl s)
     else if utf8_width s = 0 then CHR 0x5C # ''ufffd'' @ json_chars (tl s)
     else json_rune (take (utf8_width s) s) @ json_chars (drop (utf8_width s) s))"
  by pat_completeness auto
termination by (relation "measure length") auto

declare json_chars.simps [simp del]

definition json_string :: "string \<Rightarrow> string" where
  "json_string s = [CHR 0x22] @ json_chars s @ [CHR 0x22]"

fun marshal_value :: "payload_value \<Rightarrow> string" where
  "marshal_value (PText s) = json_string s"
| "marshal_value (PInt i) = itoa i"
| "marshal_value (PTexts xs) = ''['' @ join_on (CHR '','') (map json_string xs) @ '']''"

fun str_less :: "string \<Rightarrow> string \<Rightarrow> bool" where
  "str_less _ [] = False"
| "str_less [] (_ # _) = True"
| "str_less (a # s) (b # t) = (ord_of a < ord_of b \<or> a = b \<and> str_less s t)"

fun insert_field :: "string \<times> payload_value \<Rightarrow> payload \<Rightarrow> payload" where
  "insert_field f [] = [f]"
| "insert_field f (g # gs) = (if str_less (fst g) (fst f) then g # insert_field f gs else f # g # gs)"

definition marshal_payload :: "payload \<Rightarrow> string" where
  "marshal_payload p = ''{'' @ join_on (CHR '','')
     (map (\<lambda>(k, v). json_string k @ '':'' @ marshal_value v) (foldr insert_field p [])) @ ''}''"

section \<open>Publish\<close>

record Notification =
  nt_Channel :: string
  nt_Payload :: string

text \<open>
  The connection pool: the notifications Postgres has accepted so far, and the outcomes of
  the round trips to come (a missing outcome is a success).
\<close>

record pool =
  pl_sent :: "Notification list"
  pl_ok :: "bool list"

datatype publish_err = PayloadTooLarge nat | PublishFailed

definition Publish :: "string \<Rightarrow> payload \<Rightarrow> pool \<Rightarrow> (publish_err + unit) \<times> pool" where
  "Publish channel p pl =
     (let body = marshal_payload p in
      if length body > 7900 then (Inl (PayloadTooLarge (length body)), pl)
      else case pl_ok pl of
             False # oks \<Rightarrow> (Inl PublishFailed, pl\<lparr>pl_ok := oks\<rparr>)
           | oks \<Rightarrow> (Inr (), pl\<lparr>pl_sent := pl_sent pl @ [\<lparr>nt_Channel = channel, nt_Payload = body\<rparr>],
                              pl_ok := tl oks\<rparr>))"

text \<open>The stages publish one payload after the other and ignore the errors.\<close>

definition publish_all :: "string \<Rightarrow> payload list \<Rightarrow> pool \<Rightarrow> pool" where
  "publish_all channel ps pl = fold (\<lambda>p pl. snd (Publish channel p pl)) ps pl"

lemma Publish_ok:
  "pl_ok pl = [] \<Longrightarrow> length (marshal_payload p) \<le> 7900 \<Longrightarrow>
    Publish c p pl = (Inr (), pl\<lparr>pl_sent := pl_sent pl @
      [\<lparr>nt_Channel = c, nt_Payload = marshal_payload p\<rparr>]\<rparr>)"
  by (simp add: Publish_def)

lemma Publish_size:
  "Publish c p pl = (r, pl') \<Longrightarrow> n \<in> set (pl_sent pl') \<Longrightarrow>
    n \<in> set (pl_sent pl) \<or> nt_Channel n = c \<and> nt_Payload n = marshal_payload p \<and>
      length (nt_Payload n) \<le> 7900"
  by (auto simp: Publish_def Let_def split: if_splits list.splits bool.splits)

lemma publish_all_ok:
  "pl_ok pl = [] \<Longrightarrow> (\<And>p. p \<in> set ps \<Longrightarrow> length (marshal_payload p) \<le> 7900) \<Longrightarrow>
    publish_all c ps pl = pl\<lparr>pl_sent := pl_sent pl @
      map (\<lambda>p. \<lparr>nt_Channel = c, nt_Payload = marshal_payload p\<rparr>) ps\<rparr>"
proof (induction ps arbitrary: pl)
  case Nil
  then show ?case by (simp add: publish_all_def)
next
  case (Cons p ps)
  then show ?case
    using Cons.IH [of "snd (Publish c p pl)"] by (simp add: publish_all_def Publish_ok)
qed

section \<open>Listen\<close>

text \<open>\<^verbatim>\<open>sanitize\<close> keeps the characters of an identifier.\<close>

definition ident_char :: "char \<Rightarrow> bool" where
  "ident_char c \<longleftrightarrow> (let x = ord_of c in
     (97 \<le> x \<and> x \<le> 122) \<or> (65 \<le> x \<and> x \<le> 90) \<or> (48 \<le> x \<and> x \<le> 57) \<or> c = CHR ''_'')"

definition sanitize :: "string \<Rightarrow> string" where
  "sanitize s = filter ident_char s"

definition listen_sql :: "string \<Rightarrow> string" where
  "listen_sql c = ''LISTEN '' @ [CHR 0x22] @ sanitize c @ [CHR 0x22]"

text \<open>
  One connection attempt as the listener meets it: whether the connection succeeds, which
  \<^verbatim>\<open>LISTEN\<close> statements do, the notifications delivered before the session breaks, whether the
  context is done by then, and whether it ends during the wait before the next attempt.
\<close>

record attempt =
  at_connect :: bool
  at_listen :: "bool list"
  at_deliver :: "Notification list"
  at_ctx_done :: bool
  at_done_waiting :: bool

text \<open>The \<^verbatim>\<open>LISTEN\<close> statements executed, up to and with the first that fails.\<close>

fun listen_all :: "string list \<Rightarrow> bool list \<Rightarrow> string list \<times> bool" where
  "listen_all [] _ = ([], True)"
| "listen_all (c # cs) oks =
     (if oks = [] \<or> hd oks then (let (sqls, ok) = listen_all cs (tl oks) in (listen_sql c # sqls, ok))
      else ([listen_sql c], False))"

definition listenOnce :: "string list \<Rightarrow> attempt \<Rightarrow> Notification list" where
  "listenOnce channels a =
     (if \<not> at_connect a then []
      else if \<not> snd (listen_all channels (at_listen a)) then []
      else at_deliver a)"

definition next_backoff :: "duration \<Rightarrow> duration" where
  "next_backoff b = (let b' = b * 2 in if b' > 30 * second then 30 * second else b')"

text \<open>
  The loop over the attempts until the context is done: the notifications handled, the waits
  between attempts, and whether it returned.
\<close>

fun listen_loop ::
  "string list \<Rightarrow> duration \<Rightarrow> attempt list \<Rightarrow> Notification list \<times> duration list \<times> bool"
where
  "listen_loop channels b [] = ([], [], False)"
| "listen_loop channels b (a # as) =
     (if at_ctx_done a then (listenOnce channels a, [], True)
      else if at_done_waiting a then (listenOnce channels a, [b], True)
      else let (ns, ws, ret) = listen_loop channels (next_backoff b) as
           in (listenOnce channels a @ ns, b # ws, ret))"

text \<open>\<^verbatim>\<open>Listen\<close>; \<open>done\<close> says that the context is done before the first attempt.\<close>

definition Listen ::
  "bool \<Rightarrow> string list \<Rightarrow> attempt list \<Rightarrow> Notification list \<times> duration list \<times> bool"
where
  "Listen ctx_done channels as =
     (if ctx_done then ([], [], True) else listen_loop channels second as)"

lemma sanitize_idem [simp]: "sanitize (sanitize s) = sanitize s"
  by (simp add: sanitize_def)

lemma sanitize_safe: "c \<in> set (sanitize s) \<Longrightarrow> c \<noteq> CHR 0x22"
  by (auto simp: sanitize_def ident_char_def)

lemma sanitize_channels:
  "sanitize ChannelPackets = ChannelPackets" "sanitize ChannelStatus = ChannelStatus"
  "sanitize ChannelAnomaly = ChannelAnomaly"
  by (simp_all add: sanitize_def ident_char_def Let_def ChannelPackets_def ChannelStatus_def
      ChannelAnomaly_def)

text \<open>The backoff before the \<open>n\<close>-th retry.\<close>

lemma next_backoff_power: "next_backoff (min (2 ^ n * second) (30 * second)) = min (2 ^ Suc n * second) (30 * second)"
proof -
  have "0 \<le> second" by (simp add: second_def)
  then have "next_backoff (min a (30 * second)) = min (2 * a) (30 * second)" if "0 \<le> a" for a
    using that by (auto simp: next_backoff_def Let_def min_def)
  from this [of "2 ^ n * second"] \<open>0 \<le> second\<close> show ?thesis by (simp add: mult.assoc)
qed

lemma listen_loop_waits:
  "listen_loop channels (min (2 ^ k * second) (30 * second)) as = (ns, ws, ret) \<Longrightarrow>
    i < length ws \<Longrightarrow> ws ! i = min (2 ^ (k + i) * second) (30 * second)"
proof (induction as arbitrary: k ns ws ret i)
  case Nil
  then show ?case by simp
next
  case (Cons a as)
  show ?case
  proof (cases "at_ctx_done a \<or> at_done_waiting a")
    case True
    then show ?thesis using Cons.prems by (auto split: if_splits)
  next
    case False
    obtain ns1 ws1 ret1 where r: "listen_loop channels (min (2 ^ Suc k * second) (30 * second)) as = (ns1, ws1, ret1)"
      by (metis prod_cases3)
    then have ws: "ws = min (2 ^ k * second) (30 * second) # ws1"
      using False Cons.prems(1) by (simp only: listen_loop.simps next_backoff_power) simp
    show ?thesis
    proof (cases i)
      case (Suc j)
      then show ?thesis using Cons.IH [OF r, of j] Cons.prems(2) ws by simp
    qed (use ws in simp)
  qed
qed

text \<open>The listener returns as soon as the context ends, and no sooner.\<close>

lemma listen_loop_returns:
  "snd (snd (listen_loop channels b as)) \<longleftrightarrow> (\<exists>a \<in> set as. at_ctx_done a \<or> at_done_waiting a)"
  by (induction channels b as rule: listen_loop.induct) (auto split: prod.splits)

section \<open>Properties\<close>

text \<open>C19 (bounds): whatever the payload, \<^verbatim>\<open>Publish\<close> only ever adds to what Postgres has accepted,
  at most one notification, of the given channel, whose body has at most 7900 bytes; a larger
  payload is an error that leaves the connection untouched.\<close>

theorem Publish_bounded:
  "(let body = marshal_payload p; (r, pl') = Publish c p pl in
     (pl_sent pl' = pl_sent pl \<and> r \<noteq> Inr () \<and> (7900 < length body \<longrightarrow> r = Inl (PayloadTooLarge (length body)) \<and> pl' = pl)) \<or>
     (pl_sent pl' = pl_sent pl @ [\<lparr>nt_Channel = c, nt_Payload = body\<rparr>] \<and> r = Inr () \<and> length body \<le> 7900))"
  by (auto simp: Publish_def Let_def split: list.splits bool.splits)

theorem Publish_bounded_witness:
  "(let body = marshal_payload [(''count'', PInt 1)]; (r, pl') = Publish ChannelPackets [(''count'', PInt 1)] \<lparr>pl_sent = [], pl_ok = []\<rparr> in
     (pl_sent pl' = [] \<and> r \<noteq> Inr () \<and> (7900 < length body \<longrightarrow> r = Inl (PayloadTooLarge (length body)) \<and> pl' = \<lparr>pl_sent = [], pl_ok = []\<rparr>)) \<or>
     (pl_sent pl' = [] @ [\<lparr>nt_Channel = ChannelPackets, nt_Payload = body\<rparr>] \<and> r = Inr () \<and> length body \<le> 7900))"
  using Publish_bounded [of "[(''count'', PInt 1)]" ChannelPackets "\<lparr>pl_sent = [], pl_ok = []\<rparr>"] by simp

text \<open>C20 (liveness): the listener keeps reconnecting until its context ends and returns once it has;
  the wait before the \<open>i\<close>-th retry is \<open>2 ^ i\<close> seconds, capped at 30.\<close>

theorem Listen_backoff:
  assumes "Listen False channels as = (handled, waits, returned)"
  shows "(returned \<longleftrightarrow> (\<exists>a \<in> set as. at_ctx_done a \<or> at_done_waiting a)) \<and>
    (\<forall>i < length waits. waits ! i = min (2 ^ i * second) (30 * second))"
proof -
  have l: "listen_loop channels (min (2 ^ 0 * second) (30 * second)) as = (handled, waits, returned)"
    using assms by (simp add: Listen_def second_def)
  have "returned \<longleftrightarrow> (\<exists>a \<in> set as. at_ctx_done a \<or> at_done_waiting a)"
    using listen_loop_returns [of channels "min (2 ^ 0 * second) (30 * second)" as] by (simp only: l snd_conv)
  moreover have "waits ! i = min (2 ^ i * second) (30 * second)" if "i < length waits" for i
    using listen_loop_waits [OF l that] by simp
  ultimately show ?thesis by blast
qed

definition lost :: attempt where
  "lost = \<lparr>at_connect = False, at_listen = [], at_deliver = [], at_ctx_done = False, at_done_waiting = False\<rparr>"

theorem Listen_backoff_witness:
  "\<exists>handled waits. Listen False [ChannelAnomaly] [lost, lost, lost\<lparr>at_ctx_done := True\<rparr>] = (handled, waits, True) \<and>
     length waits = 2 \<and> waits ! 1 = 2 * second"
proof -
  have r: "Listen False [ChannelAnomaly] [lost, lost, lost\<lparr>at_ctx_done := True\<rparr>] = ([], [second, 2 * second], True)"
    by (simp add: Listen_def lost_def listenOnce_def next_backoff_def second_def)
  show ?thesis
    using Listen_backoff [OF r] r by simp
qed

end
