(* ===== verification/Stage_Status.thy ===== *)
theory Stage_Status
  imports Stage_Interface Sample_Log Notify
begin

text \<open>
  The \<^verbatim>\<open>observer_status\<close> stage (\<^verbatim>\<open>internal/project/stages/status.go\<close>): an append-only
  buffer of status messages, inserted with \<^verbatim>\<open>ON CONFLICT (observer_id, ts) DO NOTHING\<close>, so the
  table holds the first message of the log for each observer and instant. After the commit
  each touched observer is published on \<^verbatim>\<open>meshbug_status\<close>.
\<close>

section \<open>Model\<close>

record statusRow =
  sr_observerID :: bytes
  sr_ts :: time
  sr_status :: string
  sr_uptimeSecs :: "int option"
  sr_batteryMV :: "int option"
  sr_queueLen :: "int option"
  sr_noiseFloor :: "int option"
  sr_txAirSecs :: "int option"
  sr_rxAirSecs :: "int option"
  sr_recvErrors :: "int option"
  sr_lastRSSI :: "int option"
  sr_lastSNR :: "f64 option"
  sr_debugFlags :: "int option"

record ObserverStatus =
  os_buf :: "statusRow list"
  os_touched :: "(bytes, unit) gomap"

definition NewObserverStatus :: ObserverStatus where
  "NewObserverStatus = \<lparr>os_buf = [], os_touched = []\<rparr>"

definition new_statusRow :: "Event \<Rightarrow> StatusPayload \<Rightarrow> statusRow" where
  "new_statusRow e p = \<lparr>sr_observerID = ev_ObserverID e, sr_ts = ev_TS e, sr_status = sp_Status p,
     sr_uptimeSecs = sp_UptimeSecs p, sr_batteryMV = sp_BatteryMV p, sr_queueLen = sp_QueueLen p,
     sr_noiseFloor = sp_NoiseFloor p, sr_txAirSecs = sp_TxAirSecs p, sr_rxAirSecs = sp_RxAirSecs p,
     sr_recvErrors = sp_RecvErrors p, sr_lastRSSI = sp_LastRSSI p, sr_lastSNR = sp_LastSNR p,
     sr_debugFlags = sp_DebugFlags p\<rparr>"

definition ObserverStatus_Apply :: "Event \<Rightarrow> ObserverStatus \<Rightarrow> ObserverStatus" where
  "ObserverStatus_Apply e s = (case ev_Payload e of
       KindPacket _ \<Rightarrow> s
     | KindStatus p \<Rightarrow> s\<lparr>os_buf := os_buf s @ [new_statusRow e p],
                       os_touched := AList.update (ev_ObserverID e) () (os_touched s)\<rparr>)"

definition status_columns :: "statusRow \<Rightarrow> f64 option \<Rightarrow> status_row" where
  "status_columns r snr = \<lparr>s_status = sr_status r, s_uptime_secs = sr_uptimeSecs r,
     s_battery_mv = sr_batteryMV r, s_queue_len = sr_queueLen r, s_noise_floor = sr_noiseFloor r,
     s_tx_air_secs = sr_txAirSecs r, s_rx_air_secs = sr_rxAirSecs r,
     s_recv_errors = sr_recvErrors r, s_last_rssi = sr_lastRSSI r, s_last_snr = snr,
     s_debug_flags = sr_debugFlags r\<rparr>"

definition status_row_ok :: "statusRow \<Rightarrow> bool" where
  "status_row_ok r \<longleftrightarrow> text_ok (sr_status r) \<and> int4_opt_ok (sr_batteryMV r) \<and>
     int4_opt_ok (sr_queueLen r) \<and> int4_opt_ok (sr_noiseFloor r) \<and> int4_opt_ok (sr_lastRSSI r)"

text \<open>The insert, with the foreign key to \<^verbatim>\<open>observers\<close>.\<close>

definition status_insert :: "env \<Rightarrow> statusRow \<Rightarrow> db \<Rightarrow> err + db" where
  "status_insert E r d =
     (case numeric_opt (q62 E) (sr_lastSNR r) of
        None \<Rightarrow> Inl (ConstraintError ''observer_status'')
      | Some snr \<Rightarrow>
          if \<not> status_row_ok r then Inl (ConstraintError ''observer_status'')
          else
            let key = (sr_observerID r, sr_ts r) in
            if map_of (t_observer_status d) key \<noteq> None then Inr d
            else if map_of (t_observers d) (sr_observerID r) = None
              then Inl (ConstraintError ''observer_status'')
            else Inr (d\<lparr>t_observer_status := AList.update key (status_columns r snr) (t_observer_status d)\<rparr>))"

definition ObserverStatus_Flush :: "env \<Rightarrow> ObserverStatus \<Rightarrow> tx \<Rightarrow> ObserverStatus \<times> (err + tx)" where
  "ObserverStatus_Flush E s t =
     (if os_buf s = [] then (s, Inr t)
      else for_each (\<lambda>r s t. (s, exec (status_insert E r) t)) (os_buf s) s t)"

definition ObserverStatus_Notify :: "env \<Rightarrow> ObserverStatus \<Rightarrow> pool \<Rightarrow> ObserverStatus \<times> pool" where
  "ObserverStatus_Notify E s pl =
     (if os_touched s = [] then (s, pl)
      else (s, publish_all ChannelStatus
        (map (\<lambda>(k, _). [(''observer_id'', PText (hex_encode k))]) (go_range (range_of E) (os_touched s))) pl))"

definition ObserverStatus_Evict :: "time \<Rightarrow> ObserverStatus \<Rightarrow> ObserverStatus" where
  "ObserverStatus_Evict hwm s = s\<lparr>os_buf := [], os_touched := []\<rparr>"

definition ObserverStatus_Clear :: "ObserverStatus \<Rightarrow> ObserverStatus" where
  "ObserverStatus_Clear s = s\<lparr>os_buf := [], os_touched := []\<rparr>"

section \<open>What the table is a function of\<close>

definition status_events :: "Event list \<Rightarrow> (Event \<times> StatusPayload) list" where
  "status_events hist = List.map_filter (\<lambda>e. map_option (Pair e) (status_of e)) hist"

definition status_spec :: "env \<Rightarrow> StatusPayload \<Rightarrow> status_row" where
  "status_spec E p = \<lparr>s_status = sp_Status p, s_uptime_secs = sp_UptimeSecs p,
     s_battery_mv = sp_BatteryMV p, s_queue_len = sp_QueueLen p, s_noise_floor = sp_NoiseFloor p,
     s_tx_air_secs = sp_TxAirSecs p, s_rx_air_secs = sp_RxAirSecs p,
     s_recv_errors = sp_RecvErrors p, s_last_rssi = sp_LastRSSI p,
     s_last_snr = Option.bind (sp_LastSNR p) (q62 E), s_debug_flags = sp_DebugFlags p\<rparr>"

definition status_ok :: "env \<Rightarrow> Event list \<Rightarrow> (bytes \<times> time, status_row) pgtable \<Rightarrow> bool" where
  "status_ok E hist tab \<longleftrightarrow> distinct (map fst tab) \<and>
     (\<forall>k. map_of tab k = map_option (\<lambda>x. status_spec E (snd x))
        (List.find (\<lambda>x. (ev_ObserverID (fst x), ev_TS (fst x)) = k) (status_events hist)))"

definition status_sync ::
  "env \<Rightarrow> Event list \<Rightarrow> Event list \<Rightarrow> ObserverStatus \<Rightarrow> (bytes \<times> time, status_row) pgtable \<Rightarrow> bool" where
  "status_sync E hist es s tab \<longleftrightarrow> status_ok E hist tab \<and>
     os_buf s = map (\<lambda>(e, p). new_statusRow e p) (status_events es) \<and>
     distinct (map fst (os_touched s)) \<and>
     fst ` set (os_touched s) = ev_ObserverID ` fst ` set (status_events es)"

section \<open>Proofs\<close>

lemma status_events_append [simp]: "status_events (xs @ ys) = status_events xs @ status_events ys"
  by (simp add: status_events_def List.map_filter_def)

lemma status_events_Nil [simp]: "status_events [] = []"
  by (simp add: status_events_def List.map_filter_def)

lemma status_events_single:
  "status_events [e] = (case status_of e of None \<Rightarrow> [] | Some p \<Rightarrow> [(e, p)])"
  by (simp add: status_events_def List.map_filter_def split: option.splits)

lemma find_append: "List.find P (xs @ ys) = (case List.find P xs of None \<Rightarrow> List.find P ys | r \<Rightarrow> r)"
  by (induction xs) auto

lemma ObserverStatus_Apply_sync:
  "status_sync E hist es s tab \<Longrightarrow> status_sync E hist (es @ [e]) (ObserverStatus_Apply e s) tab"
  by (cases "ev_Payload e")
    (auto simp: status_sync_def ObserverStatus_Apply_def status_events_single distinct_update
      dom_update image_iff)

text \<open>The table after the messages \<open>xs\<close>.\<close>

definition status_after :: "env \<Rightarrow> (Event \<times> StatusPayload) list \<Rightarrow> (bytes \<times> time, status_row) pgtable \<Rightarrow> bool" where
  "status_after E xs tab \<longleftrightarrow> distinct (map fst tab) \<and>
     (\<forall>k. map_of tab k = map_option (\<lambda>x. status_spec E (snd x))
        (List.find (\<lambda>x. (ev_ObserverID (fst x), ev_TS (fst x)) = k) xs))"

lemma status_ok_after: "status_ok E hist tab \<longleftrightarrow> status_after E (status_events hist) tab"
  by (simp add: status_ok_def status_after_def)

lemma status_columns_spec:
  "numeric_opt (q62 E) (sr_lastSNR (new_statusRow e p)) = Some snr \<Longrightarrow>
    status_columns (new_statusRow e p) snr = status_spec E p"
  by (auto simp: status_columns_def new_statusRow_def status_spec_def numeric_opt_def split: option.splits)

lemma status_insert_after:
  assumes "status_insert E (new_statusRow e p) d = Inr d'" and "status_after E xs (t_observer_status d)"
  shows "status_after E (xs @ [(e, p)]) (t_observer_status d')"
proof -
  have k: "sr_observerID (new_statusRow e p) = ev_ObserverID e" "sr_ts (new_statusRow e p) = ev_TS e"
    by (simp_all add: new_statusRow_def)
  let ?k = "(ev_ObserverID e, ev_TS e)"
  from assms(1) obtain snr where snr: "numeric_opt (q62 E) (sr_lastSNR (new_statusRow e p)) = Some snr"
    by (auto simp: status_insert_def split: option.splits)
  have d': "d' = (if map_of (t_observer_status d) ?k \<noteq> None then d
      else d\<lparr>t_observer_status := AList.update ?k (status_spec E p) (t_observer_status d)\<rparr>)"
    using assms(1) snr by (auto simp: status_insert_def k Let_def status_columns_spec [OF snr] split: if_splits)
  show ?thesis
  proof (cases "map_of (t_observer_status d) ?k")
    case None
    then show ?thesis
      using assms(2) d'
      by (auto simp: status_after_def find_append distinct_update update_conv' split: option.splits)
  next
    case (Some v)
    then have "List.find (\<lambda>x. (ev_ObserverID (fst x), ev_TS (fst x)) = ?k) xs \<noteq> None"
      using assms(2) by (auto simp: status_after_def)
    then show ?thesis
      using assms(2) d' Some by (auto simp: status_after_def find_append split: option.splits)
  qed
qed

lemma status_insert_frame: "status_insert E r d = Inr d' \<Longrightarrow> \<exists>x. d' = d\<lparr>t_observer_status := x\<rparr>"
  by (auto simp: status_insert_def Let_def split: option.splits if_splits intro: exI [of _ "t_observer_status d"])

interpretation status_table: table t_observer_status "\<lambda>x. t_observer_status_update (\<lambda>_. x)"
  by unfold_locales auto

lemma ObserverStatus_Flush_run:
  "ObserverStatus_Flush E s t = (s', Inr t') \<Longrightarrow>
    for_each (\<lambda>r s t. (s, exec (status_insert E r) t)) (os_buf s) s t = (s', Inr t')"
  by (auto simp: ObserverStatus_Flush_def split: if_splits)

lemma ObserverStatus_Flush_frame:
  assumes "ObserverStatus_Flush E s t = (s', Inr t')"
  shows "\<exists>x. tables t' = (tables t)\<lparr>t_observer_status := x\<rparr>"
  by (rule status_table.for_each_frame [OF ObserverStatus_Flush_run [OF assms]])
    (auto simp: exec_Inr dest: status_insert_frame)

lemma ObserverStatus_Flush_sync:
  assumes run: "ObserverStatus_Flush E s t = (s', Inr t')"
    and sync: "status_sync E hist es s (t_observer_status (tables t))"
  shows "status_ok E (hist @ es) (t_observer_status (tables t'))" and "s' = s"
proof -
  let ?I = "\<lambda>pre s1 t1. s1 = s \<and>
    status_after E (status_events hist @ pre) (t_observer_status (tables t1))"
  have ok: "status_after E (status_events hist) (t_observer_status (tables t))"
    and buf: "os_buf s = map (\<lambda>(e, p). new_statusRow e p) (status_events es)"
    using sync by (simp_all add: status_sync_def status_ok_after)
  note loop = ObserverStatus_Flush_run [OF run, unfolded buf for_each_map]
  have "?I (status_events es) s' t'"
  proof (rule for_each_rule [where I = ?I, OF loop])
    show "?I [] s t" using ok by simp
    show "?I (pre @ [x]) s2 t2"
      if "?I pre s1 t1" "(s1, exec (status_insert E (case x of (e, p) \<Rightarrow> new_statusRow e p)) t1) = (s2, Inr t2)"
      for pre x s1 t1 s2 t2
      using that status_insert_after [of E "fst x" "snd x" "tables t1" "tables t2" "status_events hist @ pre"]
      by (auto simp: exec_Inr split: prod.splits)
  qed
  then show "status_ok E (hist @ es) (t_observer_status (tables t'))" and "s' = s"
    by (simp_all add: status_ok_after)
qed

interpretation status_stage: stage t_observer_status "\<lambda>x. t_observer_status_update (\<lambda>_. x)"
  ObserverStatus_Apply ObserverStatus_Flush ObserverStatus_Evict NewObserverStatus
  "\<lambda>_ _. True" "\<lambda>_. True" status_ok status_sync
proof unfold_locales
  fix E hist es and s :: ObserverStatus and tab t s' t' h
  show "status_ok E hist tab \<Longrightarrow> status_sync E hist [] NewObserverStatus tab"
    by (simp add: status_sync_def NewObserverStatus_def)
  show "status_sync E hist [] s tab \<Longrightarrow> status_ok E hist tab"
    by (simp add: status_sync_def)
  assume f: "ObserverStatus_Flush E s t = (s', Inr t')"
  show "status_sync E hist [] s' (t_observer_status (tables t'))"
    if "status_sync E hist [] s (t_observer_status (tables t))"
    using ObserverStatus_Flush_sync [OF f that] that by (simp add: status_sync_def)
  show "status_sync E (hist @ es) [] (ObserverStatus_Evict h s') (t_observer_status (tables t'))"
    if "status_sync E hist es s (t_observer_status (tables t))"
    using ObserverStatus_Flush_sync [OF f that] by (simp add: status_sync_def ObserverStatus_Evict_def)
qed (auto intro: ObserverStatus_Apply_sync ObserverStatus_Flush_frame)

section \<open>Properties\<close>

text \<open>C14 The \<^verbatim>\<open>observer_status\<close> table holds, for each observer and instant, the first
  status message of the log: a redelivered or later message with the same key changes
  nothing.\<close>

theorem status_function_of_log:
  assumes "status_sync E hist [] s (t_observer_status (tables t))" and "range_order (range_of E)"
    and "ObserverStatus_Flush E (fold ObserverStatus_Apply es s) t = (s', Inr t')"
  shows "status_ok E (hist @ es) (t_observer_status (tables t')) \<and>
    status_sync E (hist @ es) [] (ObserverStatus_Evict h s') (t_observer_status (tables t'))"
  using status_stage.batch_sync(1) [OF assms(3,2) _ _ assms(1)]
    status_stage.flush_keeps_promise [OF assms(3,2) _ _ assms(1)]
  by (simp add: list_all_iff)

lemma status_function_of_log_witness:
  "\<exists>s' t'. ObserverStatus_Flush sample_env (fold ObserverStatus_Apply [status_event] NewObserverStatus) observed_tx = (s', Inr t') \<and>
    status_ok sample_env [status_event] (t_observer_status (tables t'))"
proof -
  have "succeeds (ObserverStatus_Flush sample_env (fold ObserverStatus_Apply [status_event] NewObserverStatus) observed_tx)"
    by code_simp
  then obtain s' t' where
    r: "ObserverStatus_Flush sample_env (fold ObserverStatus_Apply [status_event] NewObserverStatus) observed_tx = (s', Inr t')"
    by (rule succeedsE)
  have "status_sync sample_env [] [] NewObserverStatus (t_observer_status (tables observed_tx))"
    by (rule status_stage.fresh_sync) (simp add: status_ok_def observed_tx_def empty_db_def)
  from status_function_of_log [OF this sample_range r] r show ?thesis by auto
qed

end
