(* ===== verification/Stage_Nodes.thy ===== *)
theory Stage_Nodes
  imports Stage_Interface Sample_Log
begin

text \<open>
  The \<^verbatim>\<open>nodes\<close> stage (\<^verbatim>\<open>internal/project/stages/nodes.go\<close>): one row per public key seen
  in an advert. The descriptive columns are those of the first advert of the log that
  carries the largest advert timestamp; \<^verbatim>\<open>advert_received_at\<close> is the earliest reception of
  that timestamp; \<^verbatim>\<open>advert_count\<close> counts every advert. The per-batch merge in memory and
  the merge in the \<^verbatim>\<open>ON CONFLICT\<close> clause together compute exactly that, in whatever batches
  the adverts come.
\<close>

section \<open>Model\<close>

record nodeRow =
  nr_publicKey :: bytes
  nr_prefix1 :: bytes
  nr_prefix4 :: bytes
  nr_nodeType :: string
  nr_name :: string
  nr_hasLatLon :: bool
  nr_latE6 :: int
  nr_lonE6 :: int
  nr_hasFeat1 :: bool
  nr_feat1 :: int
  nr_hasFeat2 :: bool
  nr_feat2 :: int
  nr_advertTS :: time
  nr_advertReceivedAt :: time
  nr_advertCount :: int
  nr_firstSeen :: time
  nr_lastSeen :: time

record Nodes =
  nd_touched :: "(bytes, nodeRow) gomap"

definition NewNodes :: Nodes where
  "NewNodes = \<lparr>nd_touched = []\<rparr>"

definition new_nodeRow :: "Event \<Rightarrow> AdvertInfo \<Rightarrow> nodeRow" where
  "new_nodeRow e adv = \<lparr>nr_publicKey = adv_PublicKey adv, nr_prefix1 = take 1 (adv_PublicKey adv),
     nr_prefix4 = (if 4 \<le> length (adv_PublicKey adv) then take 4 (adv_PublicKey adv)
                   else adv_PublicKey adv),
     nr_nodeType = [], nr_name = [], nr_hasLatLon = False, nr_latE6 = 0, nr_lonE6 = 0,
     nr_hasFeat1 = False, nr_feat1 = 0, nr_hasFeat2 = False, nr_feat2 = 0,
     nr_advertTS = zero_time, nr_advertReceivedAt = zero_time, nr_advertCount = 0,
     nr_firstSeen = ev_TS e, nr_lastSeen = ev_TS e\<rparr>"

text \<open>The counter and the sightings, then the descriptive fields.\<close>

definition count_nodeRow :: "Event \<Rightarrow> nodeRow \<Rightarrow> nodeRow" where
  "count_nodeRow e row = row\<lparr>
     nr_advertCount := nr_advertCount row + 1,
     nr_firstSeen := (if ev_TS e < nr_firstSeen row then ev_TS e else nr_firstSeen row),
     nr_lastSeen := (if ev_TS e > nr_lastSeen row then ev_TS e else nr_lastSeen row)\<rparr>"

definition describe_nodeRow :: "Event \<Rightarrow> AdvertInfo \<Rightarrow> nodeRow \<Rightarrow> nodeRow" where
  "describe_nodeRow e adv row =
     (if adv_Timestamp adv = nr_advertTS row then
        (if nr_advertReceivedAt row = zero_time \<or> ev_TS e < nr_advertReceivedAt row
         then row\<lparr>nr_advertReceivedAt := ev_TS e\<rparr> else row)
      else if \<not> adv_Timestamp adv > nr_advertTS row then row
      else row\<lparr>nr_advertTS := adv_Timestamp adv, nr_advertReceivedAt := ev_TS e,
             nr_nodeType := adv_NodeType adv, nr_name := adv_Name adv,
             nr_hasLatLon := adv_HasLatLon adv, nr_latE6 := adv_LatE6 adv, nr_lonE6 := adv_LonE6 adv,
             nr_hasFeat1 := adv_HasFeat1 adv, nr_feat1 := adv_Feat1 adv,
             nr_hasFeat2 := adv_HasFeat2 adv, nr_feat2 := adv_Feat2 adv\<rparr>)"

definition Nodes_Apply :: "Event \<Rightarrow> Nodes \<Rightarrow> Nodes" where
  "Nodes_Apply e s = (case ev_Payload e of
       KindStatus _ \<Rightarrow> s
     | KindPacket p \<Rightarrow>
         (case pp_Advert p of
            None \<Rightarrow> s
          | Some adv \<Rightarrow>
              if adv_PublicKey adv = [] then s
              else
                let key = adv_PublicKey adv;
                    row = (case map_of (nd_touched s) key of Some r \<Rightarrow> r | None \<Rightarrow> new_nodeRow e adv)
                in s\<lparr>nd_touched := AList.update key
                       (describe_nodeRow e adv (count_nodeRow e row)) (nd_touched s)\<rparr>))"

text \<open>The row proposed for insertion, and the row after \<^verbatim>\<open>ON CONFLICT (public_key)\<close>.\<close>

definition nodes_excluded :: "nodeRow \<Rightarrow> nodes_row" where
  "nodes_excluded r = \<lparr>n_prefix1 = nr_prefix1 r, n_prefix4 = nr_prefix4 r,
     n_node_type = nr_nodeType r, n_name = nr_name r, n_has_lat_lon = nr_hasLatLon r,
     n_lat_e6 = (if nr_hasLatLon r then Some (nr_latE6 r) else None),
     n_lon_e6 = (if nr_hasLatLon r then Some (nr_lonE6 r) else None),
     n_has_feat1 = nr_hasFeat1 r, n_feat1 = (if nr_hasFeat1 r then Some (nr_feat1 r) else None),
     n_has_feat2 = nr_hasFeat2 r, n_feat2 = (if nr_hasFeat2 r then Some (nr_feat2 r) else None),
     n_advert_timestamp = (if nr_advertTS r = zero_time then None else Some (nr_advertTS r)),
     n_advert_received_at =
       (if nr_advertReceivedAt r = zero_time then None else Some (nr_advertReceivedAt r)),
     n_advert_count = nr_advertCount r, n_first_seen = nr_firstSeen r, n_last_seen = nr_lastSeen r\<rparr>"

definition newer_advert :: "nodes_row \<Rightarrow> nodes_row \<Rightarrow> bool" where
  "newer_advert ex old = (case n_advert_timestamp ex of
       None \<Rightarrow> False
     | Some t \<Rightarrow> (case n_advert_timestamp old of None \<Rightarrow> True | Some u \<Rightarrow> t > u))"

definition nodes_conflict :: "nodes_row \<Rightarrow> nodes_row \<Rightarrow> nodes_row" where
  "nodes_conflict old ex =
     (let pick = (if newer_advert ex old then ex else old) in
      \<lparr>n_prefix1 = n_prefix1 old, n_prefix4 = n_prefix4 old,
       n_node_type = n_node_type pick, n_name = n_name pick,
       n_has_lat_lon = n_has_lat_lon pick, n_lat_e6 = n_lat_e6 pick, n_lon_e6 = n_lon_e6 pick,
       n_has_feat1 = n_has_feat1 pick, n_feat1 = n_feat1 pick,
       n_has_feat2 = n_has_feat2 pick, n_feat2 = n_feat2 pick,
       n_advert_timestamp = greatest (n_advert_timestamp old) (n_advert_timestamp ex),
       n_advert_received_at =
         (if n_advert_timestamp ex = None then n_advert_received_at old
          else if newer_advert ex old then n_advert_received_at ex
          else if n_advert_timestamp ex = n_advert_timestamp old
            then least (n_advert_received_at old) (n_advert_received_at ex)
          else n_advert_received_at old),
       n_advert_count = n_advert_count old + n_advert_count ex,
       n_first_seen = min (n_first_seen old) (n_first_seen ex),
       n_last_seen = max (n_last_seen old) (n_last_seen ex)\<rparr>)"

definition nodes_row_ok :: "nodeRow \<Rightarrow> bool" where
  "nodes_row_ok r \<longleftrightarrow> text_ok (nr_nodeType r) \<and> text_ok (nr_name r)"

definition nodes_upsert :: "nodeRow \<Rightarrow> db \<Rightarrow> err + db" where
  "nodes_upsert r d =
     (if \<not> nodes_row_ok r then Inl (ConstraintError ''nodes'')
      else
        let ex = nodes_excluded r;
            row = (case map_of (t_nodes d) (nr_publicKey r) of
                     None \<Rightarrow> ex | Some old \<Rightarrow> nodes_conflict old ex)
        in Inr (d\<lparr>t_nodes := AList.update (nr_publicKey r) row (t_nodes d)\<rparr>))"

definition Nodes_Flush :: "env \<Rightarrow> Nodes \<Rightarrow> tx \<Rightarrow> Nodes \<times> (err + tx)" where
  "Nodes_Flush E s t =
     (if nd_touched s = [] then (s, Inr t)
      else for_each (\<lambda>(k, r) s t. (s, exec (nodes_upsert r) t))
             (go_range (range_of E) (nd_touched s)) s t)"

definition Nodes_Evict :: "time \<Rightarrow> Nodes \<Rightarrow> Nodes" where
  "Nodes_Evict hwm s = s\<lparr>nd_touched := []\<rparr>"

definition Nodes_Clear :: "Nodes \<Rightarrow> Nodes" where
  "Nodes_Clear s = s\<lparr>nd_touched := []\<rparr>"

section \<open>What the table is a function of\<close>

definition advert_of :: "Event \<Rightarrow> AdvertInfo option" where
  "advert_of e = Option.bind (packet_of e) pp_Advert"

text \<open>The adverts of one public key, each with its reception time.\<close>

definition node_adverts :: "Event list \<Rightarrow> bytes \<Rightarrow> (time \<times> AdvertInfo) list" where
  "node_adverts hist k = List.map_filter (\<lambda>e. case advert_of e of
       None \<Rightarrow> None
     | Some a \<Rightarrow> if adv_PublicKey a = k \<and> k \<noteq> [] then Some (ev_TS e, a) else None) hist"

text \<open>The receptions of the advert with the largest timestamp, in the order of the log.\<close>

definition newest :: "(time \<times> AdvertInfo) list \<Rightarrow> (time \<times> AdvertInfo) list" where
  "newest xs = filter (\<lambda>x. adv_Timestamp (snd x) = latest (map (adv_Timestamp \<circ> snd) xs)) xs"

definition node_spec :: "(time \<times> AdvertInfo) list \<Rightarrow> nodes_row" where
  "node_spec xs =
     (let a = snd (hd (newest xs)) in
      \<lparr>n_prefix1 = take 1 (adv_PublicKey (snd (hd xs))), n_prefix4 = take 4 (adv_PublicKey (snd (hd xs))),
       n_node_type = adv_NodeType a, n_name = adv_Name a, n_has_lat_lon = adv_HasLatLon a,
       n_lat_e6 = (if adv_HasLatLon a then Some (adv_LatE6 a) else None),
       n_lon_e6 = (if adv_HasLatLon a then Some (adv_LonE6 a) else None),
       n_has_feat1 = adv_HasFeat1 a, n_feat1 = (if adv_HasFeat1 a then Some (adv_Feat1 a) else None),
       n_has_feat2 = adv_HasFeat2 a, n_feat2 = (if adv_HasFeat2 a then Some (adv_Feat2 a) else None),
       n_advert_timestamp = Some (adv_Timestamp a),
       n_advert_received_at = Some (earliest (map fst (newest xs))),
       n_advert_count = int (length xs),
       n_first_seen = earliest (map fst xs), n_last_seen = latest (map fst xs)\<rparr>)"

definition nodes_ok :: "env \<Rightarrow> Event list \<Rightarrow> (bytes, nodes_row) pgtable \<Rightarrow> bool" where
  "nodes_ok E hist tab \<longleftrightarrow> distinct (map fst tab) \<and>
     (\<forall>k. map_of tab k =
        (if node_adverts hist k = [] then None else Some (node_spec (node_adverts hist k))))"

text \<open>
  Advert timestamps and reception times are after Go's zero time: the decoder makes the
  former from an unsigned number of seconds since 1970.
\<close>

definition nodes_wf :: "Event \<Rightarrow> bool" where
  "nodes_wf e \<longleftrightarrow> 0 < ev_TS e \<and> (\<forall>a \<in> set_option (advert_of e). 0 < adv_Timestamp a)"

definition adverts_good :: "(time \<times> AdvertInfo) list \<Rightarrow> bool" where
  "adverts_good xs \<longleftrightarrow> (\<forall>x \<in> set xs. 0 < fst x \<and> 0 < adv_Timestamp (snd x))"

text \<open>The working set after the adverts of the batch.\<close>

definition node_agg :: "bytes \<Rightarrow> (time \<times> AdvertInfo) list \<Rightarrow> nodeRow" where
  "node_agg k xs =
     (let a = snd (hd (newest xs)) in
      \<lparr>nr_publicKey = k, nr_prefix1 = take 1 (adv_PublicKey (snd (hd xs))),
       nr_prefix4 = take 4 (adv_PublicKey (snd (hd xs))),
       nr_nodeType = adv_NodeType a, nr_name = adv_Name a, nr_hasLatLon = adv_HasLatLon a,
       nr_latE6 = adv_LatE6 a, nr_lonE6 = adv_LonE6 a,
       nr_hasFeat1 = adv_HasFeat1 a, nr_feat1 = adv_Feat1 a,
       nr_hasFeat2 = adv_HasFeat2 a, nr_feat2 = adv_Feat2 a,
       nr_advertTS = adv_Timestamp a, nr_advertReceivedAt = earliest (map fst (newest xs)),
       nr_advertCount = int (length xs),
       nr_firstSeen = earliest (map fst xs), nr_lastSeen = latest (map fst xs)\<rparr>)"

section \<open>Proofs\<close>

lemma node_adverts_append [simp]: "node_adverts (xs @ ys) k = node_adverts xs k @ node_adverts ys k"
  by (simp add: node_adverts_def List.map_filter_def)

lemma node_adverts_Nil [simp]: "node_adverts [] k = []"
  by (simp add: node_adverts_def List.map_filter_def)

lemma node_adverts_single:
  "node_adverts [e] k = (case advert_of e of
     None \<Rightarrow> [] | Some a \<Rightarrow> if adv_PublicKey a = k \<and> k \<noteq> [] then [(ev_TS e, a)] else [])"
  by (simp add: node_adverts_def List.map_filter_def split: option.splits)

lemma adverts_good_append [simp]: "adverts_good (xs @ ys) \<longleftrightarrow> adverts_good xs \<and> adverts_good ys"
  by (auto simp: adverts_good_def)

lemma adverts_good_log: "list_all nodes_wf hist \<Longrightarrow> adverts_good (node_adverts hist k)"
proof (induction hist rule: rev_induct)
  case Nil
  then show ?case by (simp add: adverts_good_def)
next
  case (snoc e hist)
  then have "adverts_good (node_adverts [e] k)"
    by (auto simp: adverts_good_def node_adverts_single nodes_wf_def split: option.splits)
  with snoc show ?case by simp
qed

abbreviation top_ts :: "(time \<times> AdvertInfo) list \<Rightarrow> time" where
  "top_ts xs \<equiv> latest (map (adv_Timestamp \<circ> snd) xs)"

lemma newest_single [simp]: "newest [x] = [x]"
  by (simp add: newest_def)

lemma top_ts_in: "xs \<noteq> [] \<Longrightarrow> \<exists>x \<in> set xs. adv_Timestamp (snd x) = top_ts xs"
  using Max_in [of "(adv_Timestamp \<circ> snd) ` set xs"] unfolding latest_def set_map image_iff
  by (metis List.finite_set comp_apply finite_imageI image_is_empty set_empty)

lemma top_ts_ge: "x \<in> set xs \<Longrightarrow> adv_Timestamp (snd x) \<le> top_ts xs"
  by (simp add: latest_def)

lemma newest_nonempty [simp]: "newest xs = [] \<longleftrightarrow> xs = []"
  using top_ts_in [of xs] by (auto simp: newest_def filter_empty_conv)

lemma newest_subset: "x \<in> set (newest xs) \<Longrightarrow> x \<in> set xs"
  by (simp add: newest_def)

lemma newest_ts: "xs \<noteq> [] \<Longrightarrow> adv_Timestamp (snd (hd (newest xs))) = top_ts xs"
  using hd_in_set [of "newest xs", unfolded newest_nonempty] by (simp add: newest_def)

lemma newest_append:
  assumes "xs \<noteq> []" "ys \<noteq> []"
  shows "newest (xs @ ys) =
    (if top_ts ys > top_ts xs then newest ys
     else if top_ts ys = top_ts xs then newest xs @ newest ys else newest xs)"
proof -
  have m: "top_ts (xs @ ys) = max (top_ts xs) (top_ts ys)"
    using assms latest_append by simp
  have none: "filter (\<lambda>x. adv_Timestamp (snd x) = t) zs = []" if "top_ts zs < t" for t zs
    using that top_ts_ge [of _ zs] by (fastforce simp: filter_empty_conv)
  show ?thesis
    using none [of xs "top_ts ys"] none [of ys "top_ts xs"] unfolding newest_def m
    by (auto simp: max_def)
qed

lemma top_ts_append: "xs \<noteq> [] \<Longrightarrow> ys \<noteq> [] \<Longrightarrow> top_ts (xs @ ys) = max (top_ts xs) (top_ts ys)"
  using latest_append by simp

lemma top_pos: "adverts_good xs \<Longrightarrow> xs \<noteq> [] \<Longrightarrow> 0 < top_ts xs"
  using top_ts_in [of xs] by (auto simp: adverts_good_def)

lemma received_pos:
  assumes "adverts_good xs" "xs \<noteq> []" shows "0 < earliest (map fst (newest xs))"
proof -
  have "earliest (map fst (newest xs)) \<in> fst ` set (newest xs)"
    using assms(2) Min_in [of "set (map fst (newest xs))"] by (auto simp: earliest_def)
  with assms(1) show ?thesis by (auto simp: adverts_good_def dest!: newest_subset)
qed

lemma new_node_agg:
  assumes "0 < adv_Timestamp a"
  shows "describe_nodeRow e a (count_nodeRow e (new_nodeRow e a)) =
    node_agg (adv_PublicKey a) [(ev_TS e, a)]"
  using assms by (simp add: describe_nodeRow_def count_nodeRow_def new_nodeRow_def node_agg_def)

lemma node_agg_snoc:
  assumes "xs \<noteq> []" "adverts_good xs"
  shows "describe_nodeRow e a (count_nodeRow e (node_agg k xs)) = node_agg k (xs @ [(ev_TS e, a)])"
proof -
  have "nr_advertReceivedAt (node_agg k xs) \<noteq> 0" 
    using received_pos [OF assms(2,1)] by (simp add: node_agg_def Let_def)
  then show ?thesis
    using assms newest_append [of xs "[(ev_TS e, a)]"] newest_ts [OF assms(1)]
    unfolding describe_nodeRow_def count_nodeRow_def go_simps
    by (auto simp: node_agg_def Let_def agg_append hd_append min_def)
qed

lemma nodes_excluded_agg:
  "ys \<noteq> [] \<Longrightarrow> adverts_good ys \<Longrightarrow> nodes_excluded (node_agg k ys) = node_spec ys"
  using received_pos [of ys] top_pos [of ys] newest_ts [of ys]
  by (simp add: nodes_excluded_def node_agg_def node_spec_def Let_def)

lemma node_spec_merge:
  assumes "xs \<noteq> []" "ys \<noteq> []"
  shows "nodes_conflict (node_spec xs) (node_spec ys) = node_spec (xs @ ys)"
proof -
  have ts: "n_advert_timestamp (node_spec zs) = Some (top_ts zs)" if "zs \<noteq> []" for zs
    using newest_ts [OF that] by (simp add: node_spec_def Let_def)
  have newer: "newer_advert (node_spec ys) (node_spec xs) \<longleftrightarrow> top_ts ys > top_ts xs"
    using ts assms by (simp add: newer_advert_def)
  show ?thesis
    unfolding nodes_conflict_def newer ts [OF assms(1)] ts [OF assms(2)] Let_def
    using assms newest_append [OF assms] newest_ts [OF assms(1)] newest_ts [OF assms(2)]
    by (auto simp: node_spec_def Let_def agg_append sql_simps hd_append max_def)
qed

lemma nodes_upsert_spec:
  assumes "nodes_upsert (node_agg k ys) d = Inr d'" and "ys \<noteq> []" and "adverts_good (xs @ ys)"
    and "map_of (t_nodes d) k = (if xs = [] then None else Some (node_spec xs))"
  shows "d' = d\<lparr>t_nodes := AList.update k (node_spec (xs @ ys)) (t_nodes d)\<rparr>"
proof -
  have [simp]: "nr_publicKey (node_agg k ys) = k" by (simp add: node_agg_def Let_def)
  show ?thesis
    using assms node_spec_merge [of xs ys] nodes_excluded_agg [of ys k]
    by (auto simp: nodes_upsert_def Let_def split: if_splits)
qed

lemma nodes_upsert_frame: "nodes_upsert r d = Inr d' \<Longrightarrow> \<exists>x. d' = d\<lparr>t_nodes := x\<rparr>"
  by (auto simp: nodes_upsert_def Let_def split: if_splits)

interpretation nodes_ws: working_set t_nodes "\<lambda>x. t_nodes_update (\<lambda>_. x)"
  node_adverts node_agg "\<lambda>_. node_spec" "\<lambda>_. nodes_upsert" adverts_good
  by unfold_locales (auto dest: nodes_upsert_frame nodes_upsert_spec)

lemma nodes_ok_iff: "nodes_ok E hist tab \<longleftrightarrow> nodes_ws.table_ok E hist tab"
  by (simp add: nodes_ok_def nodes_ws.table_ok_def)

definition nodes_sync ::
  "env \<Rightarrow> Event list \<Rightarrow> Event list \<Rightarrow> Nodes \<Rightarrow> (bytes, nodes_row) pgtable \<Rightarrow> bool" where
  "nodes_sync E hist es s tab \<longleftrightarrow>
     list_all nodes_wf es \<and> nodes_ws.in_sync E hist es (nd_touched s) tab"

lemma Nodes_Apply_advert:
  "Nodes_Apply e s = (case advert_of e of
     None \<Rightarrow> s
   | Some adv \<Rightarrow> if adv_PublicKey adv = [] then s
       else s\<lparr>nd_touched := AList.update (adv_PublicKey adv) (describe_nodeRow e adv (count_nodeRow e
              (case map_of (nd_touched s) (adv_PublicKey adv) of Some r \<Rightarrow> r | None \<Rightarrow> new_nodeRow e adv)))
            (nd_touched s)\<rparr>)"
  by (simp add: Nodes_Apply_def advert_of_def packet_of_def Let_def
      split: EventPayload.splits option.splits)

lemma Nodes_Apply_sync:
  assumes "nodes_sync E hist es s tab" and wf: "nodes_wf e"
  shows "nodes_sync E hist (es @ [e]) (Nodes_Apply e s) tab"
proof (cases "\<exists>a. advert_of e = Some a \<and> adv_PublicKey a \<noteq> []")
  case False
  with assms show ?thesis
    by (auto simp: nodes_sync_def Nodes_Apply_advert node_adverts_single
        intro: nodes_ws.skip_in_sync split: option.splits)
next
  case True
  then obtain a where a: "advert_of e = Some a" "adv_PublicKey a \<noteq> []" by blast
  let ?k = "adv_PublicKey a"
  have "describe_nodeRow e a (count_nodeRow e
      (case map_of (nd_touched s) ?k of Some r \<Rightarrow> r | None \<Rightarrow> new_nodeRow e a)) =
    node_agg ?k (node_adverts es ?k @ [(ev_TS e, a)])"
    using assms a adverts_good_log [of es ?k]
    by (auto simp: nodes_sync_def nodes_ws.in_sync_def nodes_wf_def new_node_agg node_agg_snoc)
  then show ?thesis
    using assms a by (auto simp: nodes_sync_def Nodes_Apply_advert node_adverts_single
        intro!: nodes_ws.touch_in_sync)
qed

lemma Nodes_Flush_run:
  "Nodes_Flush E s t = (s', Inr t') \<Longrightarrow> range_order (range_of E) \<Longrightarrow>
    for_each (\<lambda>(k, r) s t. (s, exec (nodes_upsert r) t))
      (go_range (range_of E) (nd_touched s)) s t = (s', Inr t')"
  by (auto simp: Nodes_Flush_def split: if_splits)

lemma Nodes_Flush_frame:
  "Nodes_Flush E s t = (s', Inr t') \<Longrightarrow> \<exists>x. tables t' = (tables t)\<lparr>t_nodes := x\<rparr>"
  by (cases "nd_touched s = []")
    (auto simp: Nodes_Flush_def intro: nodes_ws.flush_frame nodes_ws.put_get [symmetric])

lemma Nodes_Flush_sync:
  assumes "Nodes_Flush E s t = (s', Inr t')" and "range_order (range_of E)"
    and "list_all nodes_wf (hist @ es)" and "nodes_sync E hist es s (t_nodes (tables t))"
  shows "nodes_ok E (hist @ es) (t_nodes (tables t'))" and "s' = s"
  using nodes_ws.flush_in_sync [OF Nodes_Flush_run [OF assms(1,2)] assms(2)] assms(3,4)
    adverts_good_log [OF assms(3)]
  by (auto simp: nodes_sync_def nodes_ok_iff)

interpretation nodes_stage: stage t_nodes "\<lambda>x. t_nodes_update (\<lambda>_. x)"
  Nodes_Apply Nodes_Flush Nodes_Evict NewNodes "\<lambda>_ _. True" nodes_wf nodes_ok nodes_sync
proof unfold_locales
  fix E hist and s :: Nodes and tab t s' t'
  show "nodes_ok E hist tab \<Longrightarrow> nodes_sync E hist [] NewNodes tab"
    by (simp add: nodes_sync_def NewNodes_def nodes_ok_iff nodes_ws.empty_in_sync)
  show "nodes_sync E hist [] s tab \<Longrightarrow> nodes_ok E hist tab"
    by (simp add: nodes_sync_def nodes_ok_iff nodes_ws.in_sync_def)
  show "Nodes_Flush E s t = (s', Inr t') \<Longrightarrow> \<exists>x. tables t' = (tables t)\<lparr>t_nodes := x\<rparr>"
    by (rule Nodes_Flush_frame)
  assume f: "Nodes_Flush E s t = (s', Inr t')" "range_order (range_of E)"
  show "nodes_sync E hist [] s' (t_nodes (tables t'))"
    if "nodes_sync E hist [] s (t_nodes (tables t))" "list_all nodes_wf hist"
  proof -
    have "nd_touched s = []"
      using that(1) unfolding nodes_sync_def by (auto intro: nodes_ws.idle_in_sync)
    then show ?thesis
      using Nodes_Flush_sync [OF f, of hist "[]"] that
      by (simp add: nodes_sync_def nodes_ok_iff nodes_ws.empty_in_sync)
  qed
  show "nodes_sync E (hist @ es) [] (Nodes_Evict h s') (t_nodes (tables t'))"
    if "nodes_sync E hist es s (t_nodes (tables t))" "list_all nodes_wf (hist @ es)" for es h
    using Nodes_Flush_sync [OF f that(2,1)]
    by (simp add: nodes_sync_def nodes_ok_iff Nodes_Evict_def nodes_ws.empty_in_sync)
qed (rule Nodes_Apply_sync)

section \<open>Properties\<close>

text \<open>C11 The \<^verbatim>\<open>nodes\<close> table is a function of the adverts committed so far: the descriptive
  columns come from the first advert with the largest advert timestamp, \<^verbatim>\<open>advert_received_at\<close>
  is its earliest reception, \<^verbatim>\<open>advert_count\<close> counts every advert; a late straggler with an older
  timestamp changes only the counters and the sightings.\<close>

theorem nodes_function_of_log:
  assumes "nodes_sync E hist [] s (t_nodes (tables t))" and "range_order (range_of E)"
    and "list_all nodes_wf (hist @ es)"
    and "Nodes_Flush E (fold Nodes_Apply es s) t = (s', Inr t')"
  shows "nodes_ok E (hist @ es) (t_nodes (tables t')) \<and>
    nodes_sync E (hist @ es) [] (Nodes_Evict h s') (t_nodes (tables t'))"
  using nodes_stage.batch_sync(1) [OF assms(4,2) _ assms(3,1)]
    nodes_stage.flush_keeps_promise [OF assms(4,2) _ assms(3,1)] by simp

lemma nodes_function_of_log_witness:
  "\<exists>s' t'. Nodes_Flush sample_env (fold Nodes_Apply [packet_event] NewNodes) sample_tx = (s', Inr t') \<and>
    nodes_ok sample_env [packet_event] (t_nodes (tables t'))"
proof -
  have "succeeds (Nodes_Flush sample_env (fold Nodes_Apply [packet_event] NewNodes) sample_tx)"
    by code_simp
  then obtain s' t' where
    r: "Nodes_Flush sample_env (fold Nodes_Apply [packet_event] NewNodes) sample_tx = (s', Inr t')"
    by (rule succeedsE)
  have s: "nodes_sync sample_env [] [] NewNodes (t_nodes (tables sample_tx))"
    by (rule nodes_stage.fresh_sync) (simp add: nodes_ok_def sample_tx_def empty_db_def)
  have "list_all nodes_wf ([] @ [packet_event])" by code_simp
  from nodes_function_of_log [OF s sample_range this r] r show ?thesis by auto
qed

end
