(* ===== verification/Stage_Packets.thy ===== *)
theory Stage_Packets
  imports Stage_Interface Sample_Log Notify
begin

text \<open>
  The \<^verbatim>\<open>packet_observations\<close> stage (\<^verbatim>\<open>internal/project/stages/packets.go\<close>): every packet
  event becomes one row, bulk-copied under ids drawn from a sequence. After the commit one
  notification on \<^verbatim>\<open>meshbug_packets\<close> names the touched observers.
\<close>

section \<open>Model\<close>

record packetRow =
  pr_ts :: time
  pr_observerID :: bytes
  pr_packetHash :: "bytes option"
  pr_direction :: string
  pr_packetType :: string
  pr_route :: string
  pr_length :: "int option"
  pr_payloadLen :: "int option"
  pr_rssi :: "int option"
  pr_snr :: "f64 option"
  pr_score :: "int option"
  pr_durationMS :: "int option"
  pr_raw :: "bytes option"
  pr_decodedType :: "int option"
  pr_sourcePrefix :: "bytes option"
  pr_destPrefix :: "bytes option"
  pr_transportCodes :: "bytes option"

record PacketObservations =
  pk_buf :: "packetRow list"
  pk_touched :: "(bytes, unit) gomap"
  pk_count :: int

definition NewPacketObservations :: PacketObservations where
  "NewPacketObservations = \<lparr>pk_buf = [], pk_touched = [], pk_count = 0\<rparr>"

definition new_packetRow :: "Event \<Rightarrow> PacketPayload \<Rightarrow> packetRow" where
  "new_packetRow e p = \<lparr>pr_ts = ev_TS e, pr_observerID = ev_ObserverID e,
     pr_packetHash = pp_PacketHash p, pr_direction = pp_Direction p, pr_packetType = pp_PacketType p,
     pr_route = pp_Route p, pr_length = pp_Len p, pr_payloadLen = pp_PayloadLen p,
     pr_rssi = pp_RSSI p, pr_snr = pp_SNR p, pr_score = pp_Score p, pr_durationMS = pp_DurationMS p,
     pr_raw = pp_Raw p, pr_decodedType = pp_DecodedType p, pr_sourcePrefix = pp_SourcePrefix p,
     pr_destPrefix = pp_DestPrefix p, pr_transportCodes = pp_TransportCodes p\<rparr>"

definition PacketObservations_Apply :: "Event \<Rightarrow> PacketObservations \<Rightarrow> PacketObservations" where
  "PacketObservations_Apply e s = (case ev_Payload e of
       KindStatus _ \<Rightarrow> s
     | KindPacket p \<Rightarrow> s\<lparr>pk_buf := pk_buf s @ [new_packetRow e p],
                       pk_touched := AList.update (ev_ObserverID e) () (pk_touched s)\<rparr>)"

text \<open>\<^verbatim>\<open>SELECT array_agg(nextval(...)) FROM generate_series(1, n)\<close>.\<close>

definition nextvals :: "nat \<Rightarrow> db \<Rightarrow> err + db" where
  "nextvals n d = Inr (d\<lparr>t_packet_observations_seq := t_packet_observations_seq d + int n\<rparr>)"

definition drawn_ids :: "nat \<Rightarrow> db \<Rightarrow> int list" where
  "drawn_ids n d = map (\<lambda>i. t_packet_observations_seq d + 1 + int i) [0..<n]"

definition packet_columns :: "int \<Rightarrow> packetRow \<Rightarrow> f64 option \<Rightarrow> packet_row" where
  "packet_columns i r snr = \<lparr>po_id = i, po_ts = pr_ts r, po_observer_id = pr_observerID r,
     po_packet_hash = pr_packetHash r, po_direction = pr_direction r, po_packet_type = pr_packetType r,
     po_route = pr_route r, po_len = pr_length r, po_payload_len = pr_payloadLen r,
     po_rssi = pr_rssi r, po_snr = snr, po_score = pr_score r, po_duration_ms = pr_durationMS r,
     po_raw = pr_raw r, po_decoded_type = pr_decodedType r, po_source_prefix = pr_sourcePrefix r,
     po_dest_prefix = pr_destPrefix r, po_transport_codes = pr_transportCodes r\<rparr>"

definition packet_row_ok :: "packetRow \<Rightarrow> bool" where
  "packet_row_ok r \<longleftrightarrow> text_ok (pr_direction r) \<and> text_ok (pr_packetType r) \<and> text_ok (pr_route r) \<and>
     int4_opt_ok (pr_length r) \<and> int4_opt_ok (pr_payloadLen r) \<and> int4_opt_ok (pr_rssi r) \<and>
     int4_opt_ok (pr_score r) \<and> int4_opt_ok (pr_durationMS r) \<and> int2_opt_ok (pr_decodedType r)"

text \<open>\<^verbatim>\<open>COPY\<close> of the buffer: one statement, all rows or none.\<close>

fun copy_rows :: "env \<Rightarrow> (int \<times> packetRow) list \<Rightarrow> packet_row list option" where
  "copy_rows E [] = Some []"
| "copy_rows E ((i, r) # rs) =
     (case numeric_opt (q62 E) (pr_snr r) of
        None \<Rightarrow> None
      | Some snr \<Rightarrow>
          if \<not> packet_row_ok r then None
          else map_option (Cons (packet_columns i r snr)) (copy_rows E rs))"

definition packets_copy :: "env \<Rightarrow> int list \<Rightarrow> packetRow list \<Rightarrow> db \<Rightarrow> err + db" where
  "packets_copy E ids rows d =
     (case copy_rows E (zip ids rows) of
        None \<Rightarrow> Inl (ConstraintError ''packet_observations'')
      | Some xs \<Rightarrow> Inr (d\<lparr>t_packet_observations := t_packet_observations d @ xs\<rparr>))"

definition PacketObservations_Flush ::
  "env \<Rightarrow> PacketObservations \<Rightarrow> tx \<Rightarrow> PacketObservations \<times> (err + tx)" where
  "PacketObservations_Flush E s t =
     (if pk_buf s = [] then (s, Inr t)
      else
        let n = length (pk_buf s); ids = drawn_ids n (tables t) in
        case exec (nextvals n) t of
          Inl e \<Rightarrow> (s, Inl e)
        | Inr t1 \<Rightarrow>
            (case exec (packets_copy E ids (pk_buf s)) t1 of
               Inl e \<Rightarrow> (s, Inl e)
             | Inr t2 \<Rightarrow> (s\<lparr>pk_count := int n\<rparr>, Inr t2)))"

definition PacketObservations_Notify ::
  "env \<Rightarrow> PacketObservations \<Rightarrow> pool \<Rightarrow> PacketObservations \<times> pool" where
  "PacketObservations_Notify E s pl =
     (if pk_count s = 0 then (s, pl)
      else (s, snd (Publish ChannelPackets
        [(''count'', PInt (pk_count s)),
         (''observers'', PTexts (map (\<lambda>(k, _). hex_encode k) (go_range (range_of E) (pk_touched s))))] pl)))"

definition PacketObservations_Evict :: "time \<Rightarrow> PacketObservations \<Rightarrow> PacketObservations" where
  "PacketObservations_Evict hwm s = s\<lparr>pk_buf := [], pk_touched := [], pk_count := 0\<rparr>"

definition PacketObservations_Clear :: "PacketObservations \<Rightarrow> PacketObservations" where
  "PacketObservations_Clear s = s\<lparr>pk_buf := [], pk_touched := [], pk_count := 0\<rparr>"

section \<open>What the table is a function of\<close>

definition packet_events :: "Event list \<Rightarrow> (Event \<times> PacketPayload) list" where
  "packet_events hist = List.map_filter (\<lambda>e. map_option (Pair e) (packet_of e)) hist"

text \<open>The row of a packet event, up to its generated id.\<close>

definition packet_spec :: "env \<Rightarrow> Event \<times> PacketPayload \<Rightarrow> packet_row" where
  "packet_spec E x = (case x of (e, p) \<Rightarrow>
     packet_columns 0 (new_packetRow e p) (Option.bind (pp_SNR p) (q62 E)))"

definition packets_ok :: "env \<Rightarrow> Event list \<Rightarrow> packet_row list \<times> int \<Rightarrow> bool" where
  "packets_ok E hist tab \<longleftrightarrow> (case tab of (rows, sq) \<Rightarrow>
     map (po_id_update (\<lambda>_. 0)) rows = map (packet_spec E) (packet_events hist) \<and>
     sorted_wrt (<) (map po_id rows) \<and> (\<forall>r \<in> set rows. po_id r \<le> sq))"

definition packets_sync ::
  "env \<Rightarrow> Event list \<Rightarrow> Event list \<Rightarrow> PacketObservations \<Rightarrow> packet_row list \<times> int \<Rightarrow> bool" where
  "packets_sync E hist es s tab \<longleftrightarrow> packets_ok E hist tab \<and>
     pk_buf s = map (\<lambda>(e, p). new_packetRow e p) (packet_events es) \<and> pk_count s = 0 \<and>
     distinct (map fst (pk_touched s)) \<and>
     fst ` set (pk_touched s) = ev_ObserverID ` fst ` set (packet_events es)"

text \<open>What the later stages read of the table: when, by whom and which packet.\<close>

definition packets_seen :: "Event list \<Rightarrow> db \<Rightarrow> bool" where
  "packets_seen hist d \<longleftrightarrow>
     map (\<lambda>r. (po_ts r, po_observer_id r, po_packet_hash r)) (t_packet_observations d) =
     map (\<lambda>(e, p). (ev_TS e, ev_ObserverID e, pp_PacketHash p)) (packet_events hist)"

section \<open>Proofs\<close>

lemma packet_events_append [simp]: "packet_events (xs @ ys) = packet_events xs @ packet_events ys"
  by (simp add: packet_events_def List.map_filter_def)

lemma packet_events_Nil [simp]: "packet_events [] = []"
  by (simp add: packet_events_def List.map_filter_def)

lemma packet_events_single:
  "packet_events [e] = (case packet_of e of None \<Rightarrow> [] | Some p \<Rightarrow> [(e, p)])"
  by (simp add: packet_events_def List.map_filter_def split: option.splits)

lemma PacketObservations_Apply_sync:
  "packets_sync E hist es s tab \<Longrightarrow> packets_sync E hist (es @ [e]) (PacketObservations_Apply e s) tab"
  by (cases "ev_Payload e")
    (auto simp: packets_sync_def PacketObservations_Apply_def packet_events_single distinct_update
      dom_update image_iff)

lemma copy_rows_ids: "copy_rows E irs = Some xs \<Longrightarrow> map po_id xs = map fst irs"
  by (induction irs arbitrary: xs rule: copy_rows.induct)
    (auto simp: packet_columns_def split: option.splits if_splits)

lemma copy_rows_spec:
  "copy_rows E (zip ids (map (\<lambda>(e, p). new_packetRow e p) ys)) = Some xs \<Longrightarrow> length ids = length ys \<Longrightarrow>
    map (po_id_update (\<lambda>_. 0)) xs = map (packet_spec E) ys"
proof (induction ys arbitrary: ids xs)
  case (Cons y ys)
  obtain i ids' where i: "ids = i # ids'" using Cons.prems(2) by (cases ids) auto
  obtain e p where y: "y = (e, p)" by force
  from Cons.prems(1) obtain snr xs' where
    snr: "numeric_opt (q62 E) (pr_snr (new_packetRow e p)) = Some snr"
    and xs: "copy_rows E (zip ids' (map (\<lambda>(e, p). new_packetRow e p) ys)) = Some xs'"
      "xs = packet_columns i (new_packetRow e p) snr # xs'"
    by (auto simp: i y split: option.splits if_splits)
  have "snr = Option.bind (pp_SNR p) (q62 E)"
    using snr by (auto simp: numeric_opt_def new_packetRow_def split: option.splits)
  then show ?case using Cons.IH [OF xs(1)] Cons.prems(2) i y xs(2)
    by (simp add: packet_spec_def packet_columns_def)
qed simp

lemma drawn_ids_sorted: "sorted_wrt (<) (drawn_ids n d)"
  by (simp add: drawn_ids_def sorted_wrt_iff_nth_less)

lemma drawn_ids_range: "i \<in> set (drawn_ids n d) \<Longrightarrow>
    t_packet_observations_seq d < i \<and> i \<le> t_packet_observations_seq d + int n"
  by (auto simp: drawn_ids_def)

lemma length_drawn_ids [simp]: "length (drawn_ids n d) = n"
  by (simp add: drawn_ids_def)

abbreviation packets_tab :: "db \<Rightarrow> packet_row list \<times> int" where
  "packets_tab d \<equiv> (t_packet_observations d, t_packet_observations_seq d)"

abbreviation packets_put :: "packet_row list \<times> int \<Rightarrow> db \<Rightarrow> db" where
  "packets_put x d \<equiv> d\<lparr>t_packet_observations := fst x, t_packet_observations_seq := snd x\<rparr>"

lemma PacketObservations_Flush_cases:
  assumes "PacketObservations_Flush E s t = (s', Inr t')"
  shows "pk_buf s = [] \<and> s' = s \<and> t' = t \<or>
    pk_buf s \<noteq> [] \<and> s' = s\<lparr>pk_count := int (length (pk_buf s))\<rparr> \<and>
    (\<exists>xs. copy_rows E (zip (drawn_ids (length (pk_buf s)) (tables t)) (pk_buf s)) = Some xs \<and>
       tables t' = packets_put (t_packet_observations (tables t) @ xs,
         t_packet_observations_seq (tables t) + int (length (pk_buf s))) (tables t))"
  using assms
  by (auto simp: PacketObservations_Flush_def Let_def exec_Inr nextvals_def packets_copy_def
      split: if_splits sum.splits option.splits)

lemma packets_ok_flush:
  assumes ok: "packets_ok E hist (packets_tab d)"
    and copy: "copy_rows E (zip (drawn_ids (length ys) d) (map (\<lambda>(e, p). new_packetRow e p) ys)) = Some xs"
  shows "packets_ok E hist' (t_packet_observations d @ xs, t_packet_observations_seq d + int (length ys))
    \<longleftrightarrow> map (packet_spec E) (packet_events hist') = map (packet_spec E) (packet_events hist @ ys)"
proof -
  have ids: "map po_id xs = drawn_ids (length ys) d"
    using copy_rows_ids [OF copy] by simp
  then have "r \<in> set xs \<Longrightarrow> po_id r \<in> set (drawn_ids (length ys) d)" for r
    by (metis image_eqI list.set_map)
  moreover have "map (po_id_update (\<lambda>_. 0)) xs = map (packet_spec E) ys"
    using copy by (rule copy_rows_spec) simp
  ultimately show ?thesis
    using ok drawn_ids_range [of _ "length ys" d] drawn_ids_sorted [of "length ys" d] ids
    by (fastforce simp: packets_ok_def sorted_wrt_append)
qed

lemma packets_ok_seen:
  assumes "packets_ok E hist (packets_tab d)" shows "packets_seen hist d"
proof -
  let ?view = "\<lambda>r. (po_ts r, po_observer_id r, po_packet_hash r)"
  have "map ?view (t_packet_observations d) = map ?view (map (po_id_update (\<lambda>_. 0)) (t_packet_observations d))"
    by simp
  also have "\<dots> = map ?view (map (packet_spec E) (packet_events hist))"
    using assms by (simp add: packets_ok_def)
  also have "\<dots> = map (\<lambda>(e, p). (ev_TS e, ev_ObserverID e, pp_PacketHash p)) (packet_events hist)"
    by (auto simp: packet_spec_def packet_columns_def new_packetRow_def)
  finally show ?thesis by (simp add: packets_seen_def)
qed

lemma PacketObservations_Flush_sync:
  assumes run: "PacketObservations_Flush E s t = (s', Inr t')"
    and sync: "packets_sync E hist es s (packets_tab (tables t))"
  shows "packets_ok E (hist @ es) (packets_tab (tables t'))"
    and "pk_count s' = int (length (packet_events es))" and "pk_touched s' = pk_touched s"
proof -
  note c = PacketObservations_Flush_cases [OF run]
  have buf: "pk_buf s = map (\<lambda>(e, p). new_packetRow e p) (packet_events es)"
    and ok: "packets_ok E hist (packets_tab (tables t))" and "pk_count s = 0"
    using sync by (auto simp: packets_sync_def)
  show "packets_ok E (hist @ es) (packets_tab (tables t'))"
  proof (cases "pk_buf s = []")
    case True
    then show ?thesis using c ok buf by (auto simp: packets_ok_def)
  next
    case False
    then obtain xs where "copy_rows E (zip (drawn_ids (length (packet_events es)) (tables t))
        (map (\<lambda>(e, p). new_packetRow e p) (packet_events es))) = Some xs"
      "tables t' = packets_put (t_packet_observations (tables t) @ xs,
         t_packet_observations_seq (tables t) + int (length (packet_events es))) (tables t)"
      using c buf by auto
    with packets_ok_flush [OF ok, of "packet_events es" xs "hist @ es"] show ?thesis by simp
  qed
  show "pk_count s' = int (length (packet_events es))" "pk_touched s' = pk_touched s"
    using c buf \<open>pk_count s = 0\<close> by auto
qed

interpretation packets_stage: stage packets_tab packets_put
  PacketObservations_Apply PacketObservations_Flush PacketObservations_Evict NewPacketObservations
  "\<lambda>_ _. True" "\<lambda>_. True" packets_ok packets_sync
proof unfold_locales
  fix E hist es and s :: PacketObservations and tab t s' t' h
  show "packets_ok E hist tab \<Longrightarrow> packets_sync E hist [] NewPacketObservations tab"
    by (simp add: packets_sync_def NewPacketObservations_def)
  show "packets_sync E hist [] s tab \<Longrightarrow> packets_ok E hist tab"
    by (simp add: packets_sync_def)
  assume f: "PacketObservations_Flush E s t = (s', Inr t')"
  show "\<exists>x. tables t' = packets_put x (tables t)"
    by (rule exI [of _ "packets_tab (tables t')"], use PacketObservations_Flush_cases [OF f] in fastforce)
  show "packets_sync E hist [] s' (packets_tab (tables t'))"
    if "packets_sync E hist [] s (packets_tab (tables t))"
    using PacketObservations_Flush_cases [OF f] that by (auto simp: packets_sync_def)
  show "packets_sync E (hist @ es) [] (PacketObservations_Evict h s') (packets_tab (tables t'))"
    if "packets_sync E hist es s (packets_tab (tables t))"
    using PacketObservations_Flush_sync [OF f that] by (simp add: packets_sync_def PacketObservations_Evict_def)
qed (auto intro: PacketObservations_Apply_sync)

section \<open>Properties\<close>

text \<open>C13 Every packet event of the log is exactly one row of \<^verbatim>\<open>packet_observations\<close>, in the
  order of the log, with all its fields, under strictly increasing ids.\<close>

theorem packets_function_of_log:
  assumes "packets_sync E hist [] s (packets_tab (tables t))" and "range_order (range_of E)"
    and "PacketObservations_Flush E (fold PacketObservations_Apply es s) t = (s', Inr t')"
  shows "packets_ok E (hist @ es) (packets_tab (tables t')) \<and>
    packets_sync E (hist @ es) [] (PacketObservations_Evict h s') (packets_tab (tables t'))"
  using packets_stage.batch_sync(1) [OF assms(3,2) _ _ assms(1)]
    packets_stage.flush_keeps_promise [OF assms(3,2) _ _ assms(1)]
  by (simp add: list_all_iff)

lemma packets_function_of_log_witness:
  "\<exists>s' t'. PacketObservations_Flush sample_env
      (fold PacketObservations_Apply [packet_event, second_packet] NewPacketObservations) sample_tx = (s', Inr t') \<and>
    packets_ok sample_env [packet_event, second_packet] (packets_tab (tables t'))"
proof -
  have "succeeds (PacketObservations_Flush sample_env
      (fold PacketObservations_Apply [packet_event, second_packet] NewPacketObservations) sample_tx)"
    by code_simp
  then obtain s' t' where r: "PacketObservations_Flush sample_env
      (fold PacketObservations_Apply [packet_event, second_packet] NewPacketObservations) sample_tx = (s', Inr t')"
    by (rule succeedsE)
  have "packets_sync sample_env [] [] NewPacketObservations (packets_tab (tables sample_tx))"
    by (rule packets_stage.fresh_sync) (simp add: packets_ok_def sample_tx_def empty_db_def)
  from packets_function_of_log [OF this sample_range r] r show ?thesis by auto
qed

end
