(* ===== verification/Stage_Unique.thy ===== *)
theory Stage_Unique
  imports Stage_Packets
begin

text \<open>
  The \<^verbatim>\<open>packets_unique\<close> stage (\<^verbatim>\<open>internal/project/stages/unique.go\<close>): one row per packet
  hash. The memory keeps the set of observers of the recent hashes; a hash touched again after
  its eviction (or after a restart) is rehydrated from \<^verbatim>\<open>packet_observations\<close>. The table is
  shown to be a function of the committed events, so \<^verbatim>\<open>observer_count\<close> is the number
  of distinct observers whatever was evicted in between.
\<close>

section \<open>Model\<close>

definition uniqueRetention :: duration where "uniqueRetention = hour"

record uniqueState =
  us_hash :: bytes
  us_firstSeen :: time
  us_lastSeen :: time
  us_packetType :: string
  us_route :: string
  us_decodedType :: "int option"
  us_sourcePrefix :: "bytes option"
  us_observers :: "(bytes, unit) gomap"
  us_loaded :: bool
  us_dirty :: bool

record PacketsUnique =
  un_state :: "(bytes, uniqueState) gomap"

definition NewPacketsUnique :: PacketsUnique where
  "NewPacketsUnique = \<lparr>un_state = []\<rparr>"

definition new_uniqueState :: "Event \<Rightarrow> bytes \<Rightarrow> uniqueState" where
  "new_uniqueState e h = \<lparr>us_hash = h, us_firstSeen = ev_TS e, us_lastSeen = ev_TS e,
     us_packetType = [], us_route = [], us_decodedType = None, us_sourcePrefix = None,
     us_observers = [], us_loaded = False, us_dirty = False\<rparr>"

definition update_uniqueState :: "Event \<Rightarrow> PacketPayload \<Rightarrow> uniqueState \<Rightarrow> uniqueState" where
  "update_uniqueState e p st = st\<lparr>
     us_firstSeen := (if ev_TS e < us_firstSeen st then ev_TS e else us_firstSeen st),
     us_lastSeen := (if ev_TS e > us_lastSeen st then ev_TS e else us_lastSeen st),
     us_packetType := (if pp_PacketType p \<noteq> [] then pp_PacketType p else us_packetType st),
     us_route := (if pp_Route p \<noteq> [] then pp_Route p else us_route st),
     us_decodedType := (if pp_DecodedType p \<noteq> None then pp_DecodedType p else us_decodedType st),
     us_sourcePrefix := (if 0 < slice_len (pp_SourcePrefix p) \<and> us_sourcePrefix st = None
                         then pp_SourcePrefix p else us_sourcePrefix st),
     us_observers := AList.update (ev_ObserverID e) () (us_observers st),
     us_dirty := True\<rparr>"

definition PacketsUnique_Apply :: "Event \<Rightarrow> PacketsUnique \<Rightarrow> PacketsUnique" where
  "PacketsUnique_Apply e s = (case ev_Payload e of
       KindStatus _ \<Rightarrow> s
     | KindPacket p \<Rightarrow>
         if slice_len (pp_PacketHash p) = 0 then s
         else
           let key = slice_key (pp_PacketHash p);
               st = (case map_of (un_state s) key of Some st \<Rightarrow> st | None \<Rightarrow> new_uniqueState e key)
           in s\<lparr>un_state := AList.update key (update_uniqueState e p st) (un_state s)\<rparr>)"

text \<open>
  \<^verbatim>\<open>rehydrateUnloaded\<close>: the pending hashes, the rows of the join (hash, observer, first
  sighting), and what a row does to the state of its hash. The order of the rows is the
  server's; the effect does not depend on it.
\<close>

definition unique_pending :: "env \<Rightarrow> PacketsUnique \<Rightarrow> bytes list" where
  "unique_pending E s = map (\<lambda>(k, st). us_hash st)
     (filter (\<lambda>(k, st). \<not> (us_loaded st \<or> \<not> us_dirty st)) (go_range (range_of E) (un_state s)))"

definition unique_history :: "bytes list \<Rightarrow> db \<Rightarrow> (bytes \<times> bytes \<times> time) list" where
  "unique_history pending d = List.map_filter (\<lambda>r. case po_packet_hash r of
       None \<Rightarrow> None
     | Some h \<Rightarrow> if h \<in> set pending
         then map_option (\<lambda>pu. (h, po_observer_id r, u_first_seen pu)) (map_of (t_packets_unique d) h)
         else None) (t_packet_observations d)"

definition rehydrate_uniqueState :: "bytes \<times> time \<Rightarrow> uniqueState \<Rightarrow> uniqueState" where
  "rehydrate_uniqueState = (\<lambda>(obs, first) st. st\<lparr>
     us_firstSeen := (if first < us_firstSeen st then first else us_firstSeen st),
     us_observers := AList.update obs () (us_observers st)\<rparr>)"

definition mark_loaded :: "uniqueState \<Rightarrow> uniqueState" where
  "mark_loaded st = (if \<not> us_loaded st \<and> us_dirty st then st\<lparr>us_loaded := True\<rparr> else st)"

definition rehydrateUnloaded :: "env \<Rightarrow> PacketsUnique \<Rightarrow> tx \<Rightarrow> PacketsUnique \<times> (err + tx)" where
  "rehydrateUnloaded E s t =
     (let pending = unique_pending E s in
      if pending = [] then (s, Inr t)
      else case query (unique_history pending) t of
             Inl e \<Rightarrow> (s, Inl e)
           | Inr (rows, t') \<Rightarrow>
               (s\<lparr>un_state := map (\<lambda>(k, st). (k, mark_loaded st)) (fold (alter rehydrate_uniqueState) rows (un_state s))\<rparr>, Inr t'))"

definition unique_excluded :: "uniqueState \<Rightarrow> unique_row" where
  "unique_excluded st = \<lparr>u_first_seen = us_firstSeen st, u_last_seen = us_lastSeen st,
     u_packet_type = us_packetType st, u_route = us_route st, u_decoded_type = us_decodedType st,
     u_source_prefix = us_sourcePrefix st, u_observer_count = int (length (us_observers st))\<rparr>"

definition unique_conflict :: "unique_row \<Rightarrow> unique_row \<Rightarrow> unique_row" where
  "unique_conflict old ex = \<lparr>
     u_first_seen = min (u_first_seen old) (u_first_seen ex),
     u_last_seen = max (u_last_seen old) (u_last_seen ex),
     u_packet_type = coalesce_text (u_packet_type ex) (u_packet_type old),
     u_route = coalesce_text (u_route ex) (u_route old),
     u_decoded_type = coalesce (u_decoded_type ex) (u_decoded_type old),
     u_source_prefix = coalesce (u_source_prefix old) (u_source_prefix ex),
     u_observer_count = u_observer_count ex\<rparr>"

definition unique_row_ok :: "uniqueState \<Rightarrow> bool" where
  "unique_row_ok st \<longleftrightarrow> text_ok (us_packetType st) \<and> text_ok (us_route st) \<and>
     int2_opt_ok (us_decodedType st) \<and> int4_ok (int (length (us_observers st)))"

definition unique_upsert :: "uniqueState \<Rightarrow> db \<Rightarrow> err + db" where
  "unique_upsert st d =
     (if \<not> unique_row_ok st then Inl (ConstraintError ''packets_unique'')
      else
        let ex = unique_excluded st;
            row = (case map_of (t_packets_unique d) (us_hash st) of
                     None \<Rightarrow> ex | Some old \<Rightarrow> unique_conflict old ex)
        in Inr (d\<lparr>t_packets_unique := AList.update (us_hash st) row (t_packets_unique d)\<rparr>))"

definition flush_uniqueState ::
  "bytes \<times> uniqueState \<Rightarrow> PacketsUnique \<Rightarrow> tx \<Rightarrow> PacketsUnique \<times> (err + tx)" where
  "flush_uniqueState = (\<lambda>(k, st) s t.
     if \<not> us_dirty st then (s, Inr t)
     else case exec (unique_upsert st) t of
            Inl e \<Rightarrow> (s, Inl e)
          | Inr t' \<Rightarrow> (s\<lparr>un_state := AList.update k (st\<lparr>us_dirty := False\<rparr>) (un_state s)\<rparr>, Inr t'))"

definition PacketsUnique_Flush :: "env \<Rightarrow> PacketsUnique \<Rightarrow> tx \<Rightarrow> PacketsUnique \<times> (err + tx)" where
  "PacketsUnique_Flush E s t =
     (case rehydrateUnloaded E s t of
        (s1, Inl e) \<Rightarrow> (s1, Inl e)
      | (s1, Inr t1) \<Rightarrow> for_each flush_uniqueState (go_range (range_of E) (un_state s1)) s1 t1)"

definition PacketsUnique_Evict :: "time \<Rightarrow> PacketsUnique \<Rightarrow> PacketsUnique" where
  "PacketsUnique_Evict hwm s =
     (let cutoff = hwm - uniqueRetention;
          kept = filter (\<lambda>(k, st). us_dirty st \<or> \<not> us_lastSeen st < cutoff) (un_state s)
      in s\<lparr>un_state := map (\<lambda>(k, st). (k, st\<lparr>us_dirty := False\<rparr>)) kept\<rparr>)"

definition PacketsUnique_Clear :: "PacketsUnique \<Rightarrow> PacketsUnique" where
  "PacketsUnique_Clear s = s\<lparr>un_state := []\<rparr>"

section \<open>What the table is a function of\<close>

definition unique_events :: "Event list \<Rightarrow> bytes \<Rightarrow> (Event \<times> PacketPayload) list" where
  "unique_events hist k =
     filter (\<lambda>(e, p). k \<noteq> [] \<and> slice_key (pp_PacketHash p) = k) (packet_events hist)"

definition nonempty_slice :: "bytes option \<Rightarrow> bytes option" where
  "nonempty_slice b = (if 0 < slice_len b then b else None)"

definition unique_spec :: "(Event \<times> PacketPayload) list \<Rightarrow> unique_row" where
  "unique_spec xs = \<lparr>
     u_first_seen = earliest (map (ev_TS \<circ> fst) xs),
     u_last_seen = latest (map (ev_TS \<circ> fst) xs),
     u_packet_type = last_text (map (pp_PacketType \<circ> snd) xs),
     u_route = last_text (map (pp_Route \<circ> snd) xs),
     u_decoded_type = last_some (map (pp_DecodedType \<circ> snd) xs),
     u_source_prefix = first_some (map (nonempty_slice \<circ> pp_SourcePrefix \<circ> snd) xs),
     u_observer_count = int (card (ev_ObserverID ` fst ` set xs))\<rparr>"

definition unique_ok :: "env \<Rightarrow> Event list \<Rightarrow> (bytes, unique_row) pgtable \<Rightarrow> bool" where
  "unique_ok E hist tab \<longleftrightarrow> distinct (map fst tab) \<and>
     (\<forall>k. map_of tab k =
        (if unique_events hist k = [] then None else Some (unique_spec (unique_events hist k))))"

text \<open>
  The state of a hash with the events \<open>tot\<close>, the last \<open>n\<close> of them in the current batch: it
  has seen the last \<open>length zs\<close> of them, and once loaded it knows all the observers.
\<close>

definition unique_entry ::
  "(Event \<times> PacketPayload) list \<Rightarrow> nat \<Rightarrow> bytes \<Rightarrow> uniqueState \<Rightarrow> bool" where
  "unique_entry tot n k st \<longleftrightarrow>
     us_hash st = k \<and> us_dirty st = (0 < n) \<and> distinct (map fst (us_observers st)) \<and>
     (\<exists>ys zs. tot = ys @ zs \<and> zs \<noteq> [] \<and> n \<le> length zs \<and>
        earliest (map (ev_TS \<circ> fst) tot) \<le> us_firstSeen st \<and>
        us_firstSeen st \<le> earliest (map (ev_TS \<circ> fst) zs) \<and>
        us_lastSeen st = latest (map (ev_TS \<circ> fst) zs) \<and>
        us_packetType st = last_text (map (pp_PacketType \<circ> snd) zs) \<and>
        us_route st = last_text (map (pp_Route \<circ> snd) zs) \<and>
        us_decodedType st = last_some (map (pp_DecodedType \<circ> snd) zs) \<and>
        us_sourcePrefix st = first_some (map (nonempty_slice \<circ> pp_SourcePrefix \<circ> snd) zs) \<and>
        (if us_loaded st then fst ` set (us_observers st) = ev_ObserverID ` fst ` set tot
         else length zs = n \<and> fst ` set (us_observers st) = ev_ObserverID ` fst ` set zs))"

definition unique_sync ::
  "env \<Rightarrow> Event list \<Rightarrow> Event list \<Rightarrow> PacketsUnique \<Rightarrow> (bytes, unique_row) pgtable \<Rightarrow> bool" where
  "unique_sync E hist es s tab \<longleftrightarrow> unique_ok E hist tab \<and> distinct (map fst (un_state s)) \<and>
     (\<forall>k. unique_events es k \<noteq> [] \<longrightarrow> map_of (un_state s) k \<noteq> None) \<and>
     (\<forall>k st. map_of (un_state s) k = Some st \<longrightarrow>
        unique_entry (unique_events (hist @ es) k) (length (unique_events es k)) k st)"

section \<open>Applying an event\<close>

lemma unique_events_append [simp]:
  "unique_events (xs @ ys) k = unique_events xs k @ unique_events ys k"
  by (simp add: unique_events_def)

lemma unique_events_Nil [simp]: "unique_events [] k = []"
  by (simp add: unique_events_def)

lemma unique_events_single:
  "unique_events [e] k = (case packet_of e of
     None \<Rightarrow> [] | Some p \<Rightarrow> if k \<noteq> [] \<and> slice_key (pp_PacketHash p) = k then [(e, p)] else [])"
  by (simp add: unique_events_def packet_events_single split: option.splits)

lemma update_sourcePrefix:
  "(if 0 < slice_len b \<and> s = None then b else s) = coalesce s (nonempty_slice b)"
  by (auto simp: coalesce_def nonempty_slice_def split: option.splits)

lemma earliest_le: "xs \<noteq> [] \<Longrightarrow> earliest (ys @ xs) \<le> earliest xs"
  by (cases "ys = []") (auto simp: earliest_append)

text \<open>The columns of a state that has seen \<open>zs\<close>.\<close>

definition unique_columns :: "(Event \<times> PacketPayload) list \<Rightarrow> uniqueState \<Rightarrow> bool" where
  "unique_columns zs st \<longleftrightarrow>
     us_lastSeen st = latest (map (ev_TS \<circ> fst) zs) \<and>
     us_packetType st = last_text (map (pp_PacketType \<circ> snd) zs) \<and>
     us_route st = last_text (map (pp_Route \<circ> snd) zs) \<and>
     us_decodedType st = last_some (map (pp_DecodedType \<circ> snd) zs) \<and>
     us_sourcePrefix st = first_some (map (nonempty_slice \<circ> pp_SourcePrefix \<circ> snd) zs)"

abbreviation first_ts :: "(Event \<times> PacketPayload) list \<Rightarrow> time" where
  "first_ts xs \<equiv> earliest (map (ev_TS \<circ> fst) xs)"

abbreviation heard_by :: "(Event \<times> PacketPayload) list \<Rightarrow> bytes set" where
  "heard_by xs \<equiv> ev_ObserverID ` fst ` set xs"

lemma unique_entry_alt:
  "unique_entry tot n k st \<longleftrightarrow>
     us_hash st = k \<and> us_dirty st = (0 < n) \<and> distinct (map fst (us_observers st)) \<and>
     (\<exists>ys zs. tot = ys @ zs \<and> zs \<noteq> [] \<and> n \<le> length zs \<and> unique_columns zs st \<and>
        first_ts tot \<le> us_firstSeen st \<and> us_firstSeen st \<le> first_ts zs \<and>
        (if us_loaded st then fst ` set (us_observers st) = heard_by tot
         else length zs = n \<and> fst ` set (us_observers st) = heard_by zs))"
  unfolding unique_entry_def unique_columns_def by (simp only: conj_assoc conj_left_commute conj_commute)

lemma unique_entryI:
  assumes "us_hash st = k" "us_dirty st = (0 < n)" "distinct (map fst (us_observers st))"
    and "tot = ys @ zs" "zs \<noteq> []" "n \<le> length zs" "unique_columns zs st"
    and "first_ts tot \<le> us_firstSeen st" "us_firstSeen st \<le> first_ts zs"
    and "if us_loaded st then fst ` set (us_observers st) = heard_by tot
      else length zs = n \<and> fst ` set (us_observers st) = heard_by zs"
  shows "unique_entry tot n k st"
  unfolding unique_entry_alt using assms by blast

lemma unique_entryE:
  assumes "unique_entry tot n k st"
  obtains ys zs where "us_hash st = k" "us_dirty st = (0 < n)" "distinct (map fst (us_observers st))"
    and "tot = ys @ zs" "zs \<noteq> []" "n \<le> length zs" "unique_columns zs st"
    and "first_ts tot \<le> us_firstSeen st" "us_firstSeen st \<le> first_ts zs"
    and "us_loaded st \<Longrightarrow> fst ` set (us_observers st) = heard_by tot"
    and "\<not> us_loaded st \<Longrightarrow> length zs = n"
    and "\<not> us_loaded st \<Longrightarrow> fst ` set (us_observers st) = heard_by zs"
proof -
  from assms obtain ys zs where "us_hash st = k" "us_dirty st = (0 < n)" "distinct (map fst (us_observers st))"
    and "tot = ys @ zs" "zs \<noteq> []" "n \<le> length zs" "unique_columns zs st"
    and "first_ts tot \<le> us_firstSeen st" "us_firstSeen st \<le> first_ts zs"
    and "if us_loaded st then fst ` set (us_observers st) = heard_by tot
      else length zs = n \<and> fst ` set (us_observers st) = heard_by zs"
    unfolding unique_entry_alt by blast
  then show ?thesis by (intro that [of ys zs]) simp_all
qed

lemma update_uniqueState_fields [simp]:
  "us_hash (update_uniqueState e p st) = us_hash st"
  "us_dirty (update_uniqueState e p st)"
  "us_loaded (update_uniqueState e p st) = us_loaded st"
  "us_firstSeen (update_uniqueState e p st) = min (ev_TS e) (us_firstSeen st)"
  "us_observers (update_uniqueState e p st) = AList.update (ev_ObserverID e) () (us_observers st)"
  by (auto simp: update_uniqueState_def)

lemma unique_columns_snoc:
  "unique_columns zs st \<Longrightarrow> zs \<noteq> [] \<Longrightarrow> unique_columns (zs @ [(e, p)]) (update_uniqueState e p st)"
  unfolding unique_columns_def update_uniqueState_def update_sourcePrefix go_simps
  by (simp add: agg_append)

lemma unique_columns_first: "unique_columns [(e, p)] (update_uniqueState e p (new_uniqueState e k))"
  unfolding unique_columns_def update_uniqueState_def update_sourcePrefix go_simps
  by (simp add: new_uniqueState_def coalesce_text_def sql_simps)

lemma new_unique_entry:
  "unique_entry (ys @ [(e, p)]) 1 k (update_uniqueState e p (new_uniqueState e k))"
  using earliest_le [of "[ev_TS e]" "map (ev_TS \<circ> fst) ys"]
  by (intro unique_entryI [where ys = ys and zs = "[(e, p)]"] unique_columns_first)
    (simp_all add: new_uniqueState_def)

lemma first_ts_snoc: "xs \<noteq> [] \<Longrightarrow> first_ts (xs @ [(e, p)]) = min (first_ts xs) (ev_TS e)"
  by (simp add: earliest_append)

lemma unique_entry_snoc:
  assumes "unique_entry tot n k st"
  shows "unique_entry (tot @ [(e, p)]) (Suc n) k (update_uniqueState e p st)"
proof -
  from assms obtain ys zs where z: "tot = ys @ zs" "zs \<noteq> []" "n \<le> length zs" "unique_columns zs st"
    and t: "first_ts tot \<le> us_firstSeen st" "us_firstSeen st \<le> first_ts zs"
    and o': "if us_loaded st then fst ` set (us_observers st) = heard_by tot
      else length zs = n \<and> fst ` set (us_observers st) = heard_by zs"
    by (auto simp: unique_entry_alt)
  have "first_ts (tot @ [(e, p)]) \<le> min (ev_TS e) (us_firstSeen st)"
    "min (ev_TS e) (us_firstSeen st) \<le> first_ts (zs @ [(e, p)])"
    using t z(1,2) first_ts_snoc [of tot e p] first_ts_snoc [of zs e p] by auto
  moreover have "unique_columns (zs @ [(e, p)]) (update_uniqueState e p st)"
    using z by (simp add: unique_columns_snoc)
  moreover have "distinct (map fst (AList.update (ev_ObserverID e) () (us_observers st)))" "us_hash st = k"
    using assms by (auto simp: unique_entry_alt distinct_update)
  moreover have "if us_loaded st
      then fst ` set (AList.update (ev_ObserverID e) () (us_observers st)) = heard_by (tot @ [(e, p)])
      else length (zs @ [(e, p)]) = Suc n \<and>
        fst ` set (AList.update (ev_ObserverID e) () (us_observers st)) = heard_by (zs @ [(e, p)])"
    using o' by (simp add: dom_update split: if_splits)
  ultimately show ?thesis
    using z by (intro unique_entryI [where ys = ys and zs = "zs @ [(e, p)]"]) (simp_all split: if_splits)
qed

lemma PacketsUnique_Apply_sync:
  assumes "unique_sync E hist es s tab"
  shows "unique_sync E hist (es @ [e]) (PacketsUnique_Apply e s) tab"
proof (cases "\<exists>p. packet_of e = Some p \<and> slice_len (pp_PacketHash p) \<noteq> 0")
  case False
  then have "PacketsUnique_Apply e s = s" and "unique_events [e] k = []" for k
    by (auto simp: PacketsUnique_Apply_def payload_of_iff unique_events_single slice_len_def
        slice_key_def split: EventPayload.splits option.splits)
  with assms show ?thesis by (simp add: unique_sync_def del: map_of_eq_Some_iff)
next
  case True
  then obtain p where p: "ev_Payload e = KindPacket p" "slice_len (pp_PacketHash p) \<noteq> 0"
    by (auto simp: payload_of_iff)
  define k0 where "k0 = slice_key (pp_PacketHash p)"
  have k0: "k0 \<noteq> []" using p(2) by (auto simp: k0_def slice_len_def split: option.splits)
  have ev: "unique_events [e] k = (if k = k0 then [(e, p)] else [])" for k
    using p k0 by (auto simp: unique_events_single k0_def)
  let ?st = "case map_of (un_state s) k0 of Some st \<Rightarrow> st | None \<Rightarrow> new_uniqueState e k0"
  have s': "PacketsUnique_Apply e s =
      s\<lparr>un_state := AList.update k0 (update_uniqueState e p ?st) (un_state s)\<rparr>"
    using p unfolding k0_def by (simp add: PacketsUnique_Apply_def Let_def)
  have "unique_entry (unique_events (hist @ es) k0 @ [(e, p)]) (Suc (length (unique_events es k0))) k0
      (update_uniqueState e p ?st)"
  proof (cases "map_of (un_state s) k0")
    case None
    then have "unique_events es k0 = []" using assms by (auto simp: unique_sync_def)
    then show ?thesis using None new_unique_entry k0 by simp
  next
    case (Some st)
    then have "unique_entry (unique_events (hist @ es) k0) (length (unique_events es k0)) k0 st"
      using assms unfolding unique_sync_def by blast
    from unique_entry_snoc [OF this] Some show ?thesis by simp
  qed
  with assms show ?thesis
    by (simp add: unique_sync_def s' ev distinct_update update_conv' del: map_of_eq_Some_iff)
qed

section \<open>Rehydration\<close>

lemma rehydrate_uniqueState_fields [simp]:
  "us_hash (rehydrate_uniqueState x st) = us_hash st"
  "us_dirty (rehydrate_uniqueState x st) = us_dirty st"
  "us_loaded (rehydrate_uniqueState x st) = us_loaded st"
  "us_firstSeen (rehydrate_uniqueState x st) = min (snd x) (us_firstSeen st)"
  "us_observers (rehydrate_uniqueState x st) = AList.update (fst x) () (us_observers st)"
  "unique_columns zs (rehydrate_uniqueState x st) = unique_columns zs st"
  by (auto simp: rehydrate_uniqueState_def unique_columns_def split: prod.splits)

lemma fold_rehydrate_uniqueState [simp]:
  "us_hash (fold rehydrate_uniqueState xs st) = us_hash st"
  "us_dirty (fold rehydrate_uniqueState xs st) = us_dirty st"
  "us_loaded (fold rehydrate_uniqueState xs st) = us_loaded st"
  "distinct (map fst (us_observers st)) \<Longrightarrow>
    distinct (map fst (us_observers (fold rehydrate_uniqueState xs st)))"
  "fst ` set (us_observers (fold rehydrate_uniqueState xs st)) =
    fst ` set (us_observers st) \<union> fst ` set xs"
  "unique_columns zs (fold rehydrate_uniqueState xs st) = unique_columns zs st"
  by (induction xs arbitrary: st) (simp_all add: distinct_update dom_update)

lemma fold_rehydrate_firstSeen:
  "us_firstSeen (fold rehydrate_uniqueState xs st) \<le> us_firstSeen st"
  "(\<And>x. x \<in> set xs \<Longrightarrow> c \<le> snd x) \<Longrightarrow> c \<le> us_firstSeen st \<Longrightarrow>
    c \<le> us_firstSeen (fold rehydrate_uniqueState xs st)"
proof (induction xs arbitrary: st)
  case (Cons x xs)
  {
    case 1
    then show ?case using Cons.IH(1) [of "rehydrate_uniqueState x st"] by simp
  next
    case 2
    then show ?case using Cons.IH(2) [of "rehydrate_uniqueState x st"] by simp
  }
qed simp_all

text \<open>
  The rows that a pending hash gets: nothing when it is new to the table, otherwise all the
  observers of the log, with the first sighting of the table.
\<close>

lemma unique_history_rows:
  assumes seen: "packets_seen hist d" and k: "k \<in> set pending" "k \<noteq> []"
  shows "map snd (filter (\<lambda>r. fst r = k) (unique_history pending d)) =
    (case map_of (t_packets_unique d) k of None \<Rightarrow> []
     | Some pu \<Rightarrow> map (\<lambda>(e, p). (ev_ObserverID e, u_first_seen pu)) (unique_events hist k))"
proof -
  define row where "row = (\<lambda>(t :: time, obs :: bytes, h). case h of None \<Rightarrow> None
    | Some h \<Rightarrow> if h \<in> set pending
        then map_option (\<lambda>pu. (h, obs, u_first_seen pu)) (map_of (t_packets_unique d) h) else None)"
  have "unique_history pending d = List.map_filter row
      (map (\<lambda>r. (po_ts r, po_observer_id r, po_packet_hash r)) (t_packet_observations d))"
    by (simp add: unique_history_def row_def List.map_filter_def comp_def filter_map)
  also have "\<dots> = List.map_filter row (map (\<lambda>(e, p). (ev_TS e, ev_ObserverID e, pp_PacketHash p)) (packet_events hist))"
    using seen by (simp add: packets_seen_def)
  finally have h: "unique_history pending d = \<dots>" .
  have "map snd (filter (\<lambda>r. fst r = k)
      (List.map_filter row (map (\<lambda>(e, p). (ev_TS e, ev_ObserverID e, pp_PacketHash p)) xs))) =
    (case map_of (t_packets_unique d) k of None \<Rightarrow> []
     | Some pu \<Rightarrow> map (\<lambda>(e, p). (ev_ObserverID e, u_first_seen pu))
         (filter (\<lambda>(e, p). k \<noteq> [] \<and> slice_key (pp_PacketHash p) = k) xs))"
    for xs :: "(Event \<times> PacketPayload) list"
  proof (induction xs)
    case (Cons x xs)
    obtain e p where x: "x = (e, p)" by (rule prod.exhaust)
    show ?case
    proof (cases "pp_PacketHash p")
      case None
      then show ?thesis using Cons k x by (simp add: row_def List.map_filter_simps split: option.splits)
    next
      case (Some h)
      then show ?thesis
        using Cons k x by (cases "h = k"; cases "map_of (t_packets_unique d) h")
          (auto simp: row_def List.map_filter_simps split: option.splits)
    qed
  qed (simp add: List.map_filter_simps split: option.splits)
  then show ?thesis unfolding h unique_events_def .
qed

text \<open>An unloaded state is one of this batch; once rehydrated it knows all the observers.\<close>

lemma unique_entry_unloaded: "unique_entry tot n k st \<Longrightarrow> \<not> us_loaded st \<Longrightarrow> us_dirty st \<and> us_hash st = k"
  by (auto simp: unique_entry_alt)

lemma unique_entry_key: "unique_entry (unique_events hist k) n k st \<Longrightarrow> k \<noteq> []"
  by (auto simp: unique_entry_alt unique_events_def)

lemma unique_entry_rehydrated:
  assumes entry: "unique_entry (A @ B) (length B) k st" "\<not> us_loaded st"
    and rows: "rows = (if A = [] then [] else map (\<lambda>(e, p). (ev_ObserverID e, first_ts A)) A)"
  shows "unique_entry (A @ B) (length B) k (mark_loaded (fold rehydrate_uniqueState rows st))"
    and "us_loaded (mark_loaded (fold rehydrate_uniqueState rows st))"
proof -
  let ?st = "fold rehydrate_uniqueState rows st"
  obtain ys zs where h: "us_hash st = k" "us_dirty st = (0 < length B)" "distinct (map fst (us_observers st))"
    and z: "A @ B = ys @ zs" "zs \<noteq> []" "unique_columns zs st"
    and t: "first_ts (A @ B) \<le> us_firstSeen st" "us_firstSeen st \<le> first_ts zs"
    and l: "length zs = length B" "fst ` set (us_observers st) = heard_by zs"
    using unique_entryE [OF entry(1)] entry(2) by metis
  have st: "us_hash st = k" "us_dirty st" "B \<noteq> []" "distinct (map fst (us_observers st))"
    using h z(2) l(1) by auto
  have zs: "zs = B" "ys = A" using z l(1) by auto
  have m: "us_loaded (mark_loaded ?st)" "us_dirty (mark_loaded ?st)" "us_hash (mark_loaded ?st) = k"
    "us_firstSeen (mark_loaded ?st) = us_firstSeen ?st" "us_observers (mark_loaded ?st) = us_observers ?st"
    "unique_columns B (mark_loaded ?st)"
    using st z(3) zs fold_rehydrate_uniqueState(6) [of B rows st]
    by (auto simp: mark_loaded_def unique_columns_def)
  show "us_loaded (mark_loaded ?st)" by (rule m)
  have "A \<noteq> [] \<Longrightarrow> first_ts (A @ B) \<le> first_ts A"
    using st(3) by (simp add: earliest_append)
  then have lo: "first_ts (A @ B) \<le> us_firstSeen ?st"
    using t(1) rows by (intro fold_rehydrate_firstSeen) (auto split: if_splits)
  have hi: "us_firstSeen ?st \<le> first_ts B"
    using fold_rehydrate_firstSeen(1) [of rows st] t(2) zs by simp
  have "fst ` set rows = heard_by A"
    unfolding rows by (simp add: image_image case_prod_beta image_Un)
  then have "fst ` set (us_observers ?st) = heard_by (A @ B)"
    using l(2) zs by auto
  then show "unique_entry (A @ B) (length B) k (mark_loaded ?st)"
    using m st lo hi by (intro unique_entryI [where ys = A and zs = B]) simp_all
qed

text \<open>All the states complete in their observers, as the upserts need them.\<close>

definition unique_ready :: "Event list \<Rightarrow> Event list \<Rightarrow> PacketsUnique \<Rightarrow> bool" where
  "unique_ready hist es s \<longleftrightarrow> distinct (map fst (un_state s)) \<and>
     (\<forall>k. unique_events es k \<noteq> [] \<longrightarrow> map_of (un_state s) k \<noteq> None) \<and>
     (\<forall>k st. map_of (un_state s) k = Some st \<longrightarrow> us_loaded st \<and>
        unique_entry (unique_events (hist @ es) k) (length (unique_events es k)) k st)"

lemma unique_pending_set:
  "range_order (range_of E) \<Longrightarrow> set (unique_pending E s) =
    (\<lambda>(k, st). us_hash st) ` {(k, st) \<in> set (un_state s). \<not> us_loaded st \<and> us_dirty st}"
  by (auto simp: unique_pending_def)

lemma rehydrateUnloaded_ready:
  assumes run: "rehydrateUnloaded E s t = (s1, Inr t1)" and ord: "range_order (range_of E)"
    and seen: "packets_seen hist (tables t)"
    and sync: "unique_sync E hist es s (t_packets_unique (tables t))"
  shows "unique_ready hist es s1" and "tables t1 = tables t"
proof -
  let ?pending = "unique_pending E s" and ?tot = "unique_events (hist @ es)"
  let ?n = "\<lambda>k. length (unique_events es k)"
  have d: "distinct (map fst (un_state s))"
    and dom: "\<And>k. unique_events es k \<noteq> [] \<Longrightarrow> map_of (un_state s) k \<noteq> None"
    and entry: "\<And>k st. map_of (un_state s) k = Some st \<Longrightarrow> unique_entry (?tot k) (?n k) k st"
    and row: "\<And>k. map_of (t_packets_unique (tables t)) k =
      (if unique_events hist k = [] then None else Some (unique_spec (unique_events hist k)))"
    using sync by (auto simp: unique_sync_def unique_ok_def)
  have pending: "k \<in> set ?pending \<longleftrightarrow> (\<exists>st. map_of (un_state s) k = Some st \<and> \<not> us_loaded st)" for k
  proof -
    have "(k', st) \<in> set (un_state s) \<longleftrightarrow> map_of (un_state s) k' = Some st" for k' st
      using d by (simp add: map_of_eq_Some_iff)
    then have "k \<in> set ?pending \<longleftrightarrow> (\<exists>k' st. map_of (un_state s) k' = Some st \<and>
        \<not> us_loaded st \<and> us_dirty st \<and> us_hash st = k)"
      by (auto simp: unique_pending_set [OF ord])
    then show ?thesis using entry unique_entry_unloaded by metis
  qed
  show "tables t1 = tables t"
    using run by (auto simp: rehydrateUnloaded_def Let_def query_Inr split: if_splits sum.splits)
  show "unique_ready hist es s1"
  proof (cases "?pending = []")
    case True
    then have "us_loaded st" if "map_of (un_state s) k = Some st" for k st
      using pending [of k] that by auto
    moreover have "s1 = s" using run True by (simp add: rehydrateUnloaded_def)
    ultimately show ?thesis using d dom entry by (simp add: unique_ready_def del: map_of_eq_Some_iff)
  next
    case False
    define rows where "rows = unique_history ?pending (tables t)"
    have s1: "un_state s1 = map (\<lambda>(k, st). (k, mark_loaded st)) (fold (alter rehydrate_uniqueState) rows (un_state s))"
      using run False by (auto simp: rehydrateUnloaded_def Let_def query_Inr rows_def split: sum.splits)
    have m: "map_of (un_state s1) k = map_option (\<lambda>st. mark_loaded (fold rehydrate_uniqueState
        (map snd (filter (\<lambda>r. fst r = k) rows)) st)) (map_of (un_state s) k)" for k
      by (simp add: s1 map_of_map_values map_of_fold_alter option.map_comp comp_def)
    have "us_loaded st \<and> unique_entry (?tot k) (?n k) k st" if st: "map_of (un_state s1) k = Some st" for k st
    proof -
      from st m obtain st0 where st0: "map_of (un_state s) k = Some st0"
        and st_eq: "st = mark_loaded (fold rehydrate_uniqueState (map snd (filter (\<lambda>r. fst r = k) rows)) st0)"
        by auto
      have k: "k \<noteq> []" using entry [OF st0] unique_entry_key by blast
      show ?thesis
      proof (cases "us_loaded st0")
        case True
        then have "k \<notin> set ?pending" using pending [of k] st0 by simp
        then have "filter (\<lambda>r. fst r = k) rows = []"
          by (auto simp: rows_def unique_history_def List.map_filter_def filter_empty_conv
              split: option.splits if_splits)
        then show ?thesis using st_eq True entry [OF st0] by (simp add: mark_loaded_def)
      next
        case False
        then have "k \<in> set ?pending" using pending [of k] st0 by simp
        from unique_history_rows [OF seen this k]
        have "map snd (filter (\<lambda>r. fst r = k) rows) = (if unique_events hist k = [] then [] else
          map (\<lambda>(e, p). (ev_ObserverID e, first_ts (unique_events hist k))) (unique_events hist k))"
          unfolding rows_def row by (simp add: unique_spec_def)
        from unique_entry_rehydrated [OF _ False this] entry [OF st0]
        show ?thesis unfolding st_eq by simp
      qed
    qed
    moreover have "distinct (map fst (un_state s1))"
      using distinct_fold_alter [OF d] by (simp add: s1 comp_def case_prod_beta)
    ultimately show ?thesis using dom m by (simp add: unique_ready_def del: map_of_eq_Some_iff)
  qed
qed

section \<open>Flush\<close>

definition unique_newrow :: "uniqueState \<Rightarrow> unique_row option \<Rightarrow> unique_row" where
  "unique_newrow st old = (case old of
     None \<Rightarrow> unique_excluded st | Some row \<Rightarrow> unique_conflict row (unique_excluded st))"

abbreviation clean :: "uniqueState \<Rightarrow> uniqueState" where
  "clean st \<equiv> st\<lparr>us_dirty := False\<rparr>"

interpretation unique_loop: accum_loop t_packets_unique "\<lambda>x. t_packets_unique_update (\<lambda>_. x)"
  un_state "\<lambda>m. un_state_update (\<lambda>_. m)" us_dirty clean us_hash "\<lambda>_. unique_upsert"
  "\<lambda>_. unique_newrow" "\<lambda>_. unique_row_ok"
  by unfold_locales (auto simp: unique_upsert_def unique_newrow_def Let_def split: if_splits)

lemma flush_uniqueState_entry: "flush_uniqueState = unique_loop.flush_entry E"
  by (auto simp: flush_uniqueState_def unique_loop.flush_entry_def fun_eq_iff split: sum.splits)

lemma unique_newrow_spec:
  assumes entry: "unique_entry (A @ B) (length B) k st" and st: "us_loaded st" "B \<noteq> []"
  shows "unique_newrow st (if A = [] then None else Some (unique_spec A)) = unique_spec (A @ B)"
proof -
  obtain ys zs where k: "us_hash st = k" "distinct (map fst (us_observers st))"
    and z: "A @ B = ys @ zs" "zs \<noteq> []" "length B \<le> length zs" "unique_columns zs st"
    and t: "first_ts (A @ B) \<le> us_firstSeen st" "us_firstSeen st \<le> first_ts zs"
    and o': "fst ` set (us_observers st) = heard_by (A @ B)"
    using unique_entryE [OF entry] st(1) by metis
  obtain C where C: "zs = C @ B" "A = ys @ C"
    using z(1,3) by (auto simp: append_eq_append_conv2)
  have count: "int (length (us_observers st)) = int (card (heard_by (A @ B)))"
    using o' k(2) by (metis distinct_card length_map list.set_map)
  have cols: "unique_columns (C @ B) st" using z(4) C by simp
  have "unique_conflict (unique_spec A) (unique_excluded st) = unique_spec (A @ B)" if A: "A \<noteq> []"
  proof -
    have "us_firstSeen st \<le> first_ts B"
      using t(2) C st(2) earliest_le [of "map (ev_TS \<circ> fst) B" "map (ev_TS \<circ> fst) C"] by simp
    with A t(1) st(2) have first: "min (first_ts A) (us_firstSeen st) = first_ts (A @ B)"
      by (simp add: earliest_append)
    show ?thesis
      using cols count first A st(2)
        latest_overlap [of "map (ev_TS \<circ> fst) ys" "map (ev_TS \<circ> fst) C" "map (ev_TS \<circ> fst) B"]
      unfolding unique_conflict_def unique_excluded_def unique_spec_def unique_columns_def C(2)
      by (simp add: agg_overlap)
  qed
  moreover have "unique_excluded st = unique_spec (A @ B)" if A: "A = []"
  proof -
    have "us_firstSeen st = first_ts (A @ B)" using t C A by simp
    with cols count A C(2) show ?thesis
      by (simp add: unique_excluded_def unique_spec_def unique_columns_def)
  qed
  ultimately show ?thesis by (simp add: unique_newrow_def)
qed

lemma unique_columns_clean [simp]: "unique_columns zs (clean st) = unique_columns zs st"
  by (simp add: unique_columns_def)

lemma unique_entry_clean:
  assumes "unique_entry tot n k st" "us_loaded st" shows "unique_entry tot 0 k (clean st)"
proof -
  obtain ys zs where "us_hash st = k" "distinct (map fst (us_observers st))"
    "tot = ys @ zs" "zs \<noteq> []" "unique_columns zs st"
    "first_ts tot \<le> us_firstSeen st" "us_firstSeen st \<le> first_ts zs"
    "fst ` set (us_observers st) = heard_by tot"
    using unique_entryE [OF assms(1)] assms(2) by metis
  then show ?thesis
    using assms(2) by (intro unique_entryI [where ys = ys and zs = zs]) simp_all
qed

lemma PacketsUnique_Flush_sync:
  assumes run: "PacketsUnique_Flush E s t = (s', Inr t')" and ord: "range_order (range_of E)"
    and seen: "packets_seen hist (tables t)"
    and sync: "unique_sync E hist es s (t_packets_unique (tables t))"
  shows "unique_sync E (hist @ es) [] s' (t_packets_unique (tables t'))"
proof -
  let ?tab = "\<lambda>u. t_packets_unique (tables u)"
  from run obtain s1 t1 where r: "rehydrateUnloaded E s t = (s1, Inr t1)"
    and l: "for_each (unique_loop.flush_entry E) (go_range (range_of E) (un_state s1)) s1 t1 = (s', Inr t')"
    unfolding flush_uniqueState_entry [of E, symmetric]
    by (auto simp: PacketsUnique_Flush_def split: prod.splits sum.splits)
  note ready = rehydrateUnloaded_ready [OF r ord seen sync]
  have d: "distinct (map fst (un_state s1))" and dt: "distinct (map fst (?tab t1))"
    and dom: "\<And>k. unique_events es k \<noteq> [] \<Longrightarrow> map_of (un_state s1) k \<noteq> None"
    and entry: "\<And>k st. map_of (un_state s1) k = Some st \<Longrightarrow> us_loaded st \<and>
      unique_entry (unique_events hist k @ unique_events es k) (length (unique_events es k)) k st"
    and row: "\<And>k. map_of (?tab t1) k =
      (if unique_events hist k = [] then None else Some (unique_spec (unique_events hist k)))"
    using ready sync by (auto simp: unique_ready_def unique_sync_def unique_ok_def simp del: map_of_eq_Some_iff)
  have key: "us_hash st = k" if "map_of (un_state s1) k = Some st" for k st
    using entry [OF that] by (auto elim: unique_entryE)
  have inj: "\<forall>i a j b. map_of (un_state s1) i = Some a \<longrightarrow> map_of (un_state s1) j = Some b \<longrightarrow>
      us_hash a = us_hash b \<longrightarrow> i = j"
    using key by metis
  note loop = unique_loop.flush_entries [OF l ord d dt inj]
  have "map_of (?tab t') k =
      (if unique_events (hist @ es) k = [] then None else Some (unique_spec (unique_events (hist @ es) k)))" for k
  proof (cases "unique_events es k = []")
    case True
    have "map_of (?tab t') k = map_of (?tab t1) k"
    proof (rule loop(6), intro allI impI)
      show "us_hash a \<noteq> k" if "map_of (un_state s1) i = Some a" "us_dirty a" for i a
        using key [OF that(1)] entry [OF that(1)] that(2) True by (auto elim!: unique_entryE)
    qed
    then show ?thesis using row True by simp
  next
    case False
    then obtain st where st: "map_of (un_state s1) k = Some st" using dom by blast
    then have "us_dirty st" using entry [OF st] False by (auto elim!: unique_entryE)
    with loop(5) [OF st] key [OF st]
    have "map_of (?tab t') k = Some (unique_newrow st (map_of (?tab t1) k))" by simp
    moreover have "unique_newrow st (map_of (?tab t1) k) = unique_spec (unique_events hist k @ unique_events es k)"
      unfolding row using unique_newrow_spec entry [OF st] False by blast
    ultimately show ?thesis using False by simp
  qed
  moreover have "unique_entry (unique_events (hist @ es) k) 0 k st" if "map_of (un_state s') k = Some st" for k st
  proof -
    have "map_of (un_state s') k = map_option (\<lambda>a. if us_dirty a then clean a else a) (map_of (un_state s1) k)"
      by (rule loop(4))
    with that obtain st0 where st0: "map_of (un_state s1) k = Some st0"
      "st = (if us_dirty st0 then clean st0 else st0)"
      by (auto simp del: map_of_eq_Some_iff)
    then have "st = clean st0" by simp
    moreover have "unique_entry (unique_events (hist @ es) k) (length (unique_events es k)) k st0" "us_loaded st0"
      using entry [OF st0(1)] by auto
    ultimately show ?thesis using unique_entry_clean by blast
  qed
  ultimately show ?thesis
    using loop(1,2) by (simp add: unique_sync_def unique_ok_def del: map_of_eq_Some_iff)
qed

lemma PacketsUnique_Evict_sync:
  assumes "unique_sync E hist [] s tab" shows "unique_sync E hist [] (PacketsUnique_Evict h s) tab"
proof -
  have d: "distinct (map fst (un_state s))"
    and entry: "\<And>k st. map_of (un_state s) k = Some st \<Longrightarrow> unique_entry (unique_events hist k) 0 k st"
    using assms by (auto simp: unique_sync_def simp del: map_of_eq_Some_iff)
  let ?f = "filter (\<lambda>(k, st). us_dirty st \<or> \<not> us_lastSeen st < h - uniqueRetention) (un_state s)"
  have un: "un_state (PacketsUnique_Evict h s) = map (\<lambda>(k, st). (k, clean st)) ?f"
    by (simp add: PacketsUnique_Evict_def Let_def)
  have df: "distinct (map fst ?f)" using d by (simp add: distinct_map_filter)
  have "unique_entry (unique_events hist k) 0 k st"
    if "map_of (un_state (PacketsUnique_Evict h s)) k = Some st" for k st
  proof -
    from that obtain st0 where "map_of ?f k = Some st0" and st: "st = clean st0"
      unfolding un map_of_map_values by auto
    then have "map_of (un_state s) k = Some st0" using d df by auto
    from entry [OF this] have e: "unique_entry (unique_events hist k) 0 k st0" .
    then have "us_loaded st0" using unique_entry_unloaded [OF e] by (auto simp: unique_entry_alt)
    with e show ?thesis unfolding st by (rule unique_entry_clean)
  qed
  moreover have "distinct (map fst (un_state (PacketsUnique_Evict h s)))"
    using df by (simp add: un comp_def case_prod_beta)
  ultimately show ?thesis using assms by (simp add: unique_sync_def)
qed

lemma PacketsUnique_Flush_frame:
  assumes "PacketsUnique_Flush E s t = (s', Inr t')"
  shows "\<exists>x. tables t' = (tables t)\<lparr>t_packets_unique := x\<rparr>"
proof -
  from assms obtain s1 t1 where r: "rehydrateUnloaded E s t = (s1, Inr t1)"
    and l: "for_each (unique_loop.flush_entry E) (go_range (range_of E) (un_state s1)) s1 t1 = (s', Inr t')"
    unfolding flush_uniqueState_entry [of E, symmetric]
    by (auto simp: PacketsUnique_Flush_def split: prod.splits sum.splits)
  have "tables t1 = tables t"
    using r by (auto simp: rehydrateUnloaded_def Let_def query_Inr split: if_splits sum.splits)
  with unique_loop.flush_entries_frame [OF l] show ?thesis by simp
qed

interpretation unique_stage: stage t_packets_unique "\<lambda>x. t_packets_unique_update (\<lambda>_. x)"
  PacketsUnique_Apply PacketsUnique_Flush PacketsUnique_Evict NewPacketsUnique
  packets_seen "\<lambda>_. True" unique_ok unique_sync
proof unfold_locales
  fix E hist es and s :: PacketsUnique and tab t s' t' h
  show "unique_ok E hist tab \<Longrightarrow> unique_sync E hist [] NewPacketsUnique tab"
    by (simp add: unique_sync_def NewPacketsUnique_def)
  show "unique_sync E hist [] s tab \<Longrightarrow> unique_ok E hist tab"
    by (simp add: unique_sync_def)
  assume f: "PacketsUnique_Flush E s t = (s', Inr t')" "range_order (range_of E)"
  show "unique_sync E hist [] s' (t_packets_unique (tables t'))"
    if "packets_seen hist (tables t)" "unique_sync E hist [] s (t_packets_unique (tables t))"
    using PacketsUnique_Flush_sync [OF f, of hist "[]"] that by simp
  show "unique_sync E (hist @ es) [] (PacketsUnique_Evict h s') (t_packets_unique (tables t'))"
    if "packets_seen hist (tables t)" "unique_sync E hist es s (t_packets_unique (tables t))"
    by (rule PacketsUnique_Evict_sync [OF PacketsUnique_Flush_sync [OF f that]])
qed (auto intro: PacketsUnique_Apply_sync PacketsUnique_Flush_frame)

section \<open>Properties\<close>

text \<open>C9 The \<^verbatim>\<open>packets_unique\<close> table is a function of the committed events, and
  \<^verbatim>\<open>observer_count\<close> is the exact number of distinct observers of the packet, even when
  the hash was evicted from memory or the process restarted between two of its receptions.\<close>

theorem unique_function_of_log:
  assumes "unique_sync E hist [] s (t_packets_unique (tables t))" and "range_order (range_of E)"
    and "packets_seen hist (tables t)"
    and "PacketsUnique_Flush E (fold PacketsUnique_Apply es s) t = (s', Inr t')"
  shows "unique_ok E (hist @ es) (t_packets_unique (tables t')) \<and>
    unique_sync E (hist @ es) [] (PacketsUnique_Evict h s') (t_packets_unique (tables t'))"
  using unique_stage.batch_sync(1) [OF assms(4,2,3) _ assms(1)]
    unique_stage.flush_keeps_promise [OF assms(4,2,3) _ assms(1)]
  by (simp add: list_all_iff)

text \<open>The second observer's packet, with the memory lost after the first was committed.\<close>

definition unique_tx :: tx where
  "unique_tx = \<lparr>tables = empty_db\<lparr>
     t_packet_observations := [packet_columns 1 (new_packetRow packet_event sample_packet) None],
     t_packet_observations_seq := 1,
     t_packets_unique := [([1, 2], unique_spec [(packet_event, sample_packet)])]\<rparr>, fuse = None\<rparr>"

lemma unique_tx_ok: "unique_ok sample_env [packet_event] (t_packets_unique (tables unique_tx))"
  by (auto simp: unique_ok_def unique_tx_def unique_events_def packet_events_def List.map_filter_def
      packet_event_def sample_packet_def packet_of_def)

lemma unique_tx_seen: "packets_seen [packet_event] (tables unique_tx)"
  by code_simp

lemma unique_function_of_log_witness:
  "\<exists>s' t'. PacketsUnique_Flush sample_env (fold PacketsUnique_Apply [second_packet] NewPacketsUnique) unique_tx = (s', Inr t') \<and>
    unique_ok sample_env [packet_event, second_packet] (t_packets_unique (tables t'))"
proof -
  have "succeeds (PacketsUnique_Flush sample_env (fold PacketsUnique_Apply [second_packet] NewPacketsUnique) unique_tx)"
    by code_simp
  then obtain s' t' where
    r: "PacketsUnique_Flush sample_env (fold PacketsUnique_Apply [second_packet] NewPacketsUnique) unique_tx = (s', Inr t')"
    by (rule succeedsE)
  have s: "unique_sync sample_env [packet_event] [] NewPacketsUnique (t_packets_unique (tables unique_tx))"
    by (rule unique_stage.fresh_sync) (rule unique_tx_ok)
  from unique_function_of_log [OF s sample_range _ r] unique_tx_seen r show ?thesis by auto
qed

end
