(* ===== verification/Stage_Rollup_Observer.thy ===== *)
theory Stage_Rollup_Observer
  imports Stage_Packets Stage_Status
begin

text \<open>
  The \<^verbatim>\<open>rollup_observer_1m\<close> and \<^verbatim>\<open>rollup_observer_1h\<close> stages
  (\<^verbatim>\<open>internal/project/stages/rollup_observer.go\<close>): per observer and time bucket, the packet
  counters, the extremes of the signal strength, the number of distinct packets and a noise
  floor. An accumulator of an evicted bucket is rehydrated from its row and from
  \<^verbatim>\<open>packet_observations\<close>.

  The counters, the extremes and, in a bucket without an empty hash, the distinct count are shown
  to be functions of the committed events. A packet whose hash is empty but not nil, as the decoder
  makes one of \<^verbatim>\<open>"hash":"zz"\<close>, is left out of the distinct count by \<^verbatim>\<open>applyPacket\<close> and counted
  by \<^verbatim>\<open>loadHistoricalHashes\<close>: in such a bucket the count is the one of the log or one more,
  whichever the evictions and restarts made it. The averages are no functions of the log either (the
  rehydration weighs them by packets), so the specification states of them only when they are
  present; nor is the choice of the noise floor, of which it states that it is one of those reported
  in the bucket.
\<close>

section \<open>Model\<close>

record observerAccum =
  ac_observerID :: bytes
  ac_bucket :: time
  ac_packets :: int
  ac_uniquePkts :: "(bytes, unit) gomap"
  ac_floodPkts :: int
  ac_directPkts :: int
  ac_sumRSSI :: int
  ac_nRSSI :: int
  ac_minRSSI :: "int option"
  ac_maxRSSI :: "int option"
  ac_sumSNR :: f64
  ac_nSNR :: int
  ac_noiseFloor :: "int option"
  ac_noiseFloorTS :: time
  ac_loaded :: bool
  ac_dirty :: bool

type_synonym obsBucketKey = "bytes \<times> int"

record RollupObserver =
  rl_table :: string
  rl_bucketDur :: duration
  rl_retention :: duration
  rl_state :: "(obsBucketKey, observerAccum) gomap"

definition NewRollupObserver1m :: RollupObserver where
  "NewRollupObserver1m = \<lparr>rl_table = ''rollup_observer_1m'', rl_bucketDur = minute,
     rl_retention = hour, rl_state = []\<rparr>"

definition NewRollupObserver1h :: RollupObserver where
  "NewRollupObserver1h = \<lparr>rl_table = ''rollup_observer_1h'', rl_bucketDur = hour,
     rl_retention = 24 * hour, rl_state = []\<rparr>"

definition new_observerAccum :: "bytes \<Rightarrow> time \<Rightarrow> observerAccum" where
  "new_observerAccum observerID bucket = \<lparr>ac_observerID = observerID, ac_bucket = bucket,
     ac_packets = 0, ac_uniquePkts = [], ac_floodPkts = 0, ac_directPkts = 0, ac_sumRSSI = 0,
     ac_nRSSI = 0, ac_minRSSI = None, ac_maxRSSI = None, ac_sumSNR = Fin 0, ac_nSNR = 0,
     ac_noiseFloor = None, ac_noiseFloorTS = zero_time, ac_loaded = False, ac_dirty = False\<rparr>"

text \<open>\<^verbatim>\<open>touch\<close>: the key and the accumulator, allocated on the first touch.\<close>

definition rollup_key :: "bytes \<Rightarrow> time \<Rightarrow> obsBucketKey" where
  "rollup_key observerID bucket = (observerID, unix_nano bucket)"

definition rollup_touch :: "bytes \<Rightarrow> time \<Rightarrow> RollupObserver \<Rightarrow> observerAccum" where
  "rollup_touch observerID bucket s = (case map_of (rl_state s) (rollup_key observerID bucket) of
     Some acc \<Rightarrow> acc | None \<Rightarrow> new_observerAccum observerID bucket)"

definition rollup_store :: "bytes \<Rightarrow> time \<Rightarrow> observerAccum \<Rightarrow> RollupObserver \<Rightarrow> RollupObserver" where
  "rollup_store observerID bucket acc s =
     s\<lparr>rl_state := AList.update (rollup_key observerID bucket) acc (rl_state s)\<rparr>"

definition new_min :: "int option \<Rightarrow> int \<Rightarrow> int option" where
  "new_min m v = (case m of None \<Rightarrow> Some v | Some x \<Rightarrow> if v < x then Some v else m)"

definition new_max :: "int option \<Rightarrow> int \<Rightarrow> int option" where
  "new_max m v = (case m of None \<Rightarrow> Some v | Some x \<Rightarrow> if v > x then Some v else m)"

definition accum_packet :: "PacketPayload \<Rightarrow> observerAccum \<Rightarrow> observerAccum" where
  "accum_packet p acc =
     (let acc1 = acc\<lparr>ac_packets := ac_packets acc + 1,
            ac_uniquePkts := (if 0 < slice_len (pp_PacketHash p)
              then AList.update (slice_key (pp_PacketHash p)) () (ac_uniquePkts acc) else ac_uniquePkts acc),
            ac_floodPkts := (if pp_Route p = ''F'' then ac_floodPkts acc + 1 else ac_floodPkts acc),
            ac_directPkts := (if pp_Route p = ''D'' then ac_directPkts acc + 1 else ac_directPkts acc)\<rparr>;
          acc2 = (case pp_RSSI p of
              None \<Rightarrow> acc1
            | Some v \<Rightarrow> acc1\<lparr>ac_sumRSSI := wrap64 (ac_sumRSSI acc1 + v), ac_nRSSI := ac_nRSSI acc1 + 1,
                ac_minRSSI := new_min (ac_minRSSI acc1) v, ac_maxRSSI := new_max (ac_maxRSSI acc1) v\<rparr>);
          acc3 = (case pp_SNR p of
              None \<Rightarrow> acc2
            | Some v \<Rightarrow> acc2\<lparr>ac_sumSNR := ac_sumSNR acc2 + v, ac_nSNR := ac_nSNR acc2 + 1\<rparr>)
      in acc3\<lparr>ac_dirty := True\<rparr>)"

definition applyPacket :: "Event \<Rightarrow> PacketPayload \<Rightarrow> RollupObserver \<Rightarrow> RollupObserver" where
  "applyPacket e p s =
     (let bucket = truncate_time (rl_bucketDur s) (ev_TS e);
          acc = rollup_touch (ev_ObserverID e) bucket s
      in rollup_store (ev_ObserverID e) bucket (accum_packet p acc) s)"

definition accum_noise :: "time \<Rightarrow> int option \<Rightarrow> observerAccum \<Rightarrow> observerAccum" where
  "accum_noise ts nf acc =
     (if ts > ac_noiseFloorTS acc
      then acc\<lparr>ac_noiseFloor := nf, ac_noiseFloorTS := ts, ac_dirty := True\<rparr> else acc)"

definition applyStatus :: "Event \<Rightarrow> StatusPayload \<Rightarrow> RollupObserver \<Rightarrow> RollupObserver" where
  "applyStatus e p s =
     (if sp_NoiseFloor p = None then s
      else
        let bucket = truncate_time (rl_bucketDur s) (ev_TS e);
            acc = rollup_touch (ev_ObserverID e) bucket s
        in rollup_store (ev_ObserverID e) bucket (accum_noise (ev_TS e) (sp_NoiseFloor p) acc) s)"

definition RollupObserver_Apply :: "Event \<Rightarrow> RollupObserver \<Rightarrow> RollupObserver" where
  "RollupObserver_Apply e s = (case ev_Payload e of
     KindPacket p \<Rightarrow> applyPacket e p s | KindStatus p \<Rightarrow> applyStatus e p s)"

text \<open>The table a stage's name selects.\<close>

definition rollup_rows :: "string \<Rightarrow> db \<Rightarrow> (bytes \<times> time, rollup_row) pgtable" where
  "rollup_rows tbl d =
     (if tbl = ''rollup_observer_1m'' then t_rollup_observer_1m d else t_rollup_observer_1h d)"

definition rollup_put :: "string \<Rightarrow> (bytes \<times> time, rollup_row) pgtable \<Rightarrow> db \<Rightarrow> db" where
  "rollup_put tbl x d =
     (if tbl = ''rollup_observer_1m'' then d\<lparr>t_rollup_observer_1m := x\<rparr> else d\<lparr>t_rollup_observer_1h := x\<rparr>)"

text \<open>\<^verbatim>\<open>loadRowTotals\<close>: the rows of the pending buckets, and what a row does to its accumulator.\<close>

definition select_totals ::
  "string \<Rightarrow> (bytes \<times> time) list \<Rightarrow> db \<Rightarrow> ((bytes \<times> time) \<times> rollup_row) list" where
  "select_totals tbl pending d = filter (\<lambda>(k, r). k \<in> set pending) (rollup_rows tbl d)"

definition load_totals :: "rollup_row \<Rightarrow> observerAccum \<Rightarrow> observerAccum" where
  "load_totals r acc = acc\<lparr>
     ac_packets := ac_packets acc + ro_packets r,
     ac_floodPkts := ac_floodPkts acc + ro_flood_pkts r,
     ac_directPkts := ac_directPkts acc + ro_direct_pkts r,
     ac_sumRSSI := (case ro_avg_rssi r of
         Some avg \<Rightarrow> if ro_packets r > 0
           then wrap64 (ac_sumRSSI acc + f64_to_int64 (avg * f64_of_int (ro_packets r))) else ac_sumRSSI acc
       | None \<Rightarrow> ac_sumRSSI acc),
     ac_nRSSI := (if ro_avg_rssi r \<noteq> None \<and> ro_packets r > 0
       then ac_nRSSI acc + ro_packets r else ac_nRSSI acc),
     ac_minRSSI := (case ro_min_rssi r of Some v \<Rightarrow> new_min (ac_minRSSI acc) v | None \<Rightarrow> ac_minRSSI acc),
     ac_maxRSSI := (case ro_max_rssi r of Some v \<Rightarrow> new_max (ac_maxRSSI acc) v | None \<Rightarrow> ac_maxRSSI acc),
     ac_sumSNR := (case ro_avg_snr r of
         Some avg \<Rightarrow> if ro_packets r > 0
           then ac_sumSNR acc + avg * f64_of_int (ro_packets r) else ac_sumSNR acc
       | None \<Rightarrow> ac_sumSNR acc),
     ac_nSNR := (if ro_avg_snr r \<noteq> None \<and> ro_packets r > 0
       then ac_nSNR acc + ro_packets r else ac_nSNR acc),
     ac_noiseFloor := (if ac_noiseFloor acc = None \<and> ro_noise_floor r \<noteq> None
       then ro_noise_floor r else ac_noiseFloor acc)\<rparr>"

text \<open>\<^verbatim>\<open>loadHistoricalHashes\<close>: the join of the observations with the pending buckets.\<close>

definition select_hashes ::
  "(bytes \<times> time \<times> time) list \<Rightarrow> db \<Rightarrow> (bytes \<times> bytes \<times> time) list" where
  "select_hashes pending d = concat (map (\<lambda>r. List.map_filter (\<lambda>(obs, start, end').
      if po_observer_id r = obs \<and> po_ts r \<ge> start \<and> po_ts r < end'
      then map_option (\<lambda>h. (po_observer_id r, h, po_ts r)) (po_packet_hash r) else None) pending)
     (t_packet_observations d))"

definition load_hash :: "bytes \<Rightarrow> observerAccum \<Rightarrow> observerAccum" where
  "load_hash h acc = acc\<lparr>ac_uniquePkts := AList.update h () (ac_uniquePkts acc)\<rparr>"

definition mark_accum :: "observerAccum \<Rightarrow> observerAccum" where
  "mark_accum acc = (if \<not> ac_loaded acc \<and> ac_dirty acc then acc\<lparr>ac_loaded := True\<rparr> else acc)"

definition rollup_pending :: "env \<Rightarrow> RollupObserver \<Rightarrow> observerAccum list" where
  "rollup_pending E s =
     filter (\<lambda>acc. \<not> (ac_loaded acc \<or> \<not> ac_dirty acc)) (map snd (go_range (range_of E) (rl_state s)))"

definition rehydrate_rollup :: "env \<Rightarrow> RollupObserver \<Rightarrow> tx \<Rightarrow> RollupObserver \<times> (err + tx)" where
  "rehydrate_rollup E s t =
     (let pending = rollup_pending E s in
      if pending = [] then (s, Inr t)
      else case query (select_totals (rl_table s)
                  (map (\<lambda>a. (ac_observerID a, ac_bucket a)) pending)) t of
        Inl e \<Rightarrow> (s, Inl e)
      | Inr (totals, t1) \<Rightarrow>
          let m1 = fold (alter load_totals)
                (map (\<lambda>((obs, bucket), r). (rollup_key obs bucket, r)) totals) (rl_state s)
          in case query (select_hashes (map (\<lambda>a. (ac_observerID a, ac_bucket a,
                    ac_bucket a + rl_bucketDur s)) pending)) t1 of
               Inl e \<Rightarrow> (s\<lparr>rl_state := m1\<rparr>, Inl e)
             | Inr (hashes, t2) \<Rightarrow>
                 let m2 = fold (alter load_hash) (map (\<lambda>(obs, h, ts).
                       (rollup_key obs (truncate_time (rl_bucketDur s) ts), h)) hashes) m1
                 in (s\<lparr>rl_state := map (\<lambda>(k, acc). (k, mark_accum acc)) m2\<rparr>, Inr t2))"

text \<open>The averages, the proposed row and the upsert.\<close>

definition avg_rssi :: "observerAccum \<Rightarrow> f64 option" where
  "avg_rssi acc = (if ac_nRSSI acc > 0
     then Some (f64_of_int (ac_sumRSSI acc) / f64_of_int (ac_nRSSI acc)) else None)"

definition avg_snr :: "observerAccum \<Rightarrow> f64 option" where
  "avg_snr acc = (if ac_nSNR acc > 0 then Some (ac_sumSNR acc / f64_of_int (ac_nSNR acc)) else None)"

definition rollup_excluded :: "observerAccum \<Rightarrow> f64 option \<Rightarrow> f64 option \<Rightarrow> rollup_row" where
  "rollup_excluded acc rssi snr = \<lparr>ro_packets = ac_packets acc,
     ro_unique_pkts = int (length (ac_uniquePkts acc)), ro_flood_pkts = ac_floodPkts acc,
     ro_direct_pkts = ac_directPkts acc, ro_avg_rssi = rssi, ro_min_rssi = ac_minRSSI acc,
     ro_max_rssi = ac_maxRSSI acc, ro_avg_snr = snr, ro_noise_floor = ac_noiseFloor acc\<rparr>"

definition rollup_conflict :: "rollup_row \<Rightarrow> rollup_row \<Rightarrow> rollup_row" where
  "rollup_conflict old ex = ex\<lparr>ro_noise_floor := coalesce (ro_noise_floor ex) (ro_noise_floor old)\<rparr>"

definition rollup_row_ok :: "observerAccum \<Rightarrow> bool" where
  "rollup_row_ok acc \<longleftrightarrow> int4_ok (ac_packets acc) \<and> int4_ok (int (length (ac_uniquePkts acc))) \<and>
     int4_ok (ac_floodPkts acc) \<and> int4_ok (ac_directPkts acc) \<and> int4_opt_ok (ac_minRSSI acc) \<and>
     int4_opt_ok (ac_maxRSSI acc) \<and> int4_opt_ok (ac_noiseFloor acc)"

definition rollup_upsert :: "string \<Rightarrow> env \<Rightarrow> observerAccum \<Rightarrow> db \<Rightarrow> err + db" where
  "rollup_upsert tbl E acc d =
     (case (numeric_opt (q62 E) (avg_rssi acc), numeric_opt (q62 E) (avg_snr acc)) of
        (Some rssi, Some snr) \<Rightarrow>
          if \<not> rollup_row_ok acc then Inl (ConstraintError tbl)
          else
            let key = (ac_observerID acc, ac_bucket acc);
                ex = rollup_excluded acc rssi snr;
                row = (case map_of (rollup_rows tbl d) key of
                         None \<Rightarrow> ex | Some old \<Rightarrow> rollup_conflict old ex)
            in Inr (rollup_put tbl (AList.update key row (rollup_rows tbl d)) d)
      | _ \<Rightarrow> Inl (ConstraintError tbl))"

definition flush_accum ::
  "string \<Rightarrow> env \<Rightarrow> obsBucketKey \<times> observerAccum \<Rightarrow> RollupObserver \<Rightarrow> tx \<Rightarrow> RollupObserver \<times> (err + tx)" where
  "flush_accum tbl E = (\<lambda>(k, acc) s t.
     if \<not> ac_dirty acc then (s, Inr t)
     else case exec (rollup_upsert tbl E acc) t of
            Inl e \<Rightarrow> (s, Inl e)
          | Inr t' \<Rightarrow> (s\<lparr>rl_state := AList.update k (acc\<lparr>ac_dirty := False\<rparr>) (rl_state s)\<rparr>, Inr t'))"

definition RollupObserver_Flush :: "env \<Rightarrow> RollupObserver \<Rightarrow> tx \<Rightarrow> RollupObserver \<times> (err + tx)" where
  "RollupObserver_Flush E s t =
     (case rehydrate_rollup E s t of
        (s1, Inl e) \<Rightarrow> (s1, Inl e)
      | (s1, Inr t1) \<Rightarrow> for_each (flush_accum (rl_table s1) E) (go_range (range_of E) (rl_state s1)) s1 t1)"

definition RollupObserver_Evict :: "time \<Rightarrow> RollupObserver \<Rightarrow> RollupObserver" where
  "RollupObserver_Evict hwm s =
     (let cutoff = hwm - rl_retention s;
          kept = filter (\<lambda>(k, acc). ac_dirty acc \<or> \<not> ac_bucket acc + rl_bucketDur s < cutoff) (rl_state s)
      in s\<lparr>rl_state := map (\<lambda>(k, acc). (k, acc\<lparr>ac_dirty := False\<rparr>)) kept\<rparr>)"

definition RollupObserver_Clear :: "RollupObserver \<Rightarrow> RollupObserver" where
  "RollupObserver_Clear s = s\<lparr>rl_state := []\<rparr>"

section \<open>What the table is a function of\<close>

type_synonym packets = "(Event \<times> PacketPayload) list"

text \<open>The packets, and the reported noise floors, of one observer in one bucket.\<close>

definition bucket_packets :: "duration \<Rightarrow> Event list \<Rightarrow> bytes \<times> time \<Rightarrow> packets" where
  "bucket_packets dur hist k =
     filter (\<lambda>(e, p). (ev_ObserverID e, truncate_time dur (ev_TS e)) = k) (packet_events hist)"

definition bucket_noise :: "duration \<Rightarrow> Event list \<Rightarrow> bytes \<times> time \<Rightarrow> int list" where
  "bucket_noise dur hist k = List.map_filter (\<lambda>(e, p).
     if (ev_ObserverID e, truncate_time dur (ev_TS e)) = k then sp_NoiseFloor p else None) (status_events hist)"

definition rssis :: "packets \<Rightarrow> int list" where
  "rssis xs = List.map_filter (\<lambda>(e, p). pp_RSSI p) xs"

definition snrs :: "packets \<Rightarrow> f64 list" where
  "snrs xs = List.map_filter (\<lambda>(e, p). pp_SNR p) xs"

definition hashes :: "packets \<Rightarrow> bytes set" where
  "hashes xs = {h. h \<noteq> [] \<and> (\<exists>(e, p) \<in> set xs. pp_PacketHash p = Some h)}"

text \<open>
  A packet whose hash is empty but not nil, as the decoder makes one of a hash field that is not
  hexadecimal. \<^verbatim>\<open>applyPacket\<close> leaves it out; its row, which is not null, is counted by the rehydration.
\<close>

definition empty_hash :: "packets \<Rightarrow> bool" where
  "empty_hash xs \<longleftrightarrow> (\<exists>(e, p) \<in> set xs. pp_PacketHash p = Some [])"

definition row_hashes :: "packets \<Rightarrow> bytes set" where
  "row_hashes xs = {h. \<exists>(e, p) \<in> set xs. pp_PacketHash p = Some h}"

definition unique_count :: "packets \<Rightarrow> int \<Rightarrow> bool" where
  "unique_count P n \<longleftrightarrow> n = int (card (hashes P)) \<or> empty_hash P \<and> n = int (card (hashes P)) + 1"

definition routed :: "string \<Rightarrow> packets \<Rightarrow> nat" where
  "routed r xs = length (filter (\<lambda>(e, p). pp_Route p = r) xs)"

definition noise_of :: "int list \<Rightarrow> int option \<Rightarrow> bool" where
  "noise_of N v = (case v of None \<Rightarrow> N = [] | Some x \<Rightarrow> x \<in> set N)"

definition rollup_row_spec :: "packets \<Rightarrow> int list \<Rightarrow> rollup_row \<Rightarrow> bool" where
  "rollup_row_spec P N r \<longleftrightarrow>
     ro_packets r = int (length P) \<and> unique_count P (ro_unique_pkts r) \<and>
     ro_flood_pkts r = int (routed ''F'' P) \<and> ro_direct_pkts r = int (routed ''D'' P) \<and>
     ro_min_rssi r = min_of (rssis P) \<and> ro_max_rssi r = max_of (rssis P) \<and>
     (ro_avg_rssi r = None \<longleftrightarrow> rssis P = []) \<and> (ro_avg_snr r = None \<longleftrightarrow> snrs P = []) \<and>
     noise_of N (ro_noise_floor r)"

definition rollup_ok ::
  "duration \<Rightarrow> env \<Rightarrow> Event list \<Rightarrow> (bytes \<times> time, rollup_row) pgtable \<Rightarrow> bool" where
  "rollup_ok dur E hist tab \<longleftrightarrow> distinct (map fst tab) \<and>
     (\<forall>k. map_of tab k \<noteq> None \<longleftrightarrow> bucket_packets dur hist k \<noteq> [] \<or> bucket_noise dur hist k \<noteq> []) \<and>
     (\<forall>k r. map_of tab k = Some r \<longrightarrow> rollup_row_spec (bucket_packets dur hist k) (bucket_noise dur hist k) r)"

text \<open>Server clocks in the range of \<^verbatim>\<open>UnixNano\<close>.\<close>

definition rollup_wf :: "Event \<Rightarrow> bool" where
  "rollup_wf e \<longleftrightarrow> wf_time (ev_TS e)"

text \<open>What an accumulator holds of the packets \<open>P\<close> and the noise floors \<open>N\<close>.\<close>

definition accum_view :: "packets \<Rightarrow> int list \<Rightarrow> observerAccum \<Rightarrow> bool" where
  "accum_view P N acc \<longleftrightarrow>
     ac_packets acc = int (length P) \<and>
     ac_floodPkts acc = int (routed ''F'' P) \<and> ac_directPkts acc = int (routed ''D'' P) \<and>
     ac_minRSSI acc = min_of (rssis P) \<and> ac_maxRSSI acc = max_of (rssis P) \<and>
     0 \<le> ac_nRSSI acc \<and> (0 < ac_nRSSI acc \<longleftrightarrow> rssis P \<noteq> []) \<and>
     0 \<le> ac_nSNR acc \<and> (0 < ac_nSNR acc \<longleftrightarrow> snrs P \<noteq> []) \<and>
     noise_of N (ac_noiseFloor acc) \<and> 0 \<le> ac_noiseFloorTS acc \<and>
     (0 < ac_noiseFloorTS acc \<longrightarrow> ac_noiseFloor acc \<noteq> None)"

definition accum_hashes :: "packets \<Rightarrow> observerAccum \<Rightarrow> bool" where
  "accum_hashes P acc \<longleftrightarrow> distinct (map fst (ac_uniquePkts acc)) \<and>
     hashes P \<subseteq> fst ` set (ac_uniquePkts acc) \<and> fst ` set (ac_uniquePkts acc) \<subseteq> row_hashes P"

definition accum_entry ::
  "duration \<Rightarrow> Event list \<Rightarrow> Event list \<Rightarrow> observerAccum \<Rightarrow> bool" where
  "accum_entry dur hist es acc \<longleftrightarrow>
     (let k = (ac_observerID acc, ac_bucket acc); log = (if ac_loaded acc then hist @ es else es) in
      in_unix_range (ac_bucket acc) \<and> truncate_time dur (ac_bucket acc) = ac_bucket acc \<and>
      accum_view (bucket_packets dur log k) (bucket_noise dur log k) acc \<and>
      accum_hashes (bucket_packets dur log k) acc \<and>
      (if ac_dirty acc then bucket_packets dur es k \<noteq> [] \<or> bucket_noise dur es k \<noteq> []
       else ac_loaded acc \<and> bucket_packets dur es k = [] \<and>
         (bucket_noise dur es k = [] \<or> bucket_noise dur hist k \<noteq> [])))"

definition rollup_sync ::
  "string \<Rightarrow> duration \<Rightarrow> duration \<Rightarrow> env \<Rightarrow> Event list \<Rightarrow> Event list \<Rightarrow> RollupObserver \<Rightarrow>
   (bytes \<times> time, rollup_row) pgtable \<Rightarrow> bool" where
  "rollup_sync tbl dur ret E hist es s tab \<longleftrightarrow>
     rl_table s = tbl \<and> rl_bucketDur s = dur \<and> rl_retention s = ret \<and>
     rollup_ok dur E hist tab \<and> distinct (map fst (rl_state s)) \<and>
     (\<forall>obs b. in_unix_range b \<longrightarrow> bucket_packets dur es (obs, b) \<noteq> [] \<or> bucket_noise dur es (obs, b) \<noteq> [] \<longrightarrow>
        map_of (rl_state s) (rollup_key obs b) \<noteq> None) \<and>
     (\<forall>i acc. map_of (rl_state s) i = Some acc \<longrightarrow>
        i = rollup_key (ac_observerID acc) (ac_bucket acc) \<and> accum_entry dur hist es acc)"

section \<open>Applying an event\<close>

lemma bucket_append [simp]:
  "bucket_packets dur (xs @ ys) k = bucket_packets dur xs k @ bucket_packets dur ys k"
  "bucket_noise dur (xs @ ys) k = bucket_noise dur xs k @ bucket_noise dur ys k"
  by (simp_all add: bucket_packets_def bucket_noise_def List.map_filter_def)

lemma bucket_Nil [simp]: "bucket_packets dur [] k = []" "bucket_noise dur [] k = []"
  by (simp_all add: bucket_packets_def bucket_noise_def List.map_filter_def)

lemma bucket_packet [simp]:
  "packet_of e = Some p \<Longrightarrow> bucket_packets dur [e] k =
    (if (ev_ObserverID e, truncate_time dur (ev_TS e)) = k then [(e, p)] else [])"
  "packet_of e = Some p \<Longrightarrow> bucket_noise dur [e] k = []"
  by (auto simp: bucket_packets_def packet_events_single bucket_noise_def status_events_single
      payload_of_iff List.map_filter_def)

lemma bucket_status [simp]:
  "status_of e = Some p \<Longrightarrow> bucket_packets dur [e] k = []"
  "status_of e = Some p \<Longrightarrow> bucket_noise dur [e] k =
    (if (ev_ObserverID e, truncate_time dur (ev_TS e)) = k
     then (case sp_NoiseFloor p of None \<Rightarrow> [] | Some v \<Rightarrow> [v]) else [])"
  by (auto simp: bucket_packets_def packet_events_single bucket_noise_def status_events_single
      payload_of_iff List.map_filter_def split: option.splits)

lemma measures_append [simp]:
  "rssis (xs @ ys) = rssis xs @ rssis ys" "snrs (xs @ ys) = snrs xs @ snrs ys"
  "hashes (xs @ ys) = hashes xs \<union> hashes ys" "routed r (xs @ ys) = routed r xs + routed r ys"
  "row_hashes (xs @ ys) = row_hashes xs \<union> row_hashes ys"
  by (auto simp: rssis_def snrs_def hashes_def routed_def row_hashes_def List.map_filter_def)

lemma measures_Nil [simp]: "rssis [] = []" "snrs [] = []" "hashes [] = {}" "routed r [] = 0" "row_hashes [] = {}"
  by (simp_all add: rssis_def snrs_def hashes_def routed_def row_hashes_def List.map_filter_def)

lemma measures_single [simp]:
  "rssis [(e, p)] = (case pp_RSSI p of None \<Rightarrow> [] | Some v \<Rightarrow> [v])"
  "snrs [(e, p)] = (case pp_SNR p of None \<Rightarrow> [] | Some v \<Rightarrow> [v])"
  "hashes [(e, p)] = (if 0 < slice_len (pp_PacketHash p) then {slice_key (pp_PacketHash p)} else {})"
  "routed r [(e, p)] = (if pp_Route p = r then 1 else 0)"
  "row_hashes [(e, p)] = set_option (pp_PacketHash p)"
  by (auto simp: rssis_def snrs_def hashes_def routed_def row_hashes_def List.map_filter_def slice_len_pos
      split: option.splits)

lemma hashes_row_hashes: "hashes P = row_hashes P - {[]}" and empty_hash_iff: "empty_hash P \<longleftrightarrow> [] \<in> row_hashes P"
  by (auto simp: hashes_def row_hashes_def empty_hash_def)

text \<open>The number of keys of an accumulator, from the two bounds on them.\<close>

lemma accum_unique_count:
  assumes "accum_hashes P acc" shows "unique_count P (int (length (ac_uniquePkts acc)))"
proof -
  let ?K = "fst ` set (ac_uniquePkts acc)"
  have K: "hashes P \<subseteq> ?K" "?K \<subseteq> row_hashes P" "length (ac_uniquePkts acc) = card ?K"
    using assms distinct_card [of "map fst (ac_uniquePkts acc)"] by (simp_all add: accum_hashes_def)
  have f: "finite (hashes P)" using K(1) by (rule finite_subset) simp
  have "?K = hashes P \<or> [] \<in> row_hashes P \<and> ?K = insert [] (hashes P)"
    using K(1,2) unfolding hashes_row_hashes by blast
  moreover have "[] \<notin> hashes P" by (simp add: hashes_row_hashes)
  ultimately show ?thesis using K(3) f by (auto simp: unique_count_def empty_hash_iff)
qed

lemma new_min_least: "new_min m v = least m (Some v)"
  and new_max_greatest: "new_max m v = greatest m (Some v)"
  by (auto simp: new_min_def new_max_def least_def greatest_def min_def max_def split: option.splits)

lemma accum_packet_fields:
  "ac_observerID (accum_packet p acc) = ac_observerID acc"
  "ac_bucket (accum_packet p acc) = ac_bucket acc"
  "ac_loaded (accum_packet p acc) = ac_loaded acc" "ac_dirty (accum_packet p acc)"
  by (simp_all add: accum_packet_def Let_def split: option.splits)

lemma accum_packet_view:
  "accum_view P N acc \<Longrightarrow> accum_view (P @ [(e, p)]) N (accum_packet p acc)"
  by (auto simp: accum_view_def accum_packet_def Let_def new_min_least new_max_greatest agg_append
      sql_simps split: option.splits)

lemma accum_packet_hashes:
  "accum_hashes P acc \<Longrightarrow> accum_hashes (P @ [(e, p)]) (accum_packet p acc)"
  by (auto simp: accum_hashes_def accum_packet_def Let_def distinct_update dom_update slice_len_pos split: option.splits)

lemma accum_noise_fields:
  "ac_observerID (accum_noise ts v acc) = ac_observerID acc"
  "ac_bucket (accum_noise ts v acc) = ac_bucket acc"
  "ac_loaded (accum_noise ts v acc) = ac_loaded acc"
  "accum_hashes P (accum_noise ts v acc) = accum_hashes P acc"
  by (simp_all add: accum_noise_def accum_hashes_def)

lemma accum_noise_view:
  "accum_view P N acc \<Longrightarrow> 0 < ts \<Longrightarrow> accum_view P (N @ [v]) (accum_noise ts (Some v) acc)"
  by (auto simp: accum_view_def accum_noise_def noise_of_def split: option.splits)

lemma accum_noise_dirty:
  "accum_view P N acc \<Longrightarrow> 0 < ts \<Longrightarrow> ac_dirty (accum_noise ts v acc) \<or> accum_noise ts v acc = acc \<and> N \<noteq> []"
  by (auto simp: accum_view_def accum_noise_def noise_of_def split: option.splits)

lemma new_accum_view [simp]: "accum_view [] [] (new_observerAccum obs b)" "accum_hashes [] (new_observerAccum obs b)"
  by (simp_all add: accum_view_def accum_hashes_def new_observerAccum_def noise_of_def)

lemma rollup_key_inj:
  "in_unix_range b \<Longrightarrow> in_unix_range b' \<Longrightarrow> rollup_key obs b = rollup_key obs' b' \<longleftrightarrow> obs = obs' \<and> b = b'"
  by (auto simp: rollup_key_def unix_nano_inj)

lemma rollup_entry:
  "rollup_sync tbl dur ret E hist es s tab \<Longrightarrow> map_of (rl_state s) i = Some acc \<Longrightarrow>
    i = rollup_key (ac_observerID acc) (ac_bucket acc) \<and> accum_entry dur hist es acc"
  unfolding rollup_sync_def by blast

lemma accum_entry_range: "accum_entry dur hist es acc \<Longrightarrow> in_unix_range (ac_bucket acc)"
  by (simp add: accum_entry_def Let_def)

text \<open>The accumulator that an event of the bucket touches, allocated or not.\<close>

lemma rollup_touch_view:
  assumes sync: "rollup_sync tbl dur ret E hist es s tab" and b: "in_unix_range b"
    and acc: "acc = rollup_touch obs b s" and lg: "lg = (if ac_loaded acc then hist @ es else es)"
  shows "ac_observerID acc = obs" "ac_bucket acc = b"
    and "accum_view (bucket_packets dur lg (obs, b)) (bucket_noise dur lg (obs, b)) acc"
    and "accum_hashes (bucket_packets dur lg (obs, b)) acc"
    and "\<not> ac_dirty acc \<Longrightarrow> bucket_packets dur es (obs, b) = [] \<and>
      (bucket_noise dur es (obs, b) = [] \<or> bucket_noise dur hist (obs, b) \<noteq> [])"
    and "\<not> ac_dirty acc \<Longrightarrow> \<not> ac_loaded acc \<Longrightarrow> bucket_noise dur es (obs, b) = []"
proof -
  have "ac_observerID acc = obs \<and> ac_bucket acc = b \<and>
      accum_view (bucket_packets dur lg (obs, b)) (bucket_noise dur lg (obs, b)) acc \<and>
      accum_hashes (bucket_packets dur lg (obs, b)) acc \<and>
      (\<not> ac_dirty acc \<longrightarrow> bucket_packets dur es (obs, b) = [] \<and>
        (bucket_noise dur es (obs, b) = [] \<or> bucket_noise dur hist (obs, b) \<noteq> [])) \<and>
      (\<not> ac_dirty acc \<longrightarrow> \<not> ac_loaded acc \<longrightarrow> bucket_noise dur es (obs, b) = [])"
  proof (cases "map_of (rl_state s) (rollup_key obs b)")
    case None
    then have "bucket_packets dur es (obs, b) = [] \<and> bucket_noise dur es (obs, b) = []"
      using sync b unfolding rollup_sync_def by blast
    moreover have "acc = new_observerAccum obs b" using None acc by (simp add: rollup_touch_def)
    moreover from this have "lg = es" using lg by (simp add: new_observerAccum_def)
    ultimately show ?thesis by simp (simp add: new_observerAccum_def)
  next
    case (Some a)
    then have a: "acc = a" using acc by (simp add: rollup_touch_def)
    note en = rollup_entry [OF sync Some]
    have e: "ac_observerID a = obs" "ac_bucket a = b" "accum_entry dur hist es a"
      using en rollup_key_inj [OF b accum_entry_range, of dur hist es a obs "ac_observerID a"] by simp_all
    then show ?thesis unfolding a lg accum_entry_def Let_def e(1,2) by presburger
  qed
  then show "ac_observerID acc = obs" "ac_bucket acc = b"
    "accum_view (bucket_packets dur lg (obs, b)) (bucket_noise dur lg (obs, b)) acc"
    "accum_hashes (bucket_packets dur lg (obs, b)) acc"
    "\<not> ac_dirty acc \<Longrightarrow> bucket_packets dur es (obs, b) = [] \<and>
      (bucket_noise dur es (obs, b) = [] \<or> bucket_noise dur hist (obs, b) \<noteq> [])"
    "\<not> ac_dirty acc \<Longrightarrow> \<not> ac_loaded acc \<Longrightarrow> bucket_noise dur es (obs, b) = []"
    by blast+
qed

lemma accum_entry_skip:
  "bucket_packets dur [e] (ac_observerID acc, ac_bucket acc) = [] \<Longrightarrow>
   bucket_noise dur [e] (ac_observerID acc, ac_bucket acc) = [] \<Longrightarrow>
    accum_entry dur hist (es @ [e]) acc = accum_entry dur hist es acc"
  by (auto simp: accum_entry_def Let_def)

lemma rollup_store_sync:
  assumes sync: "rollup_sync tbl dur ret E hist es s tab" and b: "in_unix_range b"
    and acc: "ac_observerID acc = obs" "ac_bucket acc = b" "accum_entry dur hist (es @ [e]) acc"
    and only: "\<And>k. k \<noteq> (obs, b) \<Longrightarrow> bucket_packets dur [e] k = [] \<and> bucket_noise dur [e] k = []"
  shows "rollup_sync tbl dur ret E hist (es @ [e]) (rollup_store obs b acc s) tab"
proof -
  let ?m = "AList.update (rollup_key obs b) acc (rl_state s)"
  have key: "map_of (rl_state s) (rollup_key o' b') \<noteq> None"
    if "in_unix_range b'" "(o', b') \<noteq> (obs, b)"
      "bucket_packets dur (es @ [e]) (o', b') \<noteq> [] \<or> bucket_noise dur (es @ [e]) (o', b') \<noteq> []" for o' b'
  proof -
    have "bucket_packets dur es (o', b') \<noteq> [] \<or> bucket_noise dur es (o', b') \<noteq> []"
      using that(3) only [OF that(2)] by simp
    with sync that(1) show ?thesis unfolding rollup_sync_def by blast
  qed
  have "map_of ?m (rollup_key o' b') \<noteq> None"
    if "in_unix_range b'"
      "bucket_packets dur (es @ [e]) (o', b') \<noteq> [] \<or> bucket_noise dur (es @ [e]) (o', b') \<noteq> []" for o' b'
    using key that by (cases "(o', b') = (obs, b)") (simp_all add: update_conv' del: map_of_eq_Some_iff)
  moreover have "i = rollup_key (ac_observerID a) (ac_bucket a) \<and> accum_entry dur hist (es @ [e]) a"
    if a: "map_of ?m i = Some a" for i a
  proof (cases "i = rollup_key obs b")
    case True
    then show ?thesis using a acc by (simp add: update_conv')
  next
    case False
    then have "map_of (rl_state s) i = Some a" using a by (simp add: update_conv')
    note en = rollup_entry [OF sync this]
    with False have "(ac_observerID a, ac_bucket a) \<noteq> (obs, b)" by auto
    with only en show ?thesis by (simp add: accum_entry_skip)
  qed
  ultimately show ?thesis
    using sync by (simp add: rollup_sync_def rollup_store_def distinct_update del: map_of_eq_Some_iff bucket_append)
qed

lemma rollup_skip_sync:
  assumes "rollup_sync tbl dur ret E hist es s tab"
    and "\<And>k. bucket_packets dur [e] k = [] \<and> bucket_noise dur [e] k = []"
  shows "rollup_sync tbl dur ret E hist (es @ [e]) s tab"
  using assms by (simp add: rollup_sync_def accum_entry_skip del: map_of_eq_Some_iff)

lemma RollupObserver_Apply_sync:
  assumes sync: "rollup_sync tbl dur ret E hist es s tab" and wf: "rollup_wf e"
    and dur: "0 < dur" "dur \<le> hour"
  shows "rollup_sync tbl dur ret E hist (es @ [e]) (RollupObserver_Apply e s) tab"
proof -
  define obs b where "obs = ev_ObserverID e" and "b = truncate_time dur (ev_TS e)"
  define acc lg where "acc = rollup_touch obs b s" and "lg = (if ac_loaded acc then hist @ es else es)"
  have ts: "0 < ev_TS e" and rng: "in_unix_range b"
    using wf dur by (auto simp: rollup_wf_def b_def wf_time_pos wf_time_bucket)
  have bb: "truncate_time dur b = b" by (simp add: b_def)
  have d: "rl_bucketDur s = dur" using sync by (simp add: rollup_sync_def)
  note t = rollup_touch_view [OF sync rng acc_def lg_def]
  show ?thesis
  proof (cases "ev_Payload e")
    case (KindPacket p)
    let ?acc = "accum_packet p acc"
    have lg': "(if ac_loaded ?acc then hist @ es @ [e] else es @ [e]) = lg @ [e]"
      by (simp add: lg_def accum_packet_fields)
    have "accum_entry dur hist (es @ [e]) ?acc"
      unfolding accum_entry_def Let_def lg'
      using t(1-4) rng bb KindPacket accum_packet_view [OF t(3)] accum_packet_hashes [OF t(4)]
      by (simp add: accum_packet_fields obs_def b_def)
    then show ?thesis
      using rollup_store_sync [OF sync rng, of ?acc obs e] t(1,2) KindPacket d
      by (simp add: RollupObserver_Apply_def applyPacket_def Let_def accum_packet_fields acc_def obs_def b_def)
  next
    case (KindStatus p)
    show ?thesis
    proof (cases "sp_NoiseFloor p")
      case None
      then have "RollupObserver_Apply e s = s" "\<And>k. bucket_packets dur [e] k = [] \<and> bucket_noise dur [e] k = []"
        using KindStatus by (simp_all add: RollupObserver_Apply_def applyStatus_def)
      then show ?thesis using rollup_skip_sync [OF sync] by simp
    next
      case (Some v)
      let ?acc = "accum_noise (ev_TS e) (Some v) acc"
      have lg': "(if ac_loaded ?acc then hist @ es @ [e] else es @ [e]) = lg @ [e]"
        by (simp add: lg_def accum_noise_fields)
      have ev: "bucket_packets dur [e] (obs, b) = []" "bucket_noise dur [e] (obs, b) = [v]"
        using KindStatus Some by (simp_all add: obs_def b_def)
      have clean: "ac_loaded acc \<and> bucket_packets dur es (obs, b) = [] \<and> bucket_noise dur hist (obs, b) \<noteq> []"
        if "\<not> ac_dirty ?acc"
      proof -
        from that accum_noise_dirty [OF t(3) ts] have a: "?acc = acc" "bucket_noise dur lg (obs, b) \<noteq> []"
          by blast+
        with that t(5,6) show ?thesis by (auto simp: lg_def split: if_splits)
      qed
      have "accum_entry dur hist (es @ [e]) ?acc"
        unfolding accum_entry_def Let_def lg'
        using t(1-4) rng bb ev accum_noise_view [OF t(3) ts, of v] clean
        by (auto simp: accum_noise_fields)
      then show ?thesis
        using rollup_store_sync [OF sync rng, of ?acc obs e] t(1,2) KindStatus d Some
        by (simp add: RollupObserver_Apply_def applyStatus_def Let_def accum_noise_fields acc_def obs_def b_def)
    qed
  qed
qed

section \<open>Rehydration\<close>

lemma load_totals_fields [simp]:
  "ac_observerID (load_totals r acc) = ac_observerID acc"
  "ac_bucket (load_totals r acc) = ac_bucket acc"
  "ac_loaded (load_totals r acc) = ac_loaded acc" "ac_dirty (load_totals r acc) = ac_dirty acc"
  "ac_uniquePkts (load_totals r acc) = ac_uniquePkts acc"
  by (simp_all add: load_totals_def)

lemma rssis_nonempty: "rssis P \<noteq> [] \<Longrightarrow> P \<noteq> []" and snrs_nonempty: "snrs P \<noteq> [] \<Longrightarrow> P \<noteq> []"
  by auto

lemma noise_of_merge:
  "noise_of Ne v \<Longrightarrow> noise_of Nh w \<Longrightarrow> noise_of (Nh @ Ne) (if v = None \<and> w \<noteq> None then w else v)"
  by (auto simp: noise_of_def split: option.splits)

lemma load_totals_view:
  assumes acc: "accum_view Pe Ne acc" and row: "rollup_row_spec Ph Nh r"
  shows "accum_view (Ph @ Pe) (Nh @ Ne) (load_totals r acc)"
proof -
  have pos: "rssis Ph \<noteq> [] \<Longrightarrow> 0 < ro_packets r" "snrs Ph \<noteq> [] \<Longrightarrow> 0 < ro_packets r" "0 \<le> ro_packets r"
    using row rssis_nonempty [of Ph] snrs_nonempty [of Ph] by (simp_all add: rollup_row_spec_def)
  have noise: "noise_of (Nh @ Ne) (if ac_noiseFloor acc = None \<and> ro_noise_floor r \<noteq> None
      then ro_noise_floor r else ac_noiseFloor acc)"
    using acc row by (intro noise_of_merge) (simp_all add: accum_view_def rollup_row_spec_def)
  have n: "0 < ac_nRSSI (load_totals r acc) \<longleftrightarrow> rssis (Ph @ Pe) \<noteq> []" "0 \<le> ac_nRSSI (load_totals r acc)"
    "0 < ac_nSNR (load_totals r acc) \<longleftrightarrow> snrs (Ph @ Pe) \<noteq> []" "0 \<le> ac_nSNR (load_totals r acc)"
  proof -
    have "ac_nRSSI (load_totals r acc) =
        ac_nRSSI acc + (if ro_avg_rssi r \<noteq> None \<and> ro_packets r > 0 then ro_packets r else 0)"
      "ac_nSNR (load_totals r acc) =
        ac_nSNR acc + (if ro_avg_snr r \<noteq> None \<and> ro_packets r > 0 then ro_packets r else 0)"
      by (simp_all add: load_totals_def)
    moreover have "ro_avg_rssi r = None \<longleftrightarrow> rssis Ph = []" "ro_avg_snr r = None \<longleftrightarrow> snrs Ph = []"
      "0 \<le> ac_nRSSI acc" "0 < ac_nRSSI acc \<longleftrightarrow> rssis Pe \<noteq> []"
      "0 \<le> ac_nSNR acc" "0 < ac_nSNR acc \<longleftrightarrow> snrs Pe \<noteq> []"
      using acc row by (simp_all only: accum_view_def rollup_row_spec_def)
    ultimately show "0 < ac_nRSSI (load_totals r acc) \<longleftrightarrow> rssis (Ph @ Pe) \<noteq> []" "0 \<le> ac_nRSSI (load_totals r acc)"
      "0 < ac_nSNR (load_totals r acc) \<longleftrightarrow> snrs (Ph @ Pe) \<noteq> []" "0 \<le> ac_nSNR (load_totals r acc)"
      using pos by (cases "rssis Ph = []"; cases "snrs Ph = []"; simp)+
  qed
  have m: "ac_minRSSI (load_totals r acc) = least (ac_minRSSI acc) (ro_min_rssi r)"
    "ac_maxRSSI (load_totals r acc) = greatest (ac_maxRSSI acc) (ro_max_rssi r)"
    by (simp_all add: load_totals_def new_min_least new_max_greatest sql_simps split: option.splits)
  have c: "ac_packets (load_totals r acc) = ac_packets acc + ro_packets r"
    "ac_floodPkts (load_totals r acc) = ac_floodPkts acc + ro_flood_pkts r"
    "ac_directPkts (load_totals r acc) = ac_directPkts acc + ro_direct_pkts r"
    "ac_noiseFloor (load_totals r acc) = (if ac_noiseFloor acc = None \<and> ro_noise_floor r \<noteq> None
      then ro_noise_floor r else ac_noiseFloor acc)"
    "ac_noiseFloorTS (load_totals r acc) = ac_noiseFloorTS acc"
    by (simp_all add: load_totals_def)
  show ?thesis
    unfolding accum_view_def n m c
    using acc row noise n
    by (auto simp: accum_view_def rollup_row_spec_def min_of_append max_of_append least_commute greatest_commute)
qed

lemma fold_load_hash [simp]:
  "ac_observerID (fold load_hash hs acc) = ac_observerID acc"
  "ac_bucket (fold load_hash hs acc) = ac_bucket acc"
  "ac_loaded (fold load_hash hs acc) = ac_loaded acc" "ac_dirty (fold load_hash hs acc) = ac_dirty acc"
  "accum_view P N (fold load_hash hs acc) = accum_view P N acc"
  "distinct (map fst (ac_uniquePkts acc)) \<Longrightarrow> distinct (map fst (ac_uniquePkts (fold load_hash hs acc)))"
  "fst ` set (ac_uniquePkts (fold load_hash hs acc)) = fst ` set (ac_uniquePkts acc) \<union> set hs"
  by (induction hs arbitrary: acc)
    (simp_all add: load_hash_def accum_view_def distinct_update dom_update)

lemma mark_accum_fields [simp]:
  "ac_observerID (mark_accum acc) = ac_observerID acc" "ac_bucket (mark_accum acc) = ac_bucket acc"
  "ac_dirty (mark_accum acc) = ac_dirty acc" "accum_view P N (mark_accum acc) = accum_view P N acc"
  "accum_hashes P (mark_accum acc) = accum_hashes P acc"
  "ac_loaded (mark_accum acc) \<longleftrightarrow> ac_loaded acc \<or> ac_dirty acc"
  by (simp_all add: mark_accum_def accum_view_def accum_hashes_def)

lemma select_hashes_set:
  assumes "packets_seen hist d"
  shows "(obs, h, ts) \<in> set (select_hashes pending d) \<longleftrightarrow>
    (\<exists>(e, p) \<in> set (packet_events hist). ev_ObserverID e = obs \<and> ev_TS e = ts \<and> pp_PacketHash p = Some h) \<and>
    (\<exists>start end'. (obs, start, end') \<in> set pending \<and> start \<le> ts \<and> ts < end')"
proof -
  have eq: "(ts, obs, Some h) \<in> (\<lambda>r. (po_ts r, po_observer_id r, po_packet_hash r)) ` set (t_packet_observations d) \<longleftrightarrow>
      (ts, obs, Some h) \<in> (\<lambda>(e, p). (ev_TS e, ev_ObserverID e, pp_PacketHash p)) ` set (packet_events hist)"
    using arg_cong [OF assms [unfolded packets_seen_def], of set] by (simp only: set_map)
  have A: "(ts, obs, Some h) \<in> (\<lambda>r. (po_ts r, po_observer_id r, po_packet_hash r)) ` A \<longleftrightarrow>
      (\<exists>r \<in> A. po_observer_id r = obs \<and> po_ts r = ts \<and> po_packet_hash r = Some h)" for A
    by (auto simp: image_iff)
  have B: "(ts, obs, Some h) \<in> (\<lambda>(e, p). (ev_TS e, ev_ObserverID e, pp_PacketHash p)) ` B \<longleftrightarrow>
      (\<exists>(e, p) \<in> B. ev_ObserverID e = obs \<and> ev_TS e = ts \<and> pp_PacketHash p = Some h)" for B
    by (force simp: image_iff)
  have "(\<exists>r \<in> set (t_packet_observations d). po_observer_id r = obs \<and> po_ts r = ts \<and> po_packet_hash r = Some h) \<longleftrightarrow>
      (\<exists>(e, p) \<in> set (packet_events hist). ev_ObserverID e = obs \<and> ev_TS e = ts \<and> pp_PacketHash p = Some h)"
    using eq unfolding A B .
  moreover have "(obs, h, ts) \<in> set (select_hashes pending d) \<longleftrightarrow>
      (\<exists>r \<in> set (t_packet_observations d). po_observer_id r = obs \<and> po_ts r = ts \<and> po_packet_hash r = Some h) \<and>
      (\<exists>start end'. (obs, start, end') \<in> set pending \<and> start \<le> ts \<and> ts < end')"
    by (auto simp: select_hashes_def set_map_filter_iff Bex_def split: if_splits)
  ultimately show ?thesis by blast
qed

lemma hashes_all:
  "row_hashes (bucket_packets dur hist (obs, b)) =
    {h. \<exists>(e, p) \<in> set (packet_events hist). ev_ObserverID e = obs \<and> truncate_time dur (ev_TS e) = b \<and>
      pp_PacketHash p = Some h}"
  by (auto simp: row_hashes_def bucket_packets_def)

text \<open>
  The state of one accumulator after the rehydration, from the row \<open>row\<close> of its bucket and
  the hashes \<open>hs\<close> of its packets.
\<close>

lemma accum_entry_rehydrated:
  assumes entry: "accum_entry dur hist es acc" and unloaded: "\<not> ac_loaded acc"
    and k: "k = (ac_observerID acc, ac_bucket acc)"
    and row: "row = None \<longleftrightarrow> bucket_packets dur hist k = [] \<and> bucket_noise dur hist k = []"
      "\<And>r. row = Some r \<Longrightarrow> rollup_row_spec (bucket_packets dur hist k) (bucket_noise dur hist k) r"
    and hs: "set hs = row_hashes (bucket_packets dur hist k)"
    and acc': "acc' = mark_accum (fold load_hash hs (case row of None \<Rightarrow> acc | Some r \<Rightarrow> load_totals r acc))"
  shows "accum_entry dur hist es acc'" and "ac_loaded acc'"
    and "ac_observerID acc' = ac_observerID acc" "ac_bucket acc' = ac_bucket acc" "ac_dirty acc' = ac_dirty acc"
proof -
  let ?t = "case row of None \<Rightarrow> acc | Some r \<Rightarrow> load_totals r acc"
  let ?P = "\<lambda>l. bucket_packets dur l k" and ?N = "\<lambda>l. bucket_noise dur l k"
  have dirty: "ac_dirty acc" using entry unloaded by (simp add: accum_entry_def Let_def split: if_splits)
  have v: "accum_view (?P es) (?N es) acc" "accum_hashes (?P es) acc"
    "in_unix_range (ac_bucket acc)" "truncate_time dur (ac_bucket acc) = ac_bucket acc"
    "?P es \<noteq> [] \<or> ?N es \<noteq> []"
    using entry unloaded dirty by (simp_all add: accum_entry_def Let_def k)
  have t: "ac_observerID ?t = ac_observerID acc" "ac_bucket ?t = ac_bucket acc" "ac_dirty ?t = ac_dirty acc"
    "ac_loaded ?t = ac_loaded acc" "ac_uniquePkts ?t = ac_uniquePkts acc"
    by (simp_all split: option.splits)
  have "accum_view (?P (hist @ es)) (?N (hist @ es)) ?t"
    using v(1) row load_totals_view [OF v(1)] by (cases row) simp_all
  moreover have "accum_hashes (?P (hist @ es)) (fold load_hash hs ?t)"
    using v(2) hs t(5) by (auto simp: accum_hashes_def hashes_row_hashes)
  ultimately show "accum_entry dur hist es acc'"
    using v(3-5) t dirty k by (simp add: acc' accum_entry_def Let_def)
  show "ac_loaded acc'" "ac_observerID acc' = ac_observerID acc" "ac_bucket acc' = ac_bucket acc"
    "ac_dirty acc' = ac_dirty acc"
    using t dirty by (simp_all add: acc')
qed

definition rollup_ready :: "duration \<Rightarrow> Event list \<Rightarrow> Event list \<Rightarrow> RollupObserver \<Rightarrow> bool" where
  "rollup_ready dur hist es s \<longleftrightarrow> distinct (map fst (rl_state s)) \<and>
     (\<forall>obs b. in_unix_range b \<longrightarrow> bucket_packets dur es (obs, b) \<noteq> [] \<or> bucket_noise dur es (obs, b) \<noteq> [] \<longrightarrow>
        map_of (rl_state s) (rollup_key obs b) \<noteq> None) \<and>
     (\<forall>i acc. map_of (rl_state s) i = Some acc \<longrightarrow> ac_loaded acc \<and>
        i = rollup_key (ac_observerID acc) (ac_bucket acc) \<and> accum_entry dur hist es acc)"

lemma rollup_pending_set:
  assumes "range_order (range_of E)" "distinct (map fst (rl_state s))"
  shows "acc \<in> set (rollup_pending E s) \<longleftrightarrow>
    (\<exists>i. map_of (rl_state s) i = Some acc) \<and> \<not> ac_loaded acc \<and> ac_dirty acc"
  using assms by (force simp: rollup_pending_def)

text \<open>The rows and the hashes that the two queries find for the accumulator at a key.\<close>

lemma select_totals_key:
  assumes "distinct (map fst (rollup_rows tbl d))" and b: "in_unix_range b"
    and rng: "\<And>o' b'. (o', b') \<in> set pending \<Longrightarrow> in_unix_range b'"
  shows "map snd (filter (\<lambda>r. fst r = rollup_key obs b)
      (map (\<lambda>((obs, bucket), r). (rollup_key obs bucket, r)) (select_totals tbl pending d))) =
    (case map_of (rollup_rows tbl d) (obs, b) of
       None \<Rightarrow> [] | Some r \<Rightarrow> if (obs, b) \<in> set pending then [r] else [])"
proof -
  let ?f = "\<lambda>k. rollup_key (fst k) (snd k)"
  have "(\<lambda>((obs, bucket), r). (rollup_key obs bucket, r)) = (\<lambda>(k, r :: rollup_row). (?f k, r))"
    by (simp add: fun_eq_iff)
  moreover have "k = (obs, b)" if "k \<in> set pending" "?f k = ?f (obs, b)" for k
  proof -
    have "in_unix_range (snd k)" using rng [of "fst k" "snd k"] that(1) by simp
    with that(2) b have "fst k = obs \<and> snd k = b" by (simp only: rollup_key_inj fst_conv snd_conv)
    then show ?thesis by (simp add: prod_eq_iff)
  qed
  ultimately show ?thesis
    using selected_rows [OF assms(1), of "set pending" ?f "(obs, b)"] by (simp add: select_totals_def)
qed

lemma select_hashes_key:
  assumes seen: "packets_seen log' d" and dur: "0 < dur"
    and b: "in_unix_range b" "truncate_time dur b = b"
    and rng: "\<And>o' b' e. (o', b', e) \<in> set pending \<Longrightarrow>
      in_unix_range b' \<and> truncate_time dur b' = b' \<and> e = b' + dur"
  shows "set (map snd (filter (\<lambda>r. fst r = rollup_key obs b)
      (map (\<lambda>(obs, h, ts). (rollup_key obs (truncate_time dur ts), h)) (select_hashes pending d)))) =
    (if (obs, b, b + dur) \<in> set pending then row_hashes (bucket_packets dur log' (obs, b)) else {})"
proof -
  have bucket: "truncate_time dur ts = b'" if "(o', b', e) \<in> set pending" "b' \<le> ts" "ts < e" for o' b' e ts
    using that rng [OF that(1)] by (intro truncate_time_unique [OF dur]) auto
  have "h \<in> set (map snd (filter (\<lambda>r. fst r = rollup_key obs b)
      (map (\<lambda>(obs, h, ts). (rollup_key obs (truncate_time dur ts), h)) (select_hashes pending d)))) \<longleftrightarrow>
    (\<exists>ts. (obs, h, ts) \<in> set (select_hashes pending d) \<and> truncate_time dur ts = b)" (is "?l \<longleftrightarrow> ?r") for h
  proof
    assume ?l
    then obtain o' ts where r: "(o', h, ts) \<in> set (select_hashes pending d)"
      "rollup_key o' (truncate_time dur ts) = rollup_key obs b" by auto
    then have "in_unix_range (truncate_time dur ts)"
      using bucket rng unfolding select_hashes_set [OF seen] by metis
    with r b show ?r by (auto simp: rollup_key_inj)
  next
    assume ?r
    then show ?l by force
  qed
  moreover have "(\<exists>ts. (obs, h, ts) \<in> set (select_hashes pending d) \<and> truncate_time dur ts = b) \<longleftrightarrow>
      (obs, b, b + dur) \<in> set pending \<and> h \<in> row_hashes (bucket_packets dur log' (obs, b))" for h
  proof
    assume "\<exists>ts. (obs, h, ts) \<in> set (select_hashes pending d) \<and> truncate_time dur ts = b"
    then obtain ts start end' where pk: "\<exists>(e, p) \<in> set (packet_events log').
          ev_ObserverID e = obs \<and> ev_TS e = ts \<and> pp_PacketHash p = Some h"
      and j: "(obs, start, end') \<in> set pending" "start \<le> ts" "ts < end'" and ts: "truncate_time dur ts = b"
      unfolding select_hashes_set [OF seen] by blast
    from bucket [OF j] ts rng [OF j(1)] have "start = b" "end' = b + dur" by auto
    then show "(obs, b, b + dur) \<in> set pending \<and> h \<in> row_hashes (bucket_packets dur log' (obs, b))"
      using pk j(1) ts unfolding hashes_all by auto
  next
    assume r: "(obs, b, b + dur) \<in> set pending \<and> h \<in> row_hashes (bucket_packets dur log' (obs, b))"
    then obtain e p where "(e, p) \<in> set (packet_events log')" "ev_ObserverID e = obs"
      "truncate_time dur (ev_TS e) = b" "pp_PacketHash p = Some h"
      unfolding hashes_all by auto
    with r truncate_time_le [OF dur, of "ev_TS e"] show
      "\<exists>ts. (obs, h, ts) \<in> set (select_hashes pending d) \<and> truncate_time dur ts = b"
      unfolding select_hashes_set [OF seen] by blast
  qed
  ultimately show ?thesis by (intro set_eqI) (simp only: if_split_mem2 if_bool_eq_conj; blast)
qed

lemma rehydrate_rollup_run:
  assumes run: "rehydrate_rollup E s t = (s1, Inr t1)" and pend: "rollup_pending E s \<noteq> []"
  shows "map_of (rl_state s1) i = map_option (\<lambda>acc. mark_accum (fold load_hash
      (map snd (filter (\<lambda>r. fst r = i) (map (\<lambda>(obs, h, ts). (rollup_key obs (truncate_time (rl_bucketDur s) ts), h))
        (select_hashes (map (\<lambda>a. (ac_observerID a, ac_bucket a, ac_bucket a + rl_bucketDur s)) (rollup_pending E s)) (tables t)))))
      (fold load_totals (map snd (filter (\<lambda>r. fst r = i) (map (\<lambda>((obs, bucket), r). (rollup_key obs bucket, r))
        (select_totals (rl_table s) (map (\<lambda>a. (ac_observerID a, ac_bucket a)) (rollup_pending E s)) (tables t))))) acc)))
     (map_of (rl_state s) i)"
    and "distinct (map fst (rl_state s)) \<Longrightarrow> distinct (map fst (rl_state s1))"
  using run pend
  by (auto simp: rehydrate_rollup_def Let_def query_Inr map_of_map_values map_of_fold_alter option.map_comp
      comp_def case_prod_beta intro!: distinct_fold_alter split: sum.splits simp del: map_of_eq_Some_iff)

lemma rehydrate_rollup_keeps:
  assumes "rehydrate_rollup E s t = (s1, Inr t1)"
  shows "tables t1 = tables t" "rl_table s1 = rl_table s" "rl_bucketDur s1 = rl_bucketDur s"
    "rl_retention s1 = rl_retention s" "rollup_pending E s = [] \<Longrightarrow> s1 = s"
  using assms
  by (auto simp: rehydrate_rollup_def Let_def query_Inr split: if_splits sum.splits)

lemma rehydrate_rollup_ready:
  assumes run: "rehydrate_rollup E s t = (s1, Inr t1)" and ord: "range_order (range_of E)"
    and seen: "packets_seen hist (tables t)"
    and sync: "rollup_sync tbl dur ret E hist es s (rollup_rows tbl (tables t))" and dur: "0 < dur"
  shows "rollup_ready dur hist es s1"
proof -
  let ?m = "rl_state s" and ?keys = "map (\<lambda>a. (ac_observerID a, ac_bucket a)) (rollup_pending E s)"
  let ?ends = "map (\<lambda>a. (ac_observerID a, ac_bucket a, ac_bucket a + dur)) (rollup_pending E s)"
  have d: "distinct (map fst ?m)" and dt: "distinct (map fst (rollup_rows tbl (tables t)))"
    and dom: "\<And>obs b. in_unix_range b \<Longrightarrow> bucket_packets dur es (obs, b) \<noteq> [] \<or> bucket_noise dur es (obs, b) \<noteq> [] \<Longrightarrow>
      map_of ?m (rollup_key obs b) \<noteq> None"
    and cfg: "rl_table s = tbl" "rl_bucketDur s = dur"
    using sync unfolding rollup_sync_def rollup_ok_def by blast+
  have row: "map_of (rollup_rows tbl (tables t)) k = None \<longleftrightarrow>
      bucket_packets dur hist k = [] \<and> bucket_noise dur hist k = []"
    "map_of (rollup_rows tbl (tables t)) k = Some r \<Longrightarrow>
      rollup_row_spec (bucket_packets dur hist k) (bucket_noise dur hist k) r" for k r
    using sync unfolding rollup_sync_def rollup_ok_def by blast+
  note entry = rollup_entry [OF sync]
  have pending: "map_of ?m (rollup_key (ac_observerID a) (ac_bucket a)) = Some a \<and> \<not> ac_loaded a \<and>
      in_unix_range (ac_bucket a) \<and> truncate_time dur (ac_bucket a) = ac_bucket a"
    if "a \<in> set (rollup_pending E s)" for a
  proof -
    from that obtain i where i: "map_of ?m i = Some a" "\<not> ac_loaded a"
      unfolding rollup_pending_set [OF ord d] by blast
    with entry [OF i(1)] show ?thesis by (auto simp: accum_entry_def Let_def simp del: map_of_eq_Some_iff)
  qed
  have rng: "(o', b', end') \<in> set ?ends \<Longrightarrow>
      in_unix_range b' \<and> truncate_time dur b' = b' \<and> end' = b' + dur"
    "(o', b') \<in> set ?keys \<Longrightarrow> in_unix_range b'" for o' b' end'
    using pending by auto
  show ?thesis
  proof (cases "rollup_pending E s = []")
    case True
    have "ac_loaded acc" if "map_of ?m i = Some acc" for i acc
    proof (rule ccontr)
      assume u: "\<not> ac_loaded acc"
      then have "ac_dirty acc" using entry [OF that] by (simp add: accum_entry_def Let_def split: if_splits)
      with u that have "acc \<in> set (rollup_pending E s)" unfolding rollup_pending_set [OF ord d] by blast
      with True show False by simp
    qed
    moreover have "s1 = s" using rehydrate_rollup_keeps(5) [OF run True] .
    ultimately show ?thesis using d dom entry unfolding rollup_ready_def by blast
  next
    case False
    note m = rehydrate_rollup_run(1) [OF run False, unfolded cfg]
    have "ac_loaded acc' \<and> i = rollup_key (ac_observerID acc') (ac_bucket acc') \<and> accum_entry dur hist es acc'"
      if acc': "map_of (rl_state s1) i = Some acc'" for i acc'
    proof -
      from acc' m [of i] obtain acc where acc: "map_of ?m i = Some acc"
        by (cases "map_of ?m i") auto
      let ?obs = "ac_observerID acc" and ?b = "ac_bucket acc"
      from entry [OF acc] have i: "i = rollup_key ?obs ?b" and e: "accum_entry dur hist es acc"
        and b: "in_unix_range ?b" "truncate_time dur ?b = ?b" by (auto simp: accum_entry_def Let_def)
      have mem: "(?obs, ?b) \<in> set ?keys \<longleftrightarrow> \<not> ac_loaded acc" "(?obs, ?b, ?b + dur) \<in> set ?ends \<longleftrightarrow> \<not> ac_loaded acc"
      proof -
        have "a = acc" if "a \<in> set (rollup_pending E s)" "ac_observerID a = ?obs" "ac_bucket a = ?b" for a
          using pending [OF that(1)] that(2,3) acc i by simp
        moreover have "acc \<in> set (rollup_pending E s) \<longleftrightarrow> \<not> ac_loaded acc"
        proof -
          have "\<not> ac_loaded acc \<Longrightarrow> ac_dirty acc" using e by (simp add: accum_entry_def Let_def split: if_splits)
          then show ?thesis unfolding rollup_pending_set [OF ord d] using acc by blast
        qed
        ultimately show "(?obs, ?b) \<in> set ?keys \<longleftrightarrow> \<not> ac_loaded acc"
          "(?obs, ?b, ?b + dur) \<in> set ?ends \<longleftrightarrow> \<not> ac_loaded acc" by auto
      qed
      define hs where "hs = map snd (filter (\<lambda>r. fst r = i) (map (\<lambda>(obs, h, ts).
        (rollup_key obs (truncate_time dur ts), h)) (select_hashes ?ends (tables t))))"
      have hs: "set hs = (if ac_loaded acc then {} else row_hashes (bucket_packets dur hist (?obs, ?b)))"
      proof -
        have "set hs = (if (?obs, ?b, ?b + dur) \<in> set ?ends
            then row_hashes (bucket_packets dur hist (?obs, ?b)) else {})"
          unfolding hs_def i by (rule select_hashes_key [OF seen dur b rng(1)])
        then show ?thesis unfolding mem(2) by simp
      qed
      have tot: "map snd (filter (\<lambda>r. fst r = i) (map (\<lambda>((obs, bucket), r). (rollup_key obs bucket, r))
          (select_totals tbl ?keys (tables t)))) = (case map_of (rollup_rows tbl (tables t)) (?obs, ?b) of
            None \<Rightarrow> [] | Some r \<Rightarrow> if ac_loaded acc then [] else [r])"
      proof -
        have "map snd (filter (\<lambda>r. fst r = i) (map (\<lambda>((obs, bucket), r). (rollup_key obs bucket, r))
            (select_totals tbl ?keys (tables t)))) = (case map_of (rollup_rows tbl (tables t)) (?obs, ?b) of
            None \<Rightarrow> [] | Some r \<Rightarrow> if (?obs, ?b) \<in> set ?keys then [r] else [])"
          unfolding i by (rule select_totals_key [OF dt b(1) rng(2)])
        then show ?thesis unfolding mem(1) by (simp split: option.splits)
      qed
      have eq: "acc' = mark_accum (fold load_hash hs (fold load_totals
          (case map_of (rollup_rows tbl (tables t)) (?obs, ?b) of
            None \<Rightarrow> [] | Some r \<Rightarrow> if ac_loaded acc then [] else [r]) acc))"
        using acc' m [of i] acc unfolding tot hs_def by simp
      show ?thesis
      proof (cases "ac_loaded acc")
        case True
        then have "acc' = acc" using eq hs by (auto simp: mark_accum_def split: option.splits)
        then show ?thesis using True i e by simp
      next
        case False
        then have "acc' = mark_accum (fold load_hash hs
            (case map_of (rollup_rows tbl (tables t)) (?obs, ?b) of None \<Rightarrow> acc | Some r \<Rightarrow> load_totals r acc))"
          using eq by (auto split: option.splits)
        from accum_entry_rehydrated [OF e False refl row _ this] hs False i show ?thesis by simp
      qed
    qed
    moreover have "map_of (rl_state s1) (rollup_key obs b) \<noteq> None"
      if "in_unix_range b" "bucket_packets dur es (obs, b) \<noteq> [] \<or> bucket_noise dur es (obs, b) \<noteq> []" for obs b
      using dom [OF that] unfolding m by simp
    ultimately show ?thesis
      using rehydrate_rollup_run(2) [OF run False d] unfolding rollup_ready_def by blast
  qed
qed

section \<open>Flush\<close>

abbreviation clean_accum :: "observerAccum \<Rightarrow> observerAccum" where
  "clean_accum acc \<equiv> acc\<lparr>ac_dirty := False\<rparr>"

definition rollup_newrow :: "env \<Rightarrow> observerAccum \<Rightarrow> rollup_row option \<Rightarrow> rollup_row" where
  "rollup_newrow E acc old =
     (let ex = rollup_excluded acc (Option.bind (avg_rssi acc) (q62 E)) (Option.bind (avg_snr acc) (q62 E)) in
      case old of None \<Rightarrow> ex | Some row \<Rightarrow> rollup_conflict row ex)"

definition rollup_valid :: "env \<Rightarrow> observerAccum \<Rightarrow> bool" where
  "rollup_valid E acc \<longleftrightarrow> rollup_row_ok acc \<and>
     numeric_opt (q62 E) (avg_rssi acc) \<noteq> None \<and> numeric_opt (q62 E) (avg_snr acc) \<noteq> None"

lemma numeric_opt_bind: "numeric_opt q x = Some y \<Longrightarrow> y = Option.bind x q \<and> (y = None \<longleftrightarrow> x = None)"
  by (auto simp: numeric_opt_def split: option.splits)

lemma rollup_upsert_effect:
  assumes "rollup_upsert tbl E acc d = Inr d'"
  shows "rollup_valid E acc \<and> d' = rollup_put tbl (AList.update (ac_observerID acc, ac_bucket acc)
    (rollup_newrow E acc (map_of (rollup_rows tbl d) (ac_observerID acc, ac_bucket acc))) (rollup_rows tbl d)) d"
proof -
  from assms obtain rssi snr where q: "numeric_opt (q62 E) (avg_rssi acc) = Some rssi"
    "numeric_opt (q62 E) (avg_snr acc) = Some snr"
    by (auto simp: rollup_upsert_def split: option.splits)
  with assms numeric_opt_bind [OF q(1)] numeric_opt_bind [OF q(2)] show ?thesis
    by (simp add: rollup_upsert_def rollup_newrow_def rollup_valid_def Let_def split: if_splits)
qed

interpretation rollup_loop: accum_loop "rollup_rows tbl" "rollup_put tbl"
  rl_state "\<lambda>m. rl_state_update (\<lambda>_. m)" ac_dirty clean_accum "\<lambda>acc. (ac_observerID acc, ac_bucket acc)"
  "rollup_upsert tbl" rollup_newrow rollup_valid for tbl
  by unfold_locales (auto simp: rollup_rows_def rollup_put_def dest: rollup_upsert_effect)

lemma flush_accum_entry: "flush_accum tbl E = rollup_loop.flush_entry tbl E"
  by (auto simp: flush_accum_def rollup_loop.flush_entry_def fun_eq_iff split: sum.splits)

lemma rollup_newrow_spec:
  assumes view: "accum_view P N acc" "accum_hashes P acc" and valid: "rollup_valid E acc"
    and old: "\<And>r. old = Some r \<Longrightarrow> N = [] \<Longrightarrow> ro_noise_floor r = None"
  shows "rollup_row_spec P N (rollup_newrow E acc old)"
proof -
  have avg: "Option.bind (avg_rssi acc) (q62 E) = None \<longleftrightarrow> rssis P = []"
    "Option.bind (avg_snr acc) (q62 E) = None \<longleftrightarrow> snrs P = []"
    using view(1) valid
    by (auto simp: accum_view_def rollup_valid_def avg_rssi_def avg_snr_def numeric_opt_def
        split: if_splits option.splits)
  note uniq = accum_unique_count [OF view(2)]
  have noise: "noise_of N (coalesce (ac_noiseFloor acc) (ro_noise_floor r))" if "old = Some r" for r
    using view(1) old [OF that] by (auto simp: accum_view_def noise_of_def coalesce_def split: option.splits)
  show ?thesis
    using view(1) avg uniq noise
    by (auto simp: rollup_row_spec_def rollup_newrow_def rollup_excluded_def rollup_conflict_def
        accum_view_def Let_def split: option.splits)
qed

lemma bucket_in_range:
  assumes "list_all rollup_wf hist" "0 < dur" "dur \<le> hour"
    and "bucket_packets dur hist (obs, b) \<noteq> [] \<or> bucket_noise dur hist (obs, b) \<noteq> []"
  shows "in_unix_range b"
proof -
  from assms(4) obtain e where "e \<in> set hist" "truncate_time dur (ev_TS e) = b"
    by (auto simp: bucket_packets_def bucket_noise_def packet_events_def status_events_def
        List.map_filter_def filter_empty_conv split: if_splits)
  with assms(1-3) show ?thesis by (auto simp: list_all_iff rollup_wf_def intro: wf_time_bucket)
qed

lemma accum_entry_clean:
  assumes "accum_entry dur hist es acc" "ac_loaded acc"
  shows "accum_entry dur (hist @ es) [] (if ac_dirty acc then clean_accum acc else acc)"
  using assms by (auto simp: accum_entry_def Let_def accum_view_def accum_hashes_def)

lemma RollupObserver_Flush_split:
  assumes "RollupObserver_Flush E s t = (s', Inr t')"
  obtains s1 t1 where "rehydrate_rollup E s t = (s1, Inr t1)" "tables t1 = tables t"
    "for_each (rollup_loop.flush_entry (rl_table s) E) (go_range (range_of E) (rl_state s1)) s1 t1 = (s', Inr t')"
    "rl_table s1 = rl_table s" "rl_bucketDur s1 = rl_bucketDur s" "rl_retention s1 = rl_retention s"
proof -
  from assms obtain s1 t1 where r: "rehydrate_rollup E s t = (s1, Inr t1)"
    and l: "for_each (flush_accum (rl_table s1) E) (go_range (range_of E) (rl_state s1)) s1 t1 = (s', Inr t')"
    by (auto simp: RollupObserver_Flush_def split: prod.splits sum.splits)
  note k = rehydrate_rollup_keeps [OF r]
  from l show ?thesis unfolding flush_accum_entry k(2) by (rule that [OF r k(1) _ k(2-4)])
qed

lemma RollupObserver_Flush_frame:
  assumes "RollupObserver_Flush E s t = (s', Inr t')"
  shows "\<exists>x. tables t' = rollup_put (rl_table s) x (tables t)"
proof -
  obtain s1 t1 where "tables t1 = tables t" and
    "for_each (rollup_loop.flush_entry (rl_table s) E) (go_range (range_of E) (rl_state s1)) s1 t1 = (s', Inr t')"
    by (rule RollupObserver_Flush_split [OF assms])
  with rollup_loop.flush_entries_frame show ?thesis by metis
qed

text \<open>The row of a bucket that no dirty accumulator rewrites still holds for the longer log.\<close>

lemma rollup_row_spec_extend:
  "rollup_row_spec P Nh r \<Longrightarrow> Nh \<noteq> [] \<or> Ne = [] \<Longrightarrow> rollup_row_spec P (Nh @ Ne) r"
  by (auto simp: rollup_row_spec_def noise_of_def split: option.splits)

lemma RollupObserver_Flush_sync:
  assumes run: "RollupObserver_Flush E s t = (s', Inr t')" and ord: "range_order (range_of E)"
    and seen: "packets_seen hist (tables t)" and wf: "list_all rollup_wf (hist @ es)"
    and sync: "rollup_sync tbl dur ret E hist es s (rollup_rows tbl (tables t))"
    and dur: "0 < dur" "dur \<le> hour"
  shows "rollup_sync tbl dur ret E (hist @ es) [] s' (rollup_rows tbl (tables t'))"
proof -
  let ?tab = "\<lambda>u. rollup_rows tbl (tables u)"
  let ?P = "\<lambda>l. bucket_packets dur l" and ?N = "\<lambda>l. bucket_noise dur l"
  have tbl: "rl_table s = tbl" using sync by (simp add: rollup_sync_def)
  obtain s1 t1 where r: "rehydrate_rollup E s t = (s1, Inr t1)" and t1: "tables t1 = tables t"
    and l: "for_each (rollup_loop.flush_entry tbl E) (go_range (range_of E) (rl_state s1)) s1 t1 = (s', Inr t')"
    and cfg: "rl_table s1 = tbl" "rl_bucketDur s1 = rl_bucketDur s" "rl_retention s1 = rl_retention s"
    using RollupObserver_Flush_split [OF run] unfolding tbl by metis
  note ready = rehydrate_rollup_ready [OF r ord seen sync dur(1)]
  have d: "distinct (map fst (rl_state s1))"
    and dom: "\<And>obs b. in_unix_range b \<Longrightarrow> ?P es (obs, b) \<noteq> [] \<or> ?N es (obs, b) \<noteq> [] \<Longrightarrow>
      map_of (rl_state s1) (rollup_key obs b) \<noteq> None"
    and entry: "\<And>i acc. map_of (rl_state s1) i = Some acc \<Longrightarrow> ac_loaded acc \<and>
      i = rollup_key (ac_observerID acc) (ac_bucket acc) \<and> accum_entry dur hist es acc"
    using ready unfolding rollup_ready_def by blast+
  have dt: "distinct (map fst (?tab t1))"
    and row: "\<And>k. map_of (?tab t1) k \<noteq> None \<longleftrightarrow> ?P hist k \<noteq> [] \<or> ?N hist k \<noteq> []"
      "\<And>k r. map_of (?tab t1) k = Some r \<Longrightarrow> rollup_row_spec (?P hist k) (?N hist k) r"
    using sync unfolding t1 rollup_sync_def rollup_ok_def by blast+
  have inj: "\<forall>i a j b. map_of (rl_state s1) i = Some a \<longrightarrow> map_of (rl_state s1) j = Some b \<longrightarrow>
      (ac_observerID a, ac_bucket a) = (ac_observerID b, ac_bucket b) \<longrightarrow> i = j"
    using entry by (metis prod.inject)
  note loop = rollup_loop.flush_entries [OF l ord d dt inj]
  have rows: "(map_of (?tab t') k \<noteq> None \<longleftrightarrow> ?P (hist @ es) k \<noteq> [] \<or> ?N (hist @ es) k \<noteq> []) \<and>
      (\<forall>r. map_of (?tab t') k = Some r \<longrightarrow> rollup_row_spec (?P (hist @ es) k) (?N (hist @ es) k) r)" for k
  proof (cases "\<exists>i acc. map_of (rl_state s1) i = Some acc \<and> ac_dirty acc \<and> (ac_observerID acc, ac_bucket acc) = k")
    case True
    then obtain i acc where acc: "map_of (rl_state s1) i = Some acc" "ac_dirty acc" "(ac_observerID acc, ac_bucket acc) = k"
      by blast
    from entry [OF acc(1)] acc have v: "accum_view (?P (hist @ es) k) (?N (hist @ es) k) acc"
      "accum_hashes (?P (hist @ es) k) acc" "?P es k \<noteq> [] \<or> ?N es k \<noteq> []"
      by (auto simp: accum_entry_def Let_def)
    from loop(5) [OF acc(1,2)] have n: "rollup_valid E acc"
      "map_of (?tab t') k = Some (rollup_newrow E acc (map_of (?tab t1) k))"
      unfolding acc(3) by blast+
    have "ro_noise_floor r = None" if "map_of (?tab t1) k = Some r" "?N (hist @ es) k = []" for r
      using row(2) [OF that(1)] that(2) by (simp add: rollup_row_spec_def noise_of_def split: option.splits)
    then have "rollup_row_spec (?P (hist @ es) k) (?N (hist @ es) k) (rollup_newrow E acc (map_of (?tab t1) k))"
      by (rule rollup_newrow_spec [OF v(1,2) n(1)])
    then show ?thesis using n(2) v(3) by auto
  next
    case False
    have same: "map_of (?tab t') k = map_of (?tab t1) k"
      by (rule loop(6)) (use False in blast)
    have es: "?P es k = [] \<and> (?N es k = [] \<or> ?N hist k \<noteq> [])"
    proof (rule ccontr)
      assume a: "\<not> ?thesis"
      obtain obs b where k: "k = (obs, b)" by force
      from a k have "in_unix_range b" using bucket_in_range [of es dur obs b] wf dur by auto
      with dom [of b obs] a k obtain acc where acc: "map_of (rl_state s1) (rollup_key obs b) = Some acc" by blast
      note en = entry [OF acc]
      with \<open>in_unix_range b\<close> have k': "(ac_observerID acc, ac_bucket acc) = k"
        using rollup_key_inj accum_entry_range k by (metis (no_types))
      with False acc have "\<not> ac_dirty acc" by blast
      with en a show False unfolding accum_entry_def Let_def k' by auto
    qed
    have "map_of (?tab t') k \<noteq> None \<longleftrightarrow> ?P (hist @ es) k \<noteq> [] \<or> ?N (hist @ es) k \<noteq> []"
      unfolding same row(1) using es by auto
    moreover have "rollup_row_spec (?P (hist @ es) k) (?N (hist @ es) k) r" if "map_of (?tab t') k = Some r" for r
      using rollup_row_spec_extend [OF row(2), of k r "?N es k"] es that unfolding same by auto
    ultimately show ?thesis by blast
  qed
  have st: "i = rollup_key (ac_observerID a) (ac_bucket a) \<and> accum_entry dur (hist @ es) [] a"
    if "map_of (rl_state s') i = Some a" for i a
  proof -
    from that obtain acc where acc: "map_of (rl_state s1) i = Some acc"
      and a: "a = (if ac_dirty acc then clean_accum acc else acc)"
      unfolding loop(4) map_option_eq_Some by blast
    note en = entry [OF acc]
    then have "accum_entry dur (hist @ es) [] a" unfolding a by (blast intro: accum_entry_clean)
    then show ?thesis using en a by simp
  qed
  have cfg': "rl_table s' = tbl" "rl_bucketDur s' = dur" "rl_retention s' = ret"
  proof -
    have "s' = s1\<lparr>rl_state := rl_state s'\<rparr>" by (rule loop(3))
    then have "rl_table s' = rl_table s1 \<and> rl_bucketDur s' = rl_bucketDur s1 \<and> rl_retention s' = rl_retention s1"
      by (metis RollupObserver.ext_inject RollupObserver.surjective RollupObserver.update_convs(4))
    then show "rl_table s' = tbl" "rl_bucketDur s' = dur" "rl_retention s' = ret"
      using cfg sync by (simp_all add: rollup_sync_def)
  qed
  have "distinct (map fst (?tab t'))" "distinct (map fst (rl_state s'))"
    by (fact loop(1), fact loop(2))
  then show ?thesis using rows st cfg' unfolding rollup_sync_def rollup_ok_def bucket_Nil by blast
qed

section \<open>Evict and the contract\<close>

lemma RollupObserver_Evict_sync:
  assumes "rollup_sync tbl dur ret E hist [] s tab"
  shows "rollup_sync tbl dur ret E hist [] (RollupObserver_Evict h s) tab"
proof -
  let ?f = "filter (\<lambda>(k, acc). ac_dirty acc \<or> \<not> ac_bucket acc + rl_bucketDur s < h - rl_retention s) (rl_state s)"
  have d: "distinct (map fst (rl_state s))" using assms by (simp add: rollup_sync_def)
  have st: "rl_state (RollupObserver_Evict h s) = map (\<lambda>(k, acc). (k, clean_accum acc)) ?f"
    by (simp add: RollupObserver_Evict_def Let_def)
  have df: "distinct (map fst ?f)" using d by (simp add: distinct_map_filter)
  have "i = rollup_key (ac_observerID a) (ac_bucket a) \<and> accum_entry dur hist [] a"
    if "map_of (rl_state (RollupObserver_Evict h s)) i = Some a" for i a
  proof -
    from that obtain acc where "map_of ?f i = Some acc" and a: "a = clean_accum acc"
      unfolding st map_of_map_values by auto
    then have "map_of (rl_state s) i = Some acc" using d df by (cases i) auto
    from rollup_entry [OF assms this] have i: "i = rollup_key (ac_observerID acc) (ac_bucket acc)"
      and e: "accum_entry dur hist [] acc" by simp_all
    from e have nd: "\<not> ac_dirty acc" by (auto simp: accum_entry_def Let_def)
    then have "a = acc" using a by simp
    then show ?thesis using i e by simp
  qed
  moreover have "distinct (map fst (rl_state (RollupObserver_Evict h s)))"
    using df by (simp add: st comp_def case_prod_beta)
  moreover have "rl_table (RollupObserver_Evict h s) = rl_table s"
    "rl_bucketDur (RollupObserver_Evict h s) = rl_bucketDur s"
    "rl_retention (RollupObserver_Evict h s) = rl_retention s"
    by (simp_all add: RollupObserver_Evict_def Let_def)
  ultimately show ?thesis using assms unfolding rollup_sync_def bucket_Nil by simp
qed

lemma rollup_fresh_sync:
  "rollup_ok dur E hist tab \<Longrightarrow>
    rollup_sync tbl dur ret E hist [] \<lparr>rl_table = tbl, rl_bucketDur = dur, rl_retention = ret, rl_state = []\<rparr> tab"
  by (simp add: rollup_sync_def)

lemma rollup_Flush_Evict_sync:
  assumes "RollupObserver_Flush E s t = (s', Inr t')" and "range_order (range_of E)"
    and "packets_seen hist (tables t)" and "list_all rollup_wf (hist @ es)"
    and "rollup_sync tbl dur ret E hist es s (rollup_rows tbl (tables t))"
    and "0 < dur" "dur \<le> hour"
  shows "rollup_sync tbl dur ret E (hist @ es) [] (RollupObserver_Evict h s') (rollup_rows tbl (tables t'))"
  by (rule RollupObserver_Evict_sync, rule RollupObserver_Flush_sync) (fact assms)+

lemma rollup_Flush_idle_sync:
  assumes "RollupObserver_Flush E s t = (s', Inr t')" and "range_order (range_of E)"
    and "packets_seen hist (tables t)" and "list_all rollup_wf hist"
    and "rollup_sync tbl dur ret E hist [] s (rollup_rows tbl (tables t))"
    and "0 < dur" "dur \<le> hour"
  shows "rollup_sync tbl dur ret E hist [] s' (rollup_rows tbl (tables t'))"
  using RollupObserver_Flush_sync [OF assms(1,2), of hist "[]"] assms(3-7) by simp

lemma rollup_Flush_frame_sync:
  "RollupObserver_Flush E s t = (s', Inr t') \<Longrightarrow> rollup_sync tbl dur ret E hist es s tab \<Longrightarrow>
    \<exists>x. tables t' = rollup_put tbl x (tables t)"
  using RollupObserver_Flush_frame [of E s t s' t'] by (simp add: rollup_sync_def)

interpretation rollup_1m_stage: stage "rollup_rows ''rollup_observer_1m''" "rollup_put ''rollup_observer_1m''"
  RollupObserver_Apply RollupObserver_Flush RollupObserver_Evict NewRollupObserver1m packets_seen rollup_wf
  "rollup_ok minute" "rollup_sync ''rollup_observer_1m'' minute hour"
proof unfold_locales
  show "rollup_ok minute E hist tab \<Longrightarrow>
      rollup_sync ''rollup_observer_1m'' minute hour E hist [] NewRollupObserver1m tab" for E hist tab
    unfolding NewRollupObserver1m_def by (rule rollup_fresh_sync)
  show "rollup_sync ''rollup_observer_1m'' minute hour E hist [] s tab \<Longrightarrow> rollup_ok minute E hist tab"
    for E hist s tab by (simp add: rollup_sync_def)
qed (rule RollupObserver_Apply_sync rollup_Flush_frame_sync rollup_Flush_idle_sync rollup_Flush_Evict_sync;
    (assumption | simp add: minute_le_hour))+

interpretation rollup_1h_stage: stage "rollup_rows ''rollup_observer_1h''" "rollup_put ''rollup_observer_1h''"
  RollupObserver_Apply RollupObserver_Flush RollupObserver_Evict NewRollupObserver1h packets_seen rollup_wf
  "rollup_ok hour" "rollup_sync ''rollup_observer_1h'' hour (24 * hour)"
proof unfold_locales
  show "rollup_ok hour E hist tab \<Longrightarrow>
      rollup_sync ''rollup_observer_1h'' hour (24 * hour) E hist [] NewRollupObserver1h tab" for E hist tab
    unfolding NewRollupObserver1h_def by (rule rollup_fresh_sync)
  show "rollup_sync ''rollup_observer_1h'' hour (24 * hour) E hist [] s tab \<Longrightarrow> rollup_ok hour E hist tab"
    for E hist s tab by (simp add: rollup_sync_def)
qed (rule RollupObserver_Apply_sync rollup_Flush_frame_sync rollup_Flush_idle_sync rollup_Flush_Evict_sync;
    (assumption | simp))+

section \<open>Properties\<close>

text \<open>C10 (functional): in the one-minute rollup the packet and route counts and the extremes of the signal
  strength of each observer and minute are those of the committed log, an average is present
  exactly when there is a sample, and the noise floor is one that the observer reported in that
  minute; for any batching, eviction and restart. The number of distinct packets is that of the log
  too, in every minute without an empty hash that is not nil; in a minute with one it may be one
  more. The times are in the range of \<^verbatim>\<open>UnixNano\<close>.\<close>

theorem rollup_1m_function_of_log:
  assumes "rollup_sync ''rollup_observer_1m'' minute hour E hist [] s (rollup_rows ''rollup_observer_1m'' (tables t))"
    and "range_order (range_of E)" and "packets_seen hist (tables t)"
    and "list_all rollup_wf (hist @ es)"
    and "RollupObserver_Flush E (fold RollupObserver_Apply es s) t = (s', Inr t')"
  shows "rollup_ok minute E (hist @ es) (t_rollup_observer_1m (tables t'))"
  using rollup_1m_stage.flush_keeps_promise [OF assms(5,2,3,4,1)] by (simp add: rollup_rows_def)

lemma rollup_1m_function_of_log_witness:
  "\<exists>s' t'. RollupObserver_Flush sample_env (fold RollupObserver_Apply [status_event, quiet_event] NewRollupObserver1m)
      sample_tx = (s', Inr t') \<and>
    rollup_ok minute sample_env [status_event, quiet_event] (t_rollup_observer_1m (tables t'))"
proof -
  let ?t = sample_tx
  have "succeeds (RollupObserver_Flush sample_env (fold RollupObserver_Apply [status_event, quiet_event] NewRollupObserver1m) ?t)"
    by code_simp
  then obtain s' t' where r: "RollupObserver_Flush sample_env
      (fold RollupObserver_Apply [status_event, quiet_event] NewRollupObserver1m) ?t = (s', Inr t')"
    by (rule succeedsE)
  have s: "rollup_sync ''rollup_observer_1m'' minute hour sample_env [] [] NewRollupObserver1m
      (rollup_rows ''rollup_observer_1m'' (tables ?t))"
    by (rule rollup_1m_stage.fresh_sync) (simp add: rollup_ok_def rollup_rows_def sample_tx_def empty_db_def)
  have p: "packets_seen [] (tables ?t)" by code_simp
  have w: "list_all rollup_wf ([] @ [status_event, quiet_event])" by code_simp
  from rollup_1m_function_of_log [OF s sample_range p w r] r show ?thesis by auto
qed

end
