(* ===== verification/Stage_Rollup_Neighbor.thy ===== *)
theory Stage_Rollup_Neighbor
  imports Stage_Rollup_Observer
begin

text \<open>
  The \<^verbatim>\<open>rollup_neighbor_1m\<close> stage (\<^verbatim>\<open>internal/project/stages/rollup_neighbor.go\<close>): per observer,
  source prefix and minute, the number of packets and their signal measurements. An
  accumulator of an evicted bucket is rehydrated from its row.

  The packet count and the extremes are shown to be functions of the committed events; of the
  averages, which the rehydration weighs by packets, the specification states when they are
  present.
\<close>

section \<open>Model\<close>

record neighborAccum =
  nb_observerID :: bytes
  nb_sourcePrefix :: bytes
  nb_bucket :: time
  nb_packets :: int
  nb_sumRSSI :: int
  nb_nRSSI :: int
  nb_minRSSI :: "int option"
  nb_maxRSSI :: "int option"
  nb_sumSNR :: f64
  nb_nSNR :: int
  nb_loaded :: bool
  nb_dirty :: bool

type_synonym neighborBucketKey = "bytes \<times> bytes \<times> int"

record RollupNeighbor1m =
  nb_state :: "(neighborBucketKey, neighborAccum) gomap"

definition NewRollupNeighbor1m :: RollupNeighbor1m where
  "NewRollupNeighbor1m = \<lparr>nb_state = []\<rparr>"

definition neighbor_key :: "bytes \<times> bytes \<times> time \<Rightarrow> neighborBucketKey" where
  "neighbor_key = (\<lambda>(obs, src, bucket). (obs, src, unix_nano bucket))"

definition new_neighborAccum :: "bytes \<times> bytes \<times> time \<Rightarrow> neighborAccum" where
  "new_neighborAccum = (\<lambda>(obs, src, bucket). \<lparr>nb_observerID = obs, nb_sourcePrefix = src,
     nb_bucket = bucket, nb_packets = 0, nb_sumRSSI = 0, nb_nRSSI = 0, nb_minRSSI = None,
     nb_maxRSSI = None, nb_sumSNR = Fin 0, nb_nSNR = 0, nb_loaded = False, nb_dirty = False\<rparr>)"

definition count_neighborAccum :: "PacketPayload \<Rightarrow> neighborAccum \<Rightarrow> neighborAccum" where
  "count_neighborAccum p acc =
     (let acc1 = acc\<lparr>nb_packets := nb_packets acc + 1\<rparr>;
          acc2 = (case pp_RSSI p of
              None \<Rightarrow> acc1
            | Some v \<Rightarrow> acc1\<lparr>nb_sumRSSI := wrap64 (nb_sumRSSI acc1 + v), nb_nRSSI := nb_nRSSI acc1 + 1,
                nb_minRSSI := new_min (nb_minRSSI acc1) v, nb_maxRSSI := new_max (nb_maxRSSI acc1) v\<rparr>);
          acc3 = (case pp_SNR p of
              None \<Rightarrow> acc2
            | Some v \<Rightarrow> acc2\<lparr>nb_sumSNR := nb_sumSNR acc2 + v, nb_nSNR := nb_nSNR acc2 + 1\<rparr>)
      in acc3\<lparr>nb_dirty := True\<rparr>)"

definition RollupNeighbor1m_Apply :: "Event \<Rightarrow> RollupNeighbor1m \<Rightarrow> RollupNeighbor1m" where
  "RollupNeighbor1m_Apply e s = (case ev_Payload e of
     KindStatus _ \<Rightarrow> s
   | KindPacket p \<Rightarrow>
       if slice_len (pp_SourcePrefix p) = 0 then s
       else
         let k = (ev_ObserverID e, slice_key (pp_SourcePrefix p), truncate_time minute (ev_TS e));
             acc = (case map_of (nb_state s) (neighbor_key k) of
                      Some acc \<Rightarrow> acc | None \<Rightarrow> new_neighborAccum k)
         in s\<lparr>nb_state := AList.update (neighbor_key k) (count_neighborAccum p acc) (nb_state s)\<rparr>)"

text \<open>\<^verbatim>\<open>rehydrateUnloaded\<close>: the pending accumulators, the rows of their buckets, and what a row
  does to its accumulator.\<close>

definition neighbor_bucket :: "neighborAccum \<Rightarrow> bytes \<times> bytes \<times> time" where
  "neighbor_bucket acc = (nb_observerID acc, nb_sourcePrefix acc, nb_bucket acc)"

definition neighbor_pending :: "env \<Rightarrow> RollupNeighbor1m \<Rightarrow> neighborAccum list" where
  "neighbor_pending E s =
     filter (\<lambda>acc. \<not> (nb_loaded acc \<or> \<not> nb_dirty acc)) (map snd (go_range (range_of E) (nb_state s)))"

definition select_neighbors ::
  "(bytes \<times> bytes \<times> time) list \<Rightarrow> db \<Rightarrow> ((bytes \<times> bytes \<times> time) \<times> neighbor_row) list" where
  "select_neighbors pending d = filter (\<lambda>(k, r). k \<in> set pending) (t_rollup_neighbor_1m d)"

definition load_neighbor :: "neighbor_row \<Rightarrow> neighborAccum \<Rightarrow> neighborAccum" where
  "load_neighbor r acc = acc\<lparr>
     nb_packets := nb_packets acc + rn_packets r,
     nb_sumRSSI := (case rn_avg_rssi r of
         Some avg \<Rightarrow> if rn_packets r > 0
           then wrap64 (nb_sumRSSI acc + f64_to_int64 (avg * f64_of_int (rn_packets r))) else nb_sumRSSI acc
       | None \<Rightarrow> nb_sumRSSI acc),
     nb_nRSSI := (if rn_avg_rssi r \<noteq> None \<and> rn_packets r > 0
       then nb_nRSSI acc + rn_packets r else nb_nRSSI acc),
     nb_minRSSI := (case rn_min_rssi r of Some v \<Rightarrow> new_min (nb_minRSSI acc) v | None \<Rightarrow> nb_minRSSI acc),
     nb_maxRSSI := (case rn_max_rssi r of Some v \<Rightarrow> new_max (nb_maxRSSI acc) v | None \<Rightarrow> nb_maxRSSI acc),
     nb_sumSNR := (case rn_avg_snr r of
         Some avg \<Rightarrow> if rn_packets r > 0
           then nb_sumSNR acc + avg * f64_of_int (rn_packets r) else nb_sumSNR acc
       | None \<Rightarrow> nb_sumSNR acc),
     nb_nSNR := (if rn_avg_snr r \<noteq> None \<and> rn_packets r > 0
       then nb_nSNR acc + rn_packets r else nb_nSNR acc)\<rparr>"

definition mark_neighbor :: "neighborAccum \<Rightarrow> neighborAccum" where
  "mark_neighbor acc = (if \<not> nb_loaded acc \<and> nb_dirty acc then acc\<lparr>nb_loaded := True\<rparr> else acc)"

definition rehydrate_neighbor :: "env \<Rightarrow> RollupNeighbor1m \<Rightarrow> tx \<Rightarrow> RollupNeighbor1m \<times> (err + tx)" where
  "rehydrate_neighbor E s t =
     (let pending = neighbor_pending E s in
      if pending = [] then (s, Inr t)
      else case query (select_neighbors (map neighbor_bucket pending)) t of
        Inl e \<Rightarrow> (s, Inl e)
      | Inr (rows, t1) \<Rightarrow>
          let m = fold (alter load_neighbor) (map (\<lambda>(k, r). (neighbor_key k, r)) rows) (nb_state s)
          in (s\<lparr>nb_state := map (\<lambda>(k, acc). (k, mark_neighbor acc)) m\<rparr>, Inr t1))"

definition neighbor_avg_rssi :: "neighborAccum \<Rightarrow> f64 option" where
  "neighbor_avg_rssi acc = (if nb_nRSSI acc > 0
     then Some (f64_of_int (nb_sumRSSI acc) / f64_of_int (nb_nRSSI acc)) else None)"

definition neighbor_avg_snr :: "neighborAccum \<Rightarrow> f64 option" where
  "neighbor_avg_snr acc = (if nb_nSNR acc > 0 then Some (nb_sumSNR acc / f64_of_int (nb_nSNR acc)) else None)"

text \<open>Every column of the row on a conflict comes from the proposed row.\<close>

definition neighbor_excluded :: "neighborAccum \<Rightarrow> f64 option \<Rightarrow> f64 option \<Rightarrow> neighbor_row" where
  "neighbor_excluded acc rssi snr = \<lparr>rn_packets = nb_packets acc, rn_avg_rssi = rssi,
     rn_min_rssi = nb_minRSSI acc, rn_max_rssi = nb_maxRSSI acc, rn_avg_snr = snr\<rparr>"

definition neighbor_row_ok :: "neighborAccum \<Rightarrow> bool" where
  "neighbor_row_ok acc \<longleftrightarrow>
     int4_ok (nb_packets acc) \<and> int4_opt_ok (nb_minRSSI acc) \<and> int4_opt_ok (nb_maxRSSI acc)"

definition neighbor_upsert :: "env \<Rightarrow> neighborAccum \<Rightarrow> db \<Rightarrow> err + db" where
  "neighbor_upsert E acc d =
     (case (numeric_opt (q62 E) (neighbor_avg_rssi acc), numeric_opt (q62 E) (neighbor_avg_snr acc)) of
        (Some rssi, Some snr) \<Rightarrow>
          if \<not> neighbor_row_ok acc then Inl (ConstraintError ''rollup_neighbor_1m'')
          else Inr (d\<lparr>t_rollup_neighbor_1m :=
                 AList.update (neighbor_bucket acc) (neighbor_excluded acc rssi snr) (t_rollup_neighbor_1m d)\<rparr>)
      | _ \<Rightarrow> Inl (ConstraintError ''rollup_neighbor_1m''))"

definition flush_neighbor ::
  "env \<Rightarrow> neighborBucketKey \<times> neighborAccum \<Rightarrow> RollupNeighbor1m \<Rightarrow> tx \<Rightarrow> RollupNeighbor1m \<times> (err + tx)" where
  "flush_neighbor E = (\<lambda>(k, acc) s t.
     if \<not> nb_dirty acc then (s, Inr t)
     else case exec (neighbor_upsert E acc) t of
            Inl e \<Rightarrow> (s, Inl e)
          | Inr t' \<Rightarrow> (s\<lparr>nb_state := AList.update k (acc\<lparr>nb_dirty := False\<rparr>) (nb_state s)\<rparr>, Inr t'))"

definition RollupNeighbor1m_Flush :: "env \<Rightarrow> RollupNeighbor1m \<Rightarrow> tx \<Rightarrow> RollupNeighbor1m \<times> (err + tx)" where
  "RollupNeighbor1m_Flush E s t =
     (case rehydrate_neighbor E s t of
        (s1, Inl e) \<Rightarrow> (s1, Inl e)
      | (s1, Inr t1) \<Rightarrow> for_each (flush_neighbor E) (go_range (range_of E) (nb_state s1)) s1 t1)"

definition RollupNeighbor1m_Evict :: "time \<Rightarrow> RollupNeighbor1m \<Rightarrow> RollupNeighbor1m" where
  "RollupNeighbor1m_Evict hwm s =
     (let cutoff = hwm - hour;
          kept = filter (\<lambda>(k, acc). nb_dirty acc \<or> \<not> nb_bucket acc + minute < cutoff) (nb_state s)
      in s\<lparr>nb_state := map (\<lambda>(k, acc). (k, acc\<lparr>nb_dirty := False\<rparr>)) kept\<rparr>)"

definition RollupNeighbor1m_Clear :: "RollupNeighbor1m \<Rightarrow> RollupNeighbor1m" where
  "RollupNeighbor1m_Clear s = s\<lparr>nb_state := []\<rparr>"

section \<open>What the table is a function of\<close>

text \<open>The packets of one neighbor heard by one observer in one minute.\<close>

definition neighbor_packets :: "Event list \<Rightarrow> bytes \<times> bytes \<times> time \<Rightarrow> packets" where
  "neighbor_packets hist k = filter (\<lambda>(e, p). 0 < slice_len (pp_SourcePrefix p) \<and>
     (ev_ObserverID e, slice_key (pp_SourcePrefix p), truncate_time minute (ev_TS e)) = k) (packet_events hist)"

definition neighbor_row_spec :: "packets \<Rightarrow> neighbor_row \<Rightarrow> bool" where
  "neighbor_row_spec P r \<longleftrightarrow> rn_packets r = int (length P) \<and>
     rn_min_rssi r = min_of (rssis P) \<and> rn_max_rssi r = max_of (rssis P) \<and>
     (rn_avg_rssi r = None \<longleftrightarrow> rssis P = []) \<and> (rn_avg_snr r = None \<longleftrightarrow> snrs P = [])"

definition neighbor_ok :: "env \<Rightarrow> Event list \<Rightarrow> (bytes \<times> bytes \<times> time, neighbor_row) pgtable \<Rightarrow> bool" where
  "neighbor_ok E hist tab \<longleftrightarrow> distinct (map fst tab) \<and>
     (\<forall>k. map_of tab k \<noteq> None \<longleftrightarrow> neighbor_packets hist k \<noteq> []) \<and>
     (\<forall>k r. map_of tab k = Some r \<longrightarrow> neighbor_row_spec (neighbor_packets hist k) r)"

definition neighbor_wf :: "Event \<Rightarrow> bool" where
  "neighbor_wf e \<longleftrightarrow> wf_time (ev_TS e)"

definition neighbor_view :: "packets \<Rightarrow> neighborAccum \<Rightarrow> bool" where
  "neighbor_view P acc \<longleftrightarrow> nb_packets acc = int (length P) \<and>
     nb_minRSSI acc = min_of (rssis P) \<and> nb_maxRSSI acc = max_of (rssis P) \<and>
     0 \<le> nb_nRSSI acc \<and> (0 < nb_nRSSI acc \<longleftrightarrow> rssis P \<noteq> []) \<and>
     0 \<le> nb_nSNR acc \<and> (0 < nb_nSNR acc \<longleftrightarrow> snrs P \<noteq> [])"

definition neighbor_entry :: "Event list \<Rightarrow> Event list \<Rightarrow> neighborAccum \<Rightarrow> bool" where
  "neighbor_entry hist es acc \<longleftrightarrow> in_unix_range (nb_bucket acc) \<and>
     neighbor_view (neighbor_packets (if nb_loaded acc then hist @ es else es) (neighbor_bucket acc)) acc \<and>
     (if nb_dirty acc then neighbor_packets es (neighbor_bucket acc) \<noteq> []
      else nb_loaded acc \<and> neighbor_packets es (neighbor_bucket acc) = [])"

definition neighbor_memory :: "Event list \<Rightarrow> Event list \<Rightarrow> RollupNeighbor1m \<Rightarrow> bool" where
  "neighbor_memory hist es s \<longleftrightarrow> distinct (map fst (nb_state s)) \<and>
     (\<forall>k. in_unix_range (snd (snd k)) \<longrightarrow> neighbor_packets es k \<noteq> [] \<longrightarrow>
        map_of (nb_state s) (neighbor_key k) \<noteq> None) \<and>
     (\<forall>i acc. map_of (nb_state s) i = Some acc \<longrightarrow>
        i = neighbor_key (neighbor_bucket acc) \<and> neighbor_entry hist es acc)"

definition neighbor_sync ::
  "env \<Rightarrow> Event list \<Rightarrow> Event list \<Rightarrow> RollupNeighbor1m \<Rightarrow>
   (bytes \<times> bytes \<times> time, neighbor_row) pgtable \<Rightarrow> bool" where
  "neighbor_sync E hist es s tab \<longleftrightarrow> neighbor_ok E hist tab \<and> neighbor_memory hist es s"

section \<open>Applying an event\<close>

lemma neighbor_packets_append [simp]:
  "neighbor_packets (xs @ ys) k = neighbor_packets xs k @ neighbor_packets ys k"
  by (simp add: neighbor_packets_def)

lemma neighbor_packets_Nil [simp]: "neighbor_packets [] k = []"
  by (simp add: neighbor_packets_def)

lemma neighbor_packets_single:
  "neighbor_packets [e] k = (case packet_of e of None \<Rightarrow> []
     | Some p \<Rightarrow> if 0 < slice_len (pp_SourcePrefix p) \<and>
         (ev_ObserverID e, slice_key (pp_SourcePrefix p), truncate_time minute (ev_TS e)) = k then [(e, p)] else [])"
  by (auto simp: neighbor_packets_def packet_events_single payload_of_iff split: option.splits EventPayload.splits)

lemma neighbor_key_inj:
  "in_unix_range (snd (snd k)) \<Longrightarrow> in_unix_range (snd (snd k')) \<Longrightarrow> neighbor_key k = neighbor_key k' \<longleftrightarrow> k = k'"
  by (auto simp: neighbor_key_def unix_nano_inj split: prod.splits)

lemma new_neighborAccum_simps [simp]:
  "neighbor_bucket (new_neighborAccum k) = k" "neighbor_view [] (new_neighborAccum k)"
  "\<not> nb_loaded (new_neighborAccum k)" "nb_bucket (new_neighborAccum k) = snd (snd k)"
  by (auto simp: new_neighborAccum_def neighbor_bucket_def neighbor_view_def split: prod.splits)

lemma count_neighborAccum_simps [simp]:
  "neighbor_bucket (count_neighborAccum p acc) = neighbor_bucket acc"
  "nb_bucket (count_neighborAccum p acc) = nb_bucket acc"
  "nb_loaded (count_neighborAccum p acc) = nb_loaded acc" "nb_dirty (count_neighborAccum p acc)"
  by (simp_all add: count_neighborAccum_def neighbor_bucket_def Let_def split: option.splits)

lemma count_neighborAccum_view:
  "neighbor_view P acc \<Longrightarrow> neighbor_view (P @ [(e, p)]) (count_neighborAccum p acc)"
  by (auto simp: neighbor_view_def count_neighborAccum_def Let_def new_min_least new_max_greatest
      agg_append sql_simps split: option.splits)

lemma bucket_of_neighbor [simp]: "snd (snd (neighbor_bucket acc)) = nb_bucket acc"
  by (simp add: neighbor_bucket_def)

text \<open>The accumulator of a bucket, allocated or not, before an event is counted in it.\<close>

lemma neighbor_touch:
  assumes m: "neighbor_memory hist es s" and k: "in_unix_range (snd (snd k))"
    and acc: "acc = (case map_of (nb_state s) (neighbor_key k) of Some acc \<Rightarrow> acc | None \<Rightarrow> new_neighborAccum k)"
  shows "neighbor_bucket acc = k \<and> neighbor_view (neighbor_packets (if nb_loaded acc then hist @ es else es) k) acc"
proof (cases "map_of (nb_state s) (neighbor_key k)")
  case None
  then have "neighbor_packets es k = []" using m k unfolding neighbor_memory_def by blast
  then show ?thesis using acc None by simp
next
  case (Some a)
  then have "neighbor_key k = neighbor_key (neighbor_bucket a) \<and> neighbor_entry hist es a"
    using m unfolding neighbor_memory_def by blast
  moreover from this have "k = neighbor_bucket a"
    using neighbor_key_inj k by (metis bucket_of_neighbor neighbor_entry_def)
  ultimately show ?thesis using acc Some by (simp add: neighbor_entry_def)
qed

lemma neighbor_entry_skip:
  "neighbor_packets [e] (neighbor_bucket acc) = [] \<Longrightarrow>
    neighbor_entry hist (es @ [e]) acc = neighbor_entry hist es acc"
  by (simp add: neighbor_entry_def)

lemma neighbor_memory_update:
  assumes m: "neighbor_memory hist es s" and k: "in_unix_range (snd (snd k))"
    and acc: "neighbor_bucket acc = k" "neighbor_entry hist (es @ [e]) acc"
    and only: "\<And>k'. k' \<noteq> k \<Longrightarrow> neighbor_packets [e] k' = []"
  shows "neighbor_memory hist (es @ [e]) (s\<lparr>nb_state := AList.update (neighbor_key k) acc (nb_state s)\<rparr>)"
proof -
  let ?m = "AList.update (neighbor_key k) acc (nb_state s)"
  have "map_of ?m (neighbor_key k') \<noteq> None"
    if "in_unix_range (snd (snd k'))" "neighbor_packets (es @ [e]) k' \<noteq> []" for k'
  proof (cases "k' = k")
    case False
    then have "neighbor_packets es k' \<noteq> []" using only that(2) by simp
    then have "map_of (nb_state s) (neighbor_key k') \<noteq> None"
      using m that(1) unfolding neighbor_memory_def by blast
    then show ?thesis by (simp add: update_conv' del: map_of_eq_Some_iff)
  qed (simp add: update_conv')
  moreover have "i = neighbor_key (neighbor_bucket a) \<and> neighbor_entry hist (es @ [e]) a"
    if a: "map_of ?m i = Some a" for i a
  proof (cases "i = neighbor_key k")
    case True
    then show ?thesis using a acc by (simp add: update_conv')
  next
    case False
    then have "map_of (nb_state s) i = Some a" using a by (simp add: update_conv')
    then have en: "i = neighbor_key (neighbor_bucket a) \<and> neighbor_entry hist es a"
      using m unfolding neighbor_memory_def by blast
    with False have "neighbor_packets [e] (neighbor_bucket a) = []" by (intro only) auto
    with en show ?thesis by (simp add: neighbor_entry_skip)
  qed
  moreover have "distinct (map fst ?m)" using m by (simp add: neighbor_memory_def distinct_update)
  ultimately show ?thesis unfolding neighbor_memory_def by simp
qed

lemma RollupNeighbor1m_Apply_memory:
  assumes m: "neighbor_memory hist es s" and wf: "neighbor_wf e"
  shows "neighbor_memory hist (es @ [e]) (RollupNeighbor1m_Apply e s)"
proof (cases "\<exists>p. packet_of e = Some p \<and> 0 < slice_len (pp_SourcePrefix p)")
  case False
  then have "RollupNeighbor1m_Apply e s = s" "\<And>k. neighbor_packets [e] k = []"
    by (auto simp: RollupNeighbor1m_Apply_def neighbor_packets_single payload_of_iff
        split: EventPayload.splits option.splits)
  then show ?thesis using m by (simp add: neighbor_memory_def neighbor_entry_skip del: map_of_eq_Some_iff)
next
  case True
  then obtain p where p: "packet_of e = Some p" "0 < slice_len (pp_SourcePrefix p)" by blast
  define k where "k = (ev_ObserverID e, slice_key (pp_SourcePrefix p), truncate_time minute (ev_TS e))"
  define acc where "acc = (case map_of (nb_state s) (neighbor_key k) of
    Some acc \<Rightarrow> acc | None \<Rightarrow> new_neighborAccum k)"
  have k: "in_unix_range (snd (snd k))"
    using wf by (simp add: k_def neighbor_wf_def wf_time_bucket minute_le_hour)
  note t = neighbor_touch [OF m k acc_def]
  have ev: "neighbor_packets [e] k' = (if k = k' then [(e, p)] else [])" for k'
    using p by (simp add: neighbor_packets_single k_def)
  have en: "neighbor_entry hist (es @ [e]) (count_neighborAccum p acc)"
  proof -
    have "nb_bucket acc = snd (snd k)" using t bucket_of_neighbor by metis
    moreover have "neighbor_packets (if nb_loaded acc then hist @ es @ [e] else es @ [e]) k =
        neighbor_packets (if nb_loaded acc then hist @ es else es) k @ [(e, p)]"
      by (simp add: ev)
    ultimately show ?thesis
      unfolding neighbor_entry_def count_neighborAccum_simps
      using t k count_neighborAccum_view ev by simp
  qed
  have "neighbor_memory hist (es @ [e])
      (s\<lparr>nb_state := AList.update (neighbor_key k) (count_neighborAccum p acc) (nb_state s)\<rparr>)"
    by (rule neighbor_memory_update [OF m k _ en]) (use t ev in simp_all)
  moreover have "RollupNeighbor1m_Apply e s =
      s\<lparr>nb_state := AList.update (neighbor_key k) (count_neighborAccum p acc) (nb_state s)\<rparr>"
    using p unfolding acc_def k_def by (simp add: RollupNeighbor1m_Apply_def payload_of_iff Let_def)
  ultimately show ?thesis by simp
qed

section \<open>Rehydration\<close>

lemma load_neighbor_simps [simp]:
  "neighbor_bucket (load_neighbor r acc) = neighbor_bucket acc" "nb_bucket (load_neighbor r acc) = nb_bucket acc"
  "nb_loaded (load_neighbor r acc) = nb_loaded acc" "nb_dirty (load_neighbor r acc) = nb_dirty acc"
  by (simp_all add: load_neighbor_def neighbor_bucket_def)

lemma mark_neighbor_simps [simp]:
  "neighbor_bucket (mark_neighbor acc) = neighbor_bucket acc" "nb_bucket (mark_neighbor acc) = nb_bucket acc"
  "nb_dirty (mark_neighbor acc) = nb_dirty acc" "neighbor_view P (mark_neighbor acc) = neighbor_view P acc"
  "nb_loaded (mark_neighbor acc) \<longleftrightarrow> nb_loaded acc \<or> nb_dirty acc"
  by (simp_all add: mark_neighbor_def neighbor_view_def neighbor_bucket_def)

lemma load_neighbor_view:
  assumes acc: "neighbor_view Pe acc" and row: "neighbor_row_spec Ph r"
  shows "neighbor_view (Ph @ Pe) (load_neighbor r acc)"
proof -
  have pos: "rssis Ph \<noteq> [] \<Longrightarrow> 0 < rn_packets r" "snrs Ph \<noteq> [] \<Longrightarrow> 0 < rn_packets r" "0 \<le> rn_packets r"
    using row rssis_nonempty [of Ph] snrs_nonempty [of Ph] by (simp_all add: neighbor_row_spec_def)
  have old: "rn_avg_rssi r = None \<longleftrightarrow> rssis Ph = []" "rn_avg_snr r = None \<longleftrightarrow> snrs Ph = []"
    "0 \<le> nb_nRSSI acc" "0 < nb_nRSSI acc \<longleftrightarrow> rssis Pe \<noteq> []" "0 \<le> nb_nSNR acc" "0 < nb_nSNR acc \<longleftrightarrow> snrs Pe \<noteq> []"
    using acc row by (simp_all only: neighbor_view_def neighbor_row_spec_def)
  have new: "nb_nRSSI (load_neighbor r acc) =
      nb_nRSSI acc + (if rn_avg_rssi r \<noteq> None \<and> rn_packets r > 0 then rn_packets r else 0)"
    "nb_nSNR (load_neighbor r acc) =
      nb_nSNR acc + (if rn_avg_snr r \<noteq> None \<and> rn_packets r > 0 then rn_packets r else 0)"
    by (simp_all add: load_neighbor_def)
  have n: "0 < nb_nRSSI (load_neighbor r acc) \<longleftrightarrow> rssis (Ph @ Pe) \<noteq> []" "0 \<le> nb_nRSSI (load_neighbor r acc)"
    "0 < nb_nSNR (load_neighbor r acc) \<longleftrightarrow> snrs (Ph @ Pe) \<noteq> []" "0 \<le> nb_nSNR (load_neighbor r acc)"
    unfolding new using pos old by (cases "rssis Ph = []"; cases "snrs Ph = []"; simp)+
  have m: "nb_minRSSI (load_neighbor r acc) = least (nb_minRSSI acc) (rn_min_rssi r)"
    "nb_maxRSSI (load_neighbor r acc) = greatest (nb_maxRSSI acc) (rn_max_rssi r)"
    "nb_packets (load_neighbor r acc) = nb_packets acc + rn_packets r"
    by (simp_all add: load_neighbor_def new_min_least new_max_greatest sql_simps split: option.splits)
  show ?thesis
    unfolding neighbor_view_def n m
    using acc row n
    by (simp add: neighbor_view_def neighbor_row_spec_def min_of_append max_of_append least_commute greatest_commute)
qed

lemma neighbor_pending_set:
  assumes "range_order (range_of E)" "distinct (map fst (nb_state s))"
  shows "acc \<in> set (neighbor_pending E s) \<longleftrightarrow>
    (\<exists>i. map_of (nb_state s) i = Some acc) \<and> \<not> nb_loaded acc \<and> nb_dirty acc"
  using assms by (force simp: neighbor_pending_def)

lemma rehydrate_neighbor_run:
  assumes "rehydrate_neighbor E s t = (s1, Inr t1)" and "neighbor_pending E s \<noteq> []"
  shows "map_of (nb_state s1) i = map_option (\<lambda>acc. mark_neighbor (fold load_neighbor
      (map snd (filter (\<lambda>r. fst r = i) (map (\<lambda>(k, r). (neighbor_key k, r))
        (select_neighbors (map neighbor_bucket (neighbor_pending E s)) (tables t))))) acc)) (map_of (nb_state s) i)"
    and "distinct (map fst (nb_state s)) \<Longrightarrow> distinct (map fst (nb_state s1))"
  using assms
  by (auto simp: rehydrate_neighbor_def Let_def query_Inr map_of_map_values map_of_fold_alter option.map_comp
      comp_def case_prod_beta intro!: distinct_fold_alter split: sum.splits simp del: map_of_eq_Some_iff)

lemma rehydrate_neighbor_keeps:
  assumes "rehydrate_neighbor E s t = (s1, Inr t1)"
  shows "tables t1 = tables t" "neighbor_pending E s = [] \<Longrightarrow> s1 = s"
  using assms by (auto simp: rehydrate_neighbor_def Let_def query_Inr split: if_splits sum.splits)

lemma neighbor_entry_unloaded: "neighbor_entry hist es acc \<Longrightarrow> \<not> nb_loaded acc \<Longrightarrow> nb_dirty acc"
  by (simp add: neighbor_entry_def split: if_splits)

lemma neighbor_memoryD:
  assumes "neighbor_memory hist es s"
  shows "distinct (map fst (nb_state s))"
    and "in_unix_range (snd (snd k)) \<Longrightarrow> neighbor_packets es k \<noteq> [] \<Longrightarrow>
      map_of (nb_state s) (neighbor_key k) \<noteq> None"
    and "map_of (nb_state s) i = Some acc \<Longrightarrow>
      i = neighbor_key (neighbor_bucket acc) \<and> neighbor_entry hist es acc"
  using assms unfolding neighbor_memory_def by blast+

lemma neighbor_okD:
  assumes "neighbor_ok E hist tab"
  shows "distinct (map fst tab)" and "map_of tab k \<noteq> None \<longleftrightarrow> neighbor_packets hist k \<noteq> []"
    and "map_of tab k = Some r \<Longrightarrow> neighbor_row_spec (neighbor_packets hist k) r"
  using assms unfolding neighbor_ok_def by blast+

lemma rehydrate_neighbor_ready:
  assumes run: "rehydrate_neighbor E s t = (s1, Inr t1)" and ord: "range_order (range_of E)"
    and ok: "neighbor_ok E hist (t_rollup_neighbor_1m (tables t))" and mem: "neighbor_memory hist es s"
  shows "neighbor_memory hist es s1" and "map_of (nb_state s1) i = Some acc \<Longrightarrow> nb_loaded acc"
proof -
  let ?m = "nb_state s" and ?tab = "t_rollup_neighbor_1m (tables t)"
  let ?keys = "map neighbor_bucket (neighbor_pending E s)"
  note d = neighbor_memoryD(1) [OF mem] and entry = neighbor_memoryD(3) [OF mem] and row = neighbor_okD [OF ok]
  note pend = neighbor_pending_set [OF ord d]
  have rng: "in_unix_range (snd (snd k))" if "k \<in> set ?keys" for k
  proof -
    from that obtain acc where "acc \<in> set (neighbor_pending E s)" and k: "k = neighbor_bucket acc" by auto
    then obtain i where "map_of ?m i = Some acc" unfolding pend by blast
    from entry [OF this] k show ?thesis by (simp add: neighbor_entry_def)
  qed
  have "(\<forall>i acc. map_of (nb_state s1) i = Some acc \<longrightarrow> nb_loaded acc) \<and> neighbor_memory hist es s1"
  proof (cases "neighbor_pending E s = []")
    case True
    then have none: "\<not> (\<exists>i. map_of ?m i = Some acc \<and> \<not> nb_loaded acc)" for acc
      using pend [of acc] entry neighbor_entry_unloaded by fastforce
    have "s1 = s" using rehydrate_neighbor_keeps(2) [OF run True] .
    with none mem show ?thesis by blast
  next
    case False
    note m = rehydrate_neighbor_run(1) [OF run False]
    have new: "nb_loaded acc' \<and> i = neighbor_key (neighbor_bucket acc') \<and> neighbor_entry hist es acc'"
      if acc': "map_of (nb_state s1) i = Some acc'" for i acc'
    proof -
      from acc' m [of i] obtain acc where acc: "map_of ?m i = Some acc" by (cases "map_of ?m i") auto
      let ?k = "neighbor_bucket acc"
      from entry [OF acc] have i: "i = neighbor_key ?k" and e: "neighbor_entry hist es acc" by simp_all
      then have k: "in_unix_range (snd (snd ?k))" by (simp add: neighbor_entry_def)
      have "acc2 = acc" if "acc2 \<in> set (neighbor_pending E s)" "neighbor_bucket acc2 = ?k" for acc2
      proof -
        from that obtain j where j: "map_of ?m j = Some acc2" unfolding pend by blast
        then have "j = neighbor_key (neighbor_bucket acc2)" using entry by blast
        then have "j = i" unfolding that(2) i .
        then show ?thesis using j acc by (simp only: option.inject)
      qed
      moreover have "acc \<in> set (neighbor_pending E s) \<longleftrightarrow> \<not> nb_loaded acc"
        unfolding pend using acc neighbor_entry_unloaded [OF e] by blast
      ultimately have sel: "?k \<in> set ?keys \<longleftrightarrow> \<not> nb_loaded acc" by auto
      have tot: "map snd (filter (\<lambda>r. fst r = i) (map (\<lambda>(k, r). (neighbor_key k, r)) (select_neighbors ?keys (tables t)))) =
          (case map_of ?tab ?k of None \<Rightarrow> [] | Some r \<Rightarrow> if ?k \<in> set ?keys then [r] else [])"
        unfolding i select_neighbors_def by (rule selected_rows [OF row(1)]) (use rng k neighbor_key_inj in blast)
      have eq: "acc' = mark_neighbor (fold load_neighbor (case map_of ?tab ?k of None \<Rightarrow> []
          | Some r \<Rightarrow> if nb_loaded acc then [] else [r]) acc)"
        using acc' m [of i] acc unfolding tot sel by (simp split: option.splits if_splits)
      show ?thesis
      proof (cases "nb_loaded acc")
        case True
        then have "acc' = acc" using eq by (simp add: mark_neighbor_def split: option.splits)
        then show ?thesis using True i e by simp
      next
        case False
        have v: "neighbor_view (neighbor_packets es ?k) acc" and dirty: "nb_dirty acc"
          using e False neighbor_entry_unloaded [OF e] by (simp_all add: neighbor_entry_def)
        have "neighbor_view (neighbor_packets (hist @ es) ?k)
            (case map_of ?tab ?k of None \<Rightarrow> acc | Some r \<Rightarrow> load_neighbor r acc)"
        proof (cases "map_of ?tab ?k")
          case None
          then show ?thesis using v row(2) [of ?k] by simp
        next
          case (Some r)
          then show ?thesis using load_neighbor_view [OF v row(3) [OF Some]] by simp
        qed
        moreover have "acc' = mark_neighbor (case map_of ?tab ?k of None \<Rightarrow> acc | Some r \<Rightarrow> load_neighbor r acc)"
          using eq False by (simp split: option.splits)
        ultimately show ?thesis
          using dirty i e by (cases "map_of ?tab ?k") (simp_all add: neighbor_entry_def)
      qed
    qed
    have "map_of (nb_state s1) (neighbor_key k) \<noteq> None"
      if "in_unix_range (snd (snd k))" "neighbor_packets es k \<noteq> []" for k
      using neighbor_memoryD(2) [OF mem that] unfolding m by simp
    then show ?thesis
      using rehydrate_neighbor_run(2) [OF run False d] new unfolding neighbor_memory_def by blast
  qed
  then show "neighbor_memory hist es s1" and "map_of (nb_state s1) i = Some acc \<Longrightarrow> nb_loaded acc" by blast+
qed

section \<open>Flush\<close>

abbreviation clean_neighbor :: "neighborAccum \<Rightarrow> neighborAccum" where
  "clean_neighbor acc \<equiv> acc\<lparr>nb_dirty := False\<rparr>"

definition neighbor_newrow :: "env \<Rightarrow> neighborAccum \<Rightarrow> neighbor_row option \<Rightarrow> neighbor_row" where
  "neighbor_newrow E acc old = neighbor_excluded acc
     (Option.bind (neighbor_avg_rssi acc) (q62 E)) (Option.bind (neighbor_avg_snr acc) (q62 E))"

definition neighbor_valid :: "env \<Rightarrow> neighborAccum \<Rightarrow> bool" where
  "neighbor_valid E acc \<longleftrightarrow> neighbor_row_ok acc \<and>
     numeric_opt (q62 E) (neighbor_avg_rssi acc) \<noteq> None \<and> numeric_opt (q62 E) (neighbor_avg_snr acc) \<noteq> None"

lemma neighbor_upsert_effect:
  assumes "neighbor_upsert E acc d = Inr d'"
  shows "neighbor_valid E acc \<and> d' = d\<lparr>t_rollup_neighbor_1m := AList.update (neighbor_bucket acc)
    (neighbor_newrow E acc (map_of (t_rollup_neighbor_1m d) (neighbor_bucket acc))) (t_rollup_neighbor_1m d)\<rparr>"
proof -
  from assms obtain rssi snr where q: "numeric_opt (q62 E) (neighbor_avg_rssi acc) = Some rssi"
    "numeric_opt (q62 E) (neighbor_avg_snr acc) = Some snr"
    by (auto simp: neighbor_upsert_def split: option.splits)
  with assms numeric_opt_bind [OF q(1)] numeric_opt_bind [OF q(2)] show ?thesis
    by (simp add: neighbor_upsert_def neighbor_newrow_def neighbor_valid_def split: if_splits)
qed

interpretation neighbor_loop: accum_loop t_rollup_neighbor_1m "\<lambda>x. t_rollup_neighbor_1m_update (\<lambda>_. x)"
  nb_state "\<lambda>m. nb_state_update (\<lambda>_. m)" nb_dirty clean_neighbor neighbor_bucket
  neighbor_upsert neighbor_newrow neighbor_valid
  by unfold_locales (auto dest: neighbor_upsert_effect)

lemma flush_neighbor_entry: "flush_neighbor E = neighbor_loop.flush_entry E"
  by (auto simp: flush_neighbor_def neighbor_loop.flush_entry_def fun_eq_iff split: sum.splits)

lemma neighbor_newrow_spec:
  assumes "neighbor_view P acc" and "neighbor_valid E acc"
  shows "neighbor_row_spec P (neighbor_newrow E acc old)"
  using assms
  by (auto simp: neighbor_row_spec_def neighbor_newrow_def neighbor_excluded_def neighbor_view_def
      neighbor_valid_def neighbor_avg_rssi_def neighbor_avg_snr_def numeric_opt_def
      split: if_splits option.splits)

lemma neighbor_in_range:
  assumes "list_all neighbor_wf hist" and "neighbor_packets hist k \<noteq> []"
  shows "in_unix_range (snd (snd k))"
proof -
  from assms(2) obtain e where "e \<in> set hist" "truncate_time minute (ev_TS e) = snd (snd k)"
    by (auto simp: neighbor_packets_def packet_events_def List.map_filter_def filter_empty_conv)
  with assms(1) wf_time_bucket [of "ev_TS e" minute] minute_le_hour show ?thesis
    by (auto simp: list_all_iff neighbor_wf_def)
qed

lemma RollupNeighbor1m_Flush_split:
  assumes "RollupNeighbor1m_Flush E s t = (s', Inr t')"
  obtains s1 t1 where "rehydrate_neighbor E s t = (s1, Inr t1)" "tables t1 = tables t"
    "for_each (neighbor_loop.flush_entry E) (go_range (range_of E) (nb_state s1)) s1 t1 = (s', Inr t')"
proof -
  from assms obtain s1 t1 where r: "rehydrate_neighbor E s t = (s1, Inr t1)"
    and l: "for_each (flush_neighbor E) (go_range (range_of E) (nb_state s1)) s1 t1 = (s', Inr t')"
    by (auto simp: RollupNeighbor1m_Flush_def split: prod.splits sum.splits)
  from l show ?thesis unfolding flush_neighbor_entry by (rule that [OF r rehydrate_neighbor_keeps(1) [OF r]])
qed

lemma RollupNeighbor1m_Flush_frame:
  assumes "RollupNeighbor1m_Flush E s t = (s', Inr t')"
  shows "\<exists>x. tables t' = (tables t)\<lparr>t_rollup_neighbor_1m := x\<rparr>"
proof -
  obtain s1 t1 where "tables t1 = tables t" and
    "for_each (neighbor_loop.flush_entry E) (go_range (range_of E) (nb_state s1)) s1 t1 = (s', Inr t')"
    by (rule RollupNeighbor1m_Flush_split [OF assms])
  with neighbor_loop.flush_entries_frame show ?thesis by metis
qed

lemma neighbor_entry_clean:
  "neighbor_entry hist es acc \<Longrightarrow> nb_loaded acc \<Longrightarrow>
    neighbor_entry (hist @ es) [] (if nb_dirty acc then clean_neighbor acc else acc)"
  by (simp add: neighbor_entry_def neighbor_view_def neighbor_bucket_def split: if_splits)

lemma RollupNeighbor1m_Flush_sync:
  assumes run: "RollupNeighbor1m_Flush E s t = (s', Inr t')" and ord: "range_order (range_of E)"
    and wf: "list_all neighbor_wf (hist @ es)"
    and sync: "neighbor_sync E hist es s (t_rollup_neighbor_1m (tables t))"
  shows "neighbor_sync E (hist @ es) [] s' (t_rollup_neighbor_1m (tables t'))"
proof -
  let ?tab = "\<lambda>u. t_rollup_neighbor_1m (tables u)" and ?P = neighbor_packets
  obtain s1 t1 where r: "rehydrate_neighbor E s t = (s1, Inr t1)" and t1: "tables t1 = tables t"
    and l: "for_each (neighbor_loop.flush_entry E) (go_range (range_of E) (nb_state s1)) s1 t1 = (s', Inr t')"
    by (rule RollupNeighbor1m_Flush_split [OF run])
  have ok: "neighbor_ok E hist (?tab t1)" and "neighbor_ok E hist (?tab t)" and m0: "neighbor_memory hist es s"
    using sync by (simp_all add: neighbor_sync_def t1)
  note ready = rehydrate_neighbor_ready [OF r ord this(2) m0]
  note mem = neighbor_memoryD [OF ready(1)] and row = neighbor_okD [OF ok]
  have inj: "\<forall>i a j b. map_of (nb_state s1) i = Some a \<longrightarrow> map_of (nb_state s1) j = Some b \<longrightarrow>
      neighbor_bucket a = neighbor_bucket b \<longrightarrow> i = j"
    using mem(3) by metis
  note loop = neighbor_loop.flush_entries [OF l ord mem(1) row(1) inj]
  have rows: "(map_of (?tab t') k \<noteq> None \<longleftrightarrow> ?P (hist @ es) k \<noteq> []) \<and>
      (\<forall>r. map_of (?tab t') k = Some r \<longrightarrow> neighbor_row_spec (?P (hist @ es) k) r)" for k
  proof (cases "\<exists>i acc. map_of (nb_state s1) i = Some acc \<and> nb_dirty acc \<and> neighbor_bucket acc = k")
    case True
    then obtain i acc where acc: "map_of (nb_state s1) i = Some acc" "nb_dirty acc" "neighbor_bucket acc = k"
      by blast
    have v: "neighbor_view (?P (hist @ es) k) acc" "?P es k \<noteq> []"
      using mem(3) [OF acc(1)] ready(2) [OF acc(1)] acc(2,3) by (simp_all add: neighbor_entry_def)
    from loop(5) [OF acc(1,2)] have n: "neighbor_valid E acc"
      "map_of (?tab t') k = Some (neighbor_newrow E acc (map_of (?tab t1) k))"
      unfolding acc(3) by blast+
    then show ?thesis using neighbor_newrow_spec [OF v(1) n(1)] v(2) by simp
  next
    case False
    have same: "map_of (?tab t') k = map_of (?tab t1) k"
      by (rule loop(6)) (use False in blast)
    have "?P es k = []"
    proof (rule ccontr)
      assume a: "?P es k \<noteq> []"
      then have k: "in_unix_range (snd (snd k))" using neighbor_in_range [of es k] wf by simp
      with mem(2) a obtain acc where acc: "map_of (nb_state s1) (neighbor_key k) = Some acc" by blast
      note en = mem(3) [OF acc]
      then have "in_unix_range (snd (snd (neighbor_bucket acc)))" by (simp add: neighbor_entry_def)
      from neighbor_key_inj [OF this k] en have k': "neighbor_bucket acc = k" by simp
      with False acc have "\<not> nb_dirty acc" by blast
      with en a show False unfolding neighbor_entry_def k' by simp
    qed
    then show ?thesis using row(2) [of k] row(3) [of k] unfolding same by simp
  qed
  have "i = neighbor_key (neighbor_bucket a) \<and> neighbor_entry (hist @ es) [] a"
    if a: "map_of (nb_state s') i = Some a" for i a
  proof -
    from a obtain acc where acc: "map_of (nb_state s1) i = Some acc"
      and a: "a = (if nb_dirty acc then clean_neighbor acc else acc)"
      unfolding loop(4) map_option_eq_Some by blast
    have "neighbor_bucket a = neighbor_bucket acc" by (simp add: a neighbor_bucket_def)
    then show ?thesis
      using mem(3) [OF acc] neighbor_entry_clean [OF _ ready(2) [OF acc], of hist es] by (simp add: a)
  qed
  then have "neighbor_memory (hist @ es) [] s'" using loop(2) unfolding neighbor_memory_def by simp
  moreover have "neighbor_ok E (hist @ es) (?tab t')" using rows loop(1) unfolding neighbor_ok_def by blast
  ultimately show ?thesis by (simp add: neighbor_sync_def)
qed

lemma RollupNeighbor1m_Evict_memory:
  assumes "neighbor_memory hist [] s"
  shows "neighbor_memory hist [] (RollupNeighbor1m_Evict h s)"
proof -
  let ?f = "filter (\<lambda>(k, acc). nb_dirty acc \<or> \<not> nb_bucket acc + minute < h - hour) (nb_state s)"
  note mem = neighbor_memoryD [OF assms]
  have st: "nb_state (RollupNeighbor1m_Evict h s) = map (\<lambda>(k, acc). (k, clean_neighbor acc)) ?f"
    by (simp add: RollupNeighbor1m_Evict_def Let_def)
  have df: "distinct (map fst ?f)" using mem(1) by (simp add: distinct_map_filter)
  have "i = neighbor_key (neighbor_bucket a) \<and> neighbor_entry hist [] a"
    if "map_of (nb_state (RollupNeighbor1m_Evict h s)) i = Some a" for i a
  proof -
    from that obtain acc where "map_of ?f i = Some acc" and a: "a = clean_neighbor acc"
      unfolding st map_of_map_values by auto
    then have "map_of (nb_state s) i = Some acc" using mem(1) df by (cases i) auto
    note en = mem(3) [OF this]
    then have "a = acc" using a by (simp add: neighbor_entry_def split: if_splits)
    with en show ?thesis by simp
  qed
  moreover have "distinct (map fst (nb_state (RollupNeighbor1m_Evict h s)))"
    using df by (simp add: st comp_def case_prod_beta)
  ultimately show ?thesis unfolding neighbor_memory_def by simp
qed

interpretation neighbor_stage: stage t_rollup_neighbor_1m "\<lambda>x. t_rollup_neighbor_1m_update (\<lambda>_. x)"
  RollupNeighbor1m_Apply RollupNeighbor1m_Flush RollupNeighbor1m_Evict NewRollupNeighbor1m
  "\<lambda>_ _. True" neighbor_wf neighbor_ok neighbor_sync
proof unfold_locales
  fix E :: env and hist es :: "Event list" and s s' :: RollupNeighbor1m and t t' :: tx and h :: time
    and tab :: "(bytes \<times> bytes \<times> time, neighbor_row) pgtable" and e :: Event
  show "neighbor_ok E hist tab \<Longrightarrow> neighbor_sync E hist [] NewRollupNeighbor1m tab"
    by (simp add: neighbor_sync_def neighbor_memory_def NewRollupNeighbor1m_def)
  show "neighbor_sync E hist [] s tab \<Longrightarrow> neighbor_ok E hist tab" by (simp add: neighbor_sync_def)
  show "neighbor_sync E hist es s tab \<Longrightarrow> neighbor_wf e \<Longrightarrow>
      neighbor_sync E hist (es @ [e]) (RollupNeighbor1m_Apply e s) tab"
    by (simp add: neighbor_sync_def RollupNeighbor1m_Apply_memory)
  assume f: "RollupNeighbor1m_Flush E s t = (s', Inr t')"
  show "\<exists>x. tables t' = (tables t)\<lparr>t_rollup_neighbor_1m := x\<rparr>"
    by (rule RollupNeighbor1m_Flush_frame [OF f])
  assume o: "range_order (range_of E)"
  show "neighbor_sync E hist [] s' (t_rollup_neighbor_1m (tables t'))"
    if "list_all neighbor_wf hist" "neighbor_sync E hist [] s (t_rollup_neighbor_1m (tables t))"
    using RollupNeighbor1m_Flush_sync [OF f o, of hist "[]"] that by simp
  show "neighbor_sync E (hist @ es) [] (RollupNeighbor1m_Evict h s') (t_rollup_neighbor_1m (tables t'))"
    if "list_all neighbor_wf (hist @ es)" "neighbor_sync E hist es s (t_rollup_neighbor_1m (tables t))"
    using RollupNeighbor1m_Flush_sync [OF f o that] RollupNeighbor1m_Evict_memory
    by (simp add: neighbor_sync_def)
qed

section \<open>Properties\<close>

text \<open>C15 In the neighbor rollup the packet count and the extremes of the signal strength of each
  observer, source prefix and minute are those of the committed log, and an average is present
  exactly when there is a sample; for any batching, eviction and restart.\<close>

theorem neighbor_function_of_log:
  assumes "neighbor_sync E hist [] s (t_rollup_neighbor_1m (tables t))"
    and "range_order (range_of E)" and "list_all neighbor_wf (hist @ es)"
    and "RollupNeighbor1m_Flush E (fold RollupNeighbor1m_Apply es s) t = (s', Inr t')"
  shows "neighbor_ok E (hist @ es) (t_rollup_neighbor_1m (tables t')) \<and>
    neighbor_sync E (hist @ es) [] (RollupNeighbor1m_Evict h s') (t_rollup_neighbor_1m (tables t'))"
  using neighbor_stage.batch_sync(1) [OF assms(4,2) _ assms(3,1)]
    neighbor_stage.flush_keeps_promise [OF assms(4,2) _ assms(3,1)] by simp

lemma neighbor_function_of_log_witness:
  "\<exists>s' t'. RollupNeighbor1m_Flush sample_env (fold RollupNeighbor1m_Apply [quiet_event] NewRollupNeighbor1m)
      sample_tx = (s', Inr t') \<and> neighbor_ok sample_env [quiet_event] (t_rollup_neighbor_1m (tables t'))"
proof -
  have "succeeds (RollupNeighbor1m_Flush sample_env (fold RollupNeighbor1m_Apply [quiet_event] NewRollupNeighbor1m) sample_tx)"
    by code_simp
  then obtain s' t' where r: "RollupNeighbor1m_Flush sample_env
      (fold RollupNeighbor1m_Apply [quiet_event] NewRollupNeighbor1m) sample_tx = (s', Inr t')"
    by (rule succeedsE)
  have s: "neighbor_sync sample_env [] [] NewRollupNeighbor1m (t_rollup_neighbor_1m (tables sample_tx))"
    by (rule neighbor_stage.fresh_sync) (simp add: neighbor_ok_def sample_tx_def empty_db_def)
  have w: "list_all neighbor_wf ([] @ [quiet_event])" by code_simp
  from neighbor_function_of_log [OF s sample_range w r] r show ?thesis by auto
qed

end
