(* ===== verification/Go_Time.thy ===== *)
theory Go_Time
  imports Go_Strings Go_Float
begin

text \<open>
  Durations as Go prints and measures them: \<^verbatim>\<open>Duration.String\<close> and \<^verbatim>\<open>Duration.Minutes\<close>.
\<close>

definition microsecond :: duration where "microsecond = 1000"
definition millisecond :: duration where "millisecond = 1000000"

text \<open>
  The fraction \<open>v / 10 ^ n\<close>, with a point and without trailing zeros, and nothing when it is zero.
\<close>

fun fraction_digits :: "nat \<Rightarrow> int \<Rightarrow> string" where
  "fraction_digits 0 v = []"
| "fraction_digits (Suc n) v =
     (if v mod 10 ^ Suc n = 0 then []
      else chr_of (nat (48 + v div 10 ^ n mod 10)) # fraction_digits n v)"

definition fraction :: "nat \<Rightarrow> int \<Rightarrow> string" where
  "fraction n v = (if v mod 10 ^ n = 0 then [] else CHR ''.'' # fraction_digits n v)"

definition duration_string :: "duration \<Rightarrow> string" where
  "duration_string d =
     (let u = \<bar>d\<bar>; s = (if d < 0 then ''-'' else []) in
      if u = 0 then ''0s''
      else if u < 1000 then s @ itoa u @ ''ns''
      else if u < 1000000 then s @ itoa (u div 1000) @ fraction 3 u @ [chr_of 194, chr_of 181] @ ''s''
      else if u < 1000000000 then s @ itoa (u div 1000000) @ fraction 6 u @ ''ms''
      else
        let secs = u div 1000000000; mins = secs div 60; hours = mins div 60;
            tail = itoa (secs mod 60) @ fraction 9 u @ ''s''
        in s @ (if mins = 0 then tail
                else if hours = 0 then itoa (mins mod 60) @ ''m'' @ tail
                else itoa hours @ ''h'' @ itoa (mins mod 60) @ ''m'' @ tail))"

text \<open>Go's division truncates towards zero.\<close>

definition quot :: "int \<Rightarrow> int \<Rightarrow> int" where
  "quot a b = sgn a * sgn b * (\<bar>a\<bar> div \<bar>b\<bar>)"

definition duration_minutes :: "duration \<Rightarrow> f64" where
  "duration_minutes d = f64_of_int (quot d minute) +
     f64_of_int (d - quot d minute * minute) / f64_of_int (60 * 1000000000)"

lemma duration_string_examples:
  "duration_string (15 * minute) = ''15m0s''" "duration_string hour = ''1h0m0s''"
  "duration_string (24 * hour) = ''24h0m0s''"
  by code_simp+

end
