(* ===== verification/Stage_Anomalies.thy ===== *)
theory Stage_Anomalies
  imports Stage_Rollup_Neighbor Go_Time
begin

text \<open>
  The \<^verbatim>\<open>anomalies\<close> stage (\<^verbatim>\<open>internal/project/stages/anomalies.go\<close>) and its three detectors
  (\<^verbatim>\<open>anomaly_rssi_drop.go\<close>, \<^verbatim>\<open>anomaly_observer_silent.go\<close>, \<^verbatim>\<open>anomaly_reception_gap.go\<close>).
  The detectors' queries are translated clause by clause: a common table expression is one
  definition, a \<^verbatim>\<open>GROUP BY\<close> the list of its groups. Quotients of \<^verbatim>\<open>numeric\<close> values are
  \<open>num_div\<close> of the environment, \<^verbatim>\<open>float8\<close> arithmetic is that of \<^typ>\<open>f64\<close>, and the order of
  a result, which SQL leaves open, is \<open>range_of\<close>.
\<close>

section \<open>Detectors\<close>

record Finding =
  fd_SubjectID :: bytes
  fd_Severity :: string
  fd_Details :: "(string \<times> detail) list"

record RSSIDrop =
  rd_RecentWindow :: duration
  rd_BaselineWindow :: duration
  rd_MinSamples :: int
  rd_ThresholdDB :: f64
  rd_Severity :: string

record ObserverSilent =
  os_RecentWindow :: duration
  os_BaselineWindow :: duration
  os_BaselineMinPerMin :: f64
  os_Severity :: string

record ReceptionGap =
  rg_RecentWindow :: duration
  rg_BaselineWindow :: duration
  rg_MinSamples :: int
  rg_BaselineMinPerMin :: f64
  rg_MaxRecentFraction :: f64
  rg_MinPeerFraction :: f64
  rg_MinPeers :: int
  rg_Severity :: string

text \<open>The implementations of the \<^verbatim>\<open>Detector\<close> interface.\<close>

datatype Detector = DetectRSSIDrop RSSIDrop | DetectObserverSilent ObserverSilent | DetectReceptionGap ReceptionGap

subsection \<open>SQL\<close>

text \<open>An interval parameter has microseconds.\<close>

definition sql_interval :: "duration \<Rightarrow> duration" where
  "sql_interval d = quot d microsecond * microsecond"

text \<open>\<^verbatim>\<open>GROUP BY\<close>, \<^verbatim>\<open>AVG\<close> of \<^verbatim>\<open>numeric\<close> values, and the rows of a result in the server's order.\<close>

definition groups :: "('a \<Rightarrow> 'g) \<Rightarrow> 'a list \<Rightarrow> ('g \<times> 'a list) list" where
  "groups f xs = map (\<lambda>g. (g, filter (\<lambda>x. f x = g) xs)) (remdups (map f xs))"

definition sql_avg :: "env \<Rightarrow> rat list \<Rightarrow> rat option" where
  "sql_avg E xs = (if xs = [] then None else Some (num_div E (sum_list xs) (of_nat (length xs))))"

text \<open>\<^verbatim>\<open>AVG(packets) >= $n\<close>.\<close>

definition at_least :: "rat option \<Rightarrow> rat \<Rightarrow> bool" where
  "at_least a b = (case a of None \<Rightarrow> False | Some x \<Rightarrow> b \<le> x)"

definition neighbor_window :: "time \<Rightarrow> time \<Rightarrow> db \<Rightarrow> ((bytes \<times> bytes \<times> time) \<times> neighbor_row) list" where
  "neighbor_window lo hi d = filter (\<lambda>((obs, src, b), r). lo \<le> b \<and> b < hi) (t_rollup_neighbor_1m d)"

definition observer_window :: "time \<Rightarrow> time \<Rightarrow> db \<Rightarrow> ((bytes \<times> time) \<times> rollup_row) list" where
  "observer_window lo hi d = filter (\<lambda>((obs, b), r). lo \<le> b \<and> b < hi) (t_rollup_observer_1m d)"

definition by_pair :: "((bytes \<times> bytes \<times> time) \<times> neighbor_row) list \<Rightarrow>
  ((bytes \<times> bytes) \<times> ((bytes \<times> bytes \<times> time) \<times> neighbor_row) list) list" where
  "by_pair rows = groups (\<lambda>((obs, src, b), r). (obs, src)) rows"

definition by_observer :: "((bytes \<times> time) \<times> rollup_row) list \<Rightarrow>
  (bytes \<times> ((bytes \<times> time) \<times> rollup_row) list) list" where
  "by_observer rows = groups (\<lambda>((obs, b), r). obs) rows"

definition neighbor_counts :: "((bytes \<times> bytes \<times> time) \<times> neighbor_row) list \<Rightarrow> int list" where
  "neighbor_counts rows = map (\<lambda>(k, r). rn_packets r) rows"

definition observer_counts :: "((bytes \<times> time) \<times> rollup_row) list \<Rightarrow> int list" where
  "observer_counts rows = map (\<lambda>(k, r). ro_packets r) rows"

subsection \<open>RSSIDrop\<close>

text \<open>The pairs with enough rows in a window and the average of the averages that are present.\<close>

definition rssi_window :: "env \<Rightarrow> time \<Rightarrow> time \<Rightarrow> int \<Rightarrow> db \<Rightarrow> ((bytes \<times> bytes) \<times> rat option) list" where
  "rssi_window E lo hi n d = map (\<lambda>(k, rows). (k, sql_avg E
       (List.map_filter (\<lambda>(_, r). map_option (num_of E) (rn_avg_rssi r)) rows)))
     (filter (\<lambda>(k, rows). int (length rows) \<ge> n) (by_pair (neighbor_window lo hi d)))"

definition RSSIDrop_query :: "env \<Rightarrow> RSSIDrop \<Rightarrow> time \<Rightarrow> db \<Rightarrow> (bytes \<times> bytes \<times> f64 \<times> f64) list" where
  "RSSIDrop_query E det t d =
     (let recent = t - sql_interval (rd_RecentWindow det);
          base = rssi_window E (recent - sql_interval (rd_BaselineWindow det)) recent (rd_MinSamples det) d;
          curr = rssi_window E recent t (rd_MinSamples det) d
      in go_range (range_of E) (List.map_filter (\<lambda>((obs, src), prev).
           case (prev, map_of curr (obs, src)) of
             (Some p, Some (Some c)) \<Rightarrow>
               if p - c \<ge> num_of E (rd_ThresholdDB det) then Some (obs, src, num_float E p, num_float E c) else None
           | _ \<Rightarrow> None) base))"

definition RSSIDrop_finding :: "RSSIDrop \<Rightarrow> bytes \<times> bytes \<times> f64 \<times> f64 \<Rightarrow> Finding" where
  "RSSIDrop_finding det = (\<lambda>(observerID, source, rssiPrev, rssiCurr).
     \<lparr>fd_SubjectID = source, fd_Severity = rd_Severity det, fd_Details =
       [(''observer'', DBytes observerID), (''source'', DBytes source), (''rssi_prev'', DFloat rssiPrev),
        (''rssi_curr'', DFloat rssiCurr), (''delta_db'', DFloat (rssiPrev - rssiCurr)),
        (''recent_window'', DText (duration_string (rd_RecentWindow det))),
        (''baseline_window'', DText (duration_string (rd_BaselineWindow det)))]\<rparr>)"

definition RSSIDrop_Run :: "env \<Rightarrow> RSSIDrop \<Rightarrow> time \<Rightarrow> tx \<Rightarrow> err + Finding list \<times> tx" where
  "RSSIDrop_Run E det t tx =
     (case query (RSSIDrop_query E det t) tx of
        Inl e \<Rightarrow> Inl e
      | Inr (rows, tx') \<Rightarrow> Inr (map (RSSIDrop_finding det) rows, tx'))"

subsection \<open>ObserverSilent\<close>

definition ObserverSilent_query :: "env \<Rightarrow> ObserverSilent \<Rightarrow> time \<Rightarrow> db \<Rightarrow> (bytes \<times> f64 \<times> int) list" where
  "ObserverSilent_query E det t d =
     (let split = t - sql_interval (os_RecentWindow det);
          baseline = filter (\<lambda>(obs, avg). at_least avg (num_of E (os_BaselineMinPerMin det)))
            (map (\<lambda>(obs, rows). (obs, sql_avg E (map of_int (observer_counts rows))))
               (by_observer (observer_window (t - sql_interval (os_BaselineWindow det)) split d)));
          recent = map (\<lambda>(obs, rows). (obs, sum_list (observer_counts rows)))
            (by_observer (observer_window split t d))
      in go_range (range_of E) (List.map_filter (\<lambda>(obs, avg).
           let pkts = (case map_of recent obs of None \<Rightarrow> 0 | Some n \<Rightarrow> n) in
           if pkts = 0 then Some (obs, num_float E (the avg), pkts) else None) baseline))"

definition ObserverSilent_finding :: "ObserverSilent \<Rightarrow> bytes \<times> f64 \<times> int \<Rightarrow> Finding" where
  "ObserverSilent_finding det = (\<lambda>(observerID, perMin, pkts).
     \<lparr>fd_SubjectID = observerID, fd_Severity = os_Severity det, fd_Details =
       [(''recent_window'', DText (duration_string (os_RecentWindow det))),
        (''baseline_window'', DText (duration_string (os_BaselineWindow det))),
        (''baseline_per_min'', DFloat perMin), (''recent_packets'', DInt pkts)]\<rparr>)"

definition ObserverSilent_Run :: "env \<Rightarrow> ObserverSilent \<Rightarrow> time \<Rightarrow> tx \<Rightarrow> err + Finding list \<times> tx" where
  "ObserverSilent_Run E det t tx =
     (case query (ObserverSilent_query E det t) tx of
        Inl e \<Rightarrow> Inl e
      | Inr (rows, tx') \<Rightarrow> Inr (map (ObserverSilent_finding det) rows, tx'))"

subsection \<open>ReceptionGap\<close>

text \<open>\<^verbatim>\<open>percentile_cont(0.5)\<close> of a non-empty list of floats.\<close>

fun insert_f64 :: "f64 \<Rightarrow> f64 list \<Rightarrow> f64 list" where
  "insert_f64 x [] = [x]"
| "insert_f64 x (y # ys) = (if y < x then y # insert_f64 x ys else x # y # ys)"

definition percentile_mid :: "f64 list \<Rightarrow> f64" where
  "percentile_mid xs =
     (let ys = foldr insert_f64 xs []; n = length ys - 1; lo = ys ! (n div 2); hi = ys ! ((n + 1) div 2)
      in if even n then lo else lo + (Fin (1 / 2)) * (hi - lo))"

record gap_ratio =
  gr_observer :: bytes
  gr_source :: bytes
  gr_baseline :: rat
  gr_recent :: int
  gr_ratio :: f64

text \<open>The \<^verbatim>\<open>ratios\<close> of the baselined pairs; a division by zero is an error of the query.\<close>

definition gap_ratios :: "env \<Rightarrow> ReceptionGap \<Rightarrow> time \<Rightarrow> db \<Rightarrow> (gap_ratio \<times> f64) list" where
  "gap_ratios E det t d =
     (let window = sql_interval (rg_RecentWindow det); split = t - window;
          baseline = List.map_filter (\<lambda>(k, rows).
              let avg = sql_avg E (map of_int (neighbor_counts rows)) in
              if int (length rows) \<ge> rg_MinSamples det \<and> at_least avg (num_of E (rg_BaselineMinPerMin det))
              then Some (k, the avg) else None)
            (by_pair (neighbor_window (split - sql_interval (rg_BaselineWindow det)) split d));
          recent = map (\<lambda>(k, rows). (k, sum_list (neighbor_counts rows))) (by_pair (neighbor_window split t d))
      in map (\<lambda>((obs, src), avg).
           let pkts = (case map_of recent (obs, src) of None \<Rightarrow> 0 | Some n \<Rightarrow> n);
               expected = num_float E (avg * num_div E (of_int window / of_int second) 60)
           in (\<lparr>gr_observer = obs, gr_source = src, gr_baseline = avg, gr_recent = pkts,
                gr_ratio = f64_of_int pkts / expected\<rparr>, expected)) baseline)"

definition gap_peers :: "gap_ratio list \<Rightarrow> gap_ratio \<Rightarrow> f64 list" where
  "gap_peers rs c = map gr_ratio
     (filter (\<lambda>p. gr_source p = gr_source c \<and> gr_observer p \<noteq> gr_observer c) rs)"

definition observers_alive :: "time \<Rightarrow> time \<Rightarrow> db \<Rightarrow> (bytes \<times> int) list" where
  "observers_alive lo hi d =
     map (\<lambda>(obs, rows). (obs, sum_list (observer_counts rows))) (by_observer (observer_window lo hi d))"

definition ReceptionGap_query ::
  "env \<Rightarrow> ReceptionGap \<Rightarrow> time \<Rightarrow> db \<Rightarrow> err + (gap_ratio \<times> f64 \<times> int) list" where
  "ReceptionGap_query E det t d =
     (let rs = gap_ratios E det t d; ratios = map fst rs;
          alive = observers_alive (t - sql_interval (rg_RecentWindow det)) t d
      in if \<exists>r \<in> set rs. snd r = Fin 0 then Inl (ConstraintError ''division by zero'')
         else Inr (go_range (range_of E) (List.map_filter (\<lambda>c.
           let peers = gap_peers ratios c; mid = percentile_mid peers; n = int (length peers) in
           if peers \<noteq> [] \<and> n \<ge> rg_MinPeers det \<and> gr_ratio c < rg_MaxRecentFraction det \<and>
              rg_MinPeerFraction det \<le> mid \<and>
              (case map_of alive (gr_observer c) of None \<Rightarrow> False | Some pkts \<Rightarrow> pkts > 0)
           then Some (c, mid, n) else None) ratios)))"

definition ReceptionGap_finding :: "env \<Rightarrow> ReceptionGap \<Rightarrow> gap_ratio \<times> f64 \<times> int \<Rightarrow> Finding" where
  "ReceptionGap_finding E det = (\<lambda>(c, peerMedianRatio, peerCount).
     let baselinePerMin = num_float E (gr_baseline c);
         expected = baselinePerMin * duration_minutes (rg_RecentWindow det)
     in \<lparr>fd_SubjectID = gr_observer c, fd_Severity = rg_Severity det, fd_Details =
       [(''observer'', DBytes (gr_observer c)), (''source'', DBytes (gr_source c)),
        (''baseline_per_min'', DFloat baselinePerMin), (''expected_pkts'', DFloat expected),
        (''recent_pkts'', DInt (gr_recent c)), (''recent_ratio'', DFloat (gr_ratio c)),
        (''peer_median_ratio'', DFloat peerMedianRatio), (''peer_count'', DInt peerCount),
        (''recent_window'', DText (duration_string (rg_RecentWindow det))),
        (''baseline_window'', DText (duration_string (rg_BaselineWindow det)))]\<rparr>)"

definition ReceptionGap_Run :: "env \<Rightarrow> ReceptionGap \<Rightarrow> time \<Rightarrow> tx \<Rightarrow> err + Finding list \<times> tx" where
  "ReceptionGap_Run E det t tx =
     (case query (ReceptionGap_query E det t) tx of
        Inl e \<Rightarrow> Inl e
      | Inr (Inl e, _) \<Rightarrow> Inl e
      | Inr (Inr rows, tx') \<Rightarrow> Inr (map (ReceptionGap_finding E det) rows, tx'))"

definition Detector_Kind :: "Detector \<Rightarrow> string" where
  "Detector_Kind det = (case det of
     DetectRSSIDrop _ \<Rightarrow> ''rssi_drop'' | DetectObserverSilent _ \<Rightarrow> ''observer_silent''
   | DetectReceptionGap _ \<Rightarrow> ''reception_gap'')"

definition Detector_Run :: "env \<Rightarrow> Detector \<Rightarrow> time \<Rightarrow> tx \<Rightarrow> err + Finding list \<times> tx" where
  "Detector_Run E det = (case det of
     DetectRSSIDrop x \<Rightarrow> RSSIDrop_Run E x | DetectObserverSilent x \<Rightarrow> ObserverSilent_Run E x
   | DetectReceptionGap x \<Rightarrow> ReceptionGap_Run E x)"

section \<open>The stage\<close>

definition detectionCadence :: duration where "detectionCadence = minute"
definition dedupWindow :: duration where "dedupWindow = 15 * minute"

record emittedAnomaly =
  em_id :: int
  em_kind :: string
  em_severity :: string

record Anomalies =
  am_detectors :: "Detector list"
  am_cursor :: time
  am_hwm :: time
  am_emitted :: "emittedAnomaly list"

definition NewAnomalies :: "Detector list \<Rightarrow> Anomalies" where
  "NewAnomalies detectors = \<lparr>am_detectors = detectors, am_cursor = zero_time, am_hwm = zero_time, am_emitted = []\<rparr>"

definition Anomalies_Apply :: "Event \<Rightarrow> Anomalies \<Rightarrow> Anomalies" where
  "Anomalies_Apply e s = (if ev_TS e > am_hwm s then s\<lparr>am_hwm := ev_TS e\<rparr> else s)"

text \<open>\<^verbatim>\<open>json.Marshal\<close> rejects a float that is not a number or not finite.\<close>

definition details_ok :: "(string \<times> detail) list \<Rightarrow> bool" where
  "details_ok ds = list_all (\<lambda>(k, v). case v of DFloat x \<Rightarrow> x \<noteq> NaN \<and> x \<noteq> PInf \<and> x \<noteq> NInf | _ \<Rightarrow> True) ds"

text \<open>The unresolved anomalies that suppress a new one of the kind and subject at \<open>t\<close>.\<close>

definition suppresses :: "time \<Rightarrow> string \<Rightarrow> bytes \<Rightarrow> anomaly_row \<Rightarrow> bool" where
  "suppresses t kind subject a \<longleftrightarrow> an_kind a = kind \<and> an_subject_id a = Some subject \<and>
     t - sql_interval dedupWindow \<le> an_ts a \<and> an_ts a < t \<and> an_resolved_at a = None"

definition anomaly_insert :: "time \<Rightarrow> string \<Rightarrow> Finding \<Rightarrow> db \<Rightarrow> err + int option \<times> db" where
  "anomaly_insert t kind f d =
     (if list_ex (suppresses t kind (fd_SubjectID f)) (t_anomalies d) then Inr (None, d)
      else
        let i = t_anomalies_seq d + 1;
            row = \<lparr>an_id = i, an_ts = t, an_kind = kind, an_subject_id = Some (fd_SubjectID f),
                   an_severity = fd_Severity f, an_details = fd_Details f, an_resolved_at = None\<rparr>
        in Inr (Some i, d\<lparr>t_anomalies := t_anomalies d @ [row], t_anomalies_seq := i\<rparr>))"

definition Anomalies_emit ::
  "time \<Rightarrow> string \<Rightarrow> Finding \<Rightarrow> Anomalies \<Rightarrow> tx \<Rightarrow> Anomalies \<times> (err + tx)" where
  "Anomalies_emit t kind f s tx =
     (if \<not> details_ok (fd_Details f) then (s, Inl (ConstraintError ''details''))
      else case exec_returning (anomaly_insert t kind f) tx of
        Inl e \<Rightarrow> (s, Inl e)
      | Inr (None, tx') \<Rightarrow> (s, Inr tx')
      | Inr (Some i, tx') \<Rightarrow>
          (s\<lparr>am_emitted := am_emitted s @ [\<lparr>em_id = i, em_kind = kind, em_severity = fd_Severity f\<rparr>]\<rparr>, Inr tx'))"

definition runDetectors :: "env \<Rightarrow> time \<Rightarrow> Anomalies \<Rightarrow> tx \<Rightarrow> Anomalies \<times> (err + tx)" where
  "runDetectors E t s tx = for_each (\<lambda>det s tx.
     case Detector_Run E det t tx of
       Inl e \<Rightarrow> (s, Inl e)
     | Inr (findings, tx') \<Rightarrow> for_each (Anomalies_emit t (Detector_Kind det)) findings s tx')
     (am_detectors s) s tx"

text \<open>\<^verbatim>\<open>for m := start; !m.After(end); m = m.Add(detectionCadence)\<close>: the instants of the loop.\<close>

function minutes_until :: "time \<Rightarrow> time \<Rightarrow> time list" where
  "minutes_until m stop = (if m > stop then [] else m # minutes_until (m + detectionCadence) stop)"
  by pat_completeness auto

termination minutes_until
  by (relation "measure (\<lambda>(m, stop). nat (stop + 1 - m))") (auto simp: detectionCadence_def)

declare minutes_until.simps [simp del]

definition Anomalies_Flush :: "env \<Rightarrow> Anomalies \<Rightarrow> tx \<Rightarrow> Anomalies \<times> (err + tx)" where
  "Anomalies_Flush E s tx =
     (if am_hwm s = zero_time then (s, Inr tx)
      else if am_cursor s = zero_time
      then (s\<lparr>am_cursor := truncate_time detectionCadence (am_hwm s)\<rparr>, Inr tx)
      else
        let stop = truncate_time detectionCadence (am_hwm s) in
        case for_each (runDetectors E) (minutes_until (am_cursor s + detectionCadence) stop) s tx of
          (s', Inl e) \<Rightarrow> (s', Inl e)
        | (s', Inr tx') \<Rightarrow> (s'\<lparr>am_cursor := stop\<rparr>, Inr tx'))"

definition anomaly_payload :: "emittedAnomaly \<Rightarrow> payload" where
  "anomaly_payload a =
     [(''id'', PInt (em_id a)), (''kind'', PText (em_kind a)), (''severity'', PText (em_severity a))]"

definition Anomalies_Notify :: "Anomalies \<Rightarrow> pool \<Rightarrow> Anomalies \<times> pool" where
  "Anomalies_Notify s pl =
     (s\<lparr>am_emitted := []\<rparr>, publish_all ChannelAnomaly (map anomaly_payload (am_emitted s)) pl)"

definition Anomalies_Evict :: "time \<Rightarrow> Anomalies \<Rightarrow> Anomalies" where
  "Anomalies_Evict hwm s = s"

definition Anomalies_Clear :: "Anomalies \<Rightarrow> Anomalies" where
  "Anomalies_Clear s = s\<lparr>am_cursor := zero_time, am_hwm := zero_time, am_emitted := []\<rparr>"

section \<open>The instants at which the detectors run\<close>

lemma minutes_until_eq:
  "minutes_until m e = map (\<lambda>i. m + int i * minute) [0..<nat ((e - m) div minute + 1)]"
proof (induction m e rule: minutes_until.induct)
  case (1 m e)
  show ?case
  proof (cases "m > e")
    case True
    then have "(e - m) div minute < 0" by (intro div_neg_pos_less0) simp_all
    with True show ?thesis by (subst minutes_until.simps) simp
  next
    case False
    then have nn: "0 \<le> (e - m) div minute" by (simp add: pos_imp_zdiv_nonneg_iff)
    have "(e - (m + minute)) div minute = (e - m) div minute - 1"
      using div_mult_self1 [of minute "e - m" "-1"] minute_pos by (simp add: algebra_simps)
    then have k: "nat ((e - m) div minute + 1) = Suc (nat ((e - (m + minute)) div minute + 1))"
      using nn by simp
    have "minutes_until m e = m # minutes_until (m + minute) e"
      using False by (subst minutes_until.simps) (simp add: detectionCadence_def)
    also have "\<dots> = m # map (\<lambda>i. m + minute + int i * minute) [0..<nat ((e - (m + minute)) div minute + 1)]"
      using "1.IH" False by (simp add: detectionCadence_def)
    also have "\<dots> = map (\<lambda>i. m + int i * minute) [0..<nat ((e - m) div minute + 1)]"
      unfolding k by (simp only: upt_conv_Cons map_Suc_upt [symmetric] zero_less_Suc list.map list.map_comp)
        (simp add: comp_def algebra_simps)
    finally show ?thesis .
  qed
qed

lemma truncate_minute_iff: "truncate_time minute t = t \<longleftrightarrow> minute dvd t"
  by (auto simp: truncate_time_def dvd_eq_mod_eq_0)

lemma minute_dvd_truncate [simp]: "minute dvd truncate_time minute t"
  using truncate_minute_iff [of "truncate_time minute t"] by simp

lemma minutes_until_set:
  assumes "minute dvd c"
  shows "set (minutes_until (c + minute) (truncate_time minute h)) =
    {t. c < t \<and> t \<le> h \<and> minute dvd t}"
proof (intro set_eqI iffI)
  fix t assume "t \<in> set (minutes_until (c + minute) (truncate_time minute h))"
  from this [unfolded minutes_until_eq set_map] obtain i where t: "t = c + minute + int i * minute"
    and "i \<in> set [0..<nat ((truncate_time minute h - (c + minute)) div minute + 1)]" by (rule imageE)
  then have i: "int i < (truncate_time minute h - (c + minute)) div minute + 1" by simp
  from i have "int i * minute \<le> (truncate_time minute h - (c + minute)) div minute * minute"
    by (intro mult_right_mono) (simp_all add: less_imp_le)
  also have "\<dots> \<le> truncate_time minute h - (c + minute)"
    using minute_pos by (metis div_mult_mod_eq le_add_same_cancel1 pos_mod_sign)
  finally have "t \<le> h" using truncate_time_le [OF minute_pos, of h] t by simp
  moreover have "c < t" using t minute_pos less_imp_le [OF minute_pos] by (simp add: add_pos_nonneg)
  ultimately show "t \<in> {t. c < t \<and> t \<le> h \<and> minute dvd t}" using assms t by simp
next
  have nz: "minute \<noteq> 0" using minute_pos by linarith
  fix t assume t: "t \<in> {t. c < t \<and> t \<le> h \<and> minute dvd t}"
  then obtain j where j: "t - c = minute * j" using assms by (metis dvd_diff dvdE mem_Collect_eq)
  with t have "0 < minute * j" by simp
  then have "0 < j" using minute_pos by (simp add: zero_less_mult_iff)
  have "t \<le> truncate_time minute h"
    using t truncate_time_mono [OF minute_pos, of t h] truncate_minute_iff [THEN iffD2, of t] by simp
  then have le: "minute * (j - 1) \<le> truncate_time minute h - (c + minute)" using j by (simp add: algebra_simps)
  then have "j - 1 \<le> (truncate_time minute h - (c + minute)) div minute"
    using zdiv_mono1 [OF le minute_pos] nz by simp
  with \<open>0 < j\<close> j show "t \<in> set (minutes_until (c + minute) (truncate_time minute h))"
    unfolding minutes_until_eq by (intro image_eqI [where x = "nat (j - 1)"] iffD2 [OF arg_cong [OF set_map, of "\<lambda>S. t \<in> S"]])
      (auto simp: algebra_simps)
qed

lemma minutes_until_sorted: "sorted_wrt (<) (minutes_until m e)"
  by (simp add: minutes_until_eq sorted_wrt_map)

section \<open>What the stage promises of its table\<close>

abbreviation anomalies_tab :: "db \<Rightarrow> anomaly_row list \<times> int" where
  "anomalies_tab d \<equiv> (t_anomalies d, t_anomalies_seq d)"

abbreviation anomalies_put :: "anomaly_row list \<times> int \<Rightarrow> db \<Rightarrow> db" where
  "anomalies_put x d \<equiv> d\<lparr>t_anomalies := fst x, t_anomalies_seq := snd x\<rparr>"

text \<open>\<open>repeats a b\<close>: the anomaly \<open>b\<close>, inserted after \<open>a\<close>, repeats it.\<close>

definition repeats :: "anomaly_row \<Rightarrow> anomaly_row \<Rightarrow> bool" where
  "repeats a b \<longleftrightarrow> suppresses (an_ts b) (an_kind b) (the (an_subject_id b)) a"

definition anomalies_rows :: "(time \<Rightarrow> bool) \<Rightarrow> anomaly_row list \<times> int \<Rightarrow> bool" where
  "anomalies_rows P tab \<longleftrightarrow> (case tab of (rows, sq) \<Rightarrow>
     sorted_wrt (\<lambda>a b. \<not> repeats a b) rows \<and> sorted_wrt (<) (map an_id rows) \<and>
     (\<forall>r \<in> set rows. an_id r \<le> sq \<and> an_subject_id r \<noteq> None \<and> P (an_ts r)))"

definition anomaly_time :: "Event list \<Rightarrow> time \<Rightarrow> bool" where
  "anomaly_time hist t \<longleftrightarrow> minute dvd t \<and> (\<exists>e \<in> set hist. t \<le> ev_TS e)"

definition anomalies_ok :: "env \<Rightarrow> Event list \<Rightarrow> anomaly_row list \<times> int \<Rightarrow> bool" where
  "anomalies_ok E hist tab \<longleftrightarrow> anomalies_rows (anomaly_time hist) tab"

definition anomalies_sync ::
  "Detector list \<Rightarrow> env \<Rightarrow> Event list \<Rightarrow> Event list \<Rightarrow> Anomalies \<Rightarrow> anomaly_row list \<times> int \<Rightarrow> bool" where
  "anomalies_sync dets E hist es s tab \<longleftrightarrow> anomalies_ok E hist tab \<and> am_detectors s = dets \<and>
     minute dvd am_cursor s \<and> (am_hwm s = zero_time \<or> am_hwm s \<in> ev_TS ` set (hist @ es))"

text \<open>
  What running detectors at an instant of \<open>T\<close> does: rows are appended under fresh ids, none of
  which repeats an earlier one, and each is remembered for the notification.
\<close>

definition emitted_of :: "anomaly_row \<Rightarrow> emittedAnomaly" where
  "emitted_of r = \<lparr>em_id = an_id r, em_kind = an_kind r, em_severity = an_severity r\<rparr>"

definition grows :: "time set \<Rightarrow> Anomalies \<Rightarrow> tx \<Rightarrow> Anomalies \<Rightarrow> tx \<Rightarrow> bool" where
  "grows T s t s' t' \<longleftrightarrow> (\<exists>new sq.
     tables t' = anomalies_put (t_anomalies (tables t) @ new, sq) (tables t) \<and>
     s' = s\<lparr>am_emitted := am_emitted s @ map emitted_of new\<rparr> \<and> an_ts ` set new \<subseteq> T) \<and>
     (\<forall>P. (\<forall>x \<in> T. P x) \<longrightarrow> anomalies_rows P (anomalies_tab (tables t)) \<longrightarrow>
        anomalies_rows P (anomalies_tab (tables t')))"

lemma grows_same: "tables t' = tables t \<Longrightarrow> grows T s t s t'"
  unfolding grows_def by (intro conjI exI [of _ "[]"] exI [of _ "t_anomalies_seq (tables t)"]) auto

lemma grows_trans:
  assumes "grows T s t s1 t1" "grows T s1 t1 s2 t2" shows "grows T s t s2 t2"
proof -
  obtain n1 q1 where 1: "tables t1 = anomalies_put (t_anomalies (tables t) @ n1, q1) (tables t)"
    "s1 = s\<lparr>am_emitted := am_emitted s @ map emitted_of n1\<rparr>" "an_ts ` set n1 \<subseteq> T"
    using assms(1) unfolding grows_def by blast
  obtain n2 q2 where 2: "tables t2 = anomalies_put (t_anomalies (tables t1) @ n2, q2) (tables t1)"
    "s2 = s1\<lparr>am_emitted := am_emitted s1 @ map emitted_of n2\<rparr>" "an_ts ` set n2 \<subseteq> T"
    using assms(2) unfolding grows_def by blast
  have "tables t2 = anomalies_put (t_anomalies (tables t) @ n1 @ n2, q2) (tables t)"
    "s2 = s\<lparr>am_emitted := am_emitted s @ map emitted_of (n1 @ n2)\<rparr>" "an_ts ` set (n1 @ n2) \<subseteq> T"
    using 1 2 by (simp_all add: image_Un)
  moreover have "\<forall>P. (\<forall>x \<in> T. P x) \<longrightarrow> anomalies_rows P (anomalies_tab (tables t)) \<longrightarrow>
      anomalies_rows P (anomalies_tab (tables t2))"
    using assms [unfolded grows_def, THEN conjunct2] by meson
  ultimately show ?thesis unfolding grows_def by blast
qed

lemma grows_mono: "grows T s t s' t' \<Longrightarrow> T \<subseteq> U \<Longrightarrow> grows U s t s' t'"
  unfolding grows_def by blast

lemma grows_for_each:
  assumes "for_each body xs s t = (s', Inr t')"
    and "\<And>x s1 t1 s2 t2. x \<in> set xs \<Longrightarrow> body x s1 t1 = (s2, Inr t2) \<Longrightarrow> grows T s1 t1 s2 t2"
  shows "grows T s t s' t'"
proof (rule for_each_rule [where I = "\<lambda>_ s1 t1. grows T s t s1 t1", OF assms(1)])
  show "grows T s t s t" by (simp add: grows_same)
  show "grows T s t s2 t2" if "xs = pre @ x # post" "grows T s t s1 t1" "body x s1 t1 = (s2, Inr t2)"
    for pre x post s1 t1 s2 t2
    using grows_trans [OF that(2) assms(2) [OF _ that(3)]] that(1) by simp
qed

lemma Anomalies_emit_grows:
  assumes "Anomalies_emit t kind f s tx = (s', Inr tx')"
  shows "grows {t} s tx s' tx'"
proof -
  let ?rows = "t_anomalies (tables tx)" and ?i = "t_anomalies_seq (tables tx) + 1"
  let ?row = "\<lparr>an_id = ?i, an_ts = t, an_kind = kind, an_subject_id = Some (fd_SubjectID f),
    an_severity = fd_Severity f, an_details = fd_Details f, an_resolved_at = None\<rparr>"
  show ?thesis
  proof (cases "list_ex (suppresses t kind (fd_SubjectID f)) ?rows")
    case True
    then have "s' = s" "tables tx' = tables tx"
      using assms by (auto simp: Anomalies_emit_def anomaly_insert_def exec_returning_def split: if_splits)
    then show ?thesis by (simp add: grows_same)
  next
    case False
    then have tx': "tables tx' = anomalies_put (?rows @ [?row], ?i) (tables tx)"
      and s': "s' = s\<lparr>am_emitted := am_emitted s @ map emitted_of [?row]\<rparr>"
      using assms
      by (auto simp: Anomalies_emit_def anomaly_insert_def exec_returning_def emitted_of_def Let_def split: if_splits)
    have "\<not> repeats a ?row" if "a \<in> set ?rows" for a
      using False that by (auto simp: repeats_def list_ex_iff)
    then have "anomalies_rows P (anomalies_tab (tables tx'))"
      if "P t" "anomalies_rows P (anomalies_tab (tables tx))" for P
      using that by (fastforce simp: tx' anomalies_rows_def sorted_wrt_append)
    then show ?thesis
      using tx' s' unfolding grows_def by (intro conjI exI [of _ "[?row]"] exI [of _ ?i]) auto
  qed
qed

lemma Detector_Run_tables: "Detector_Run E det t tx = Inr (fs, tx') \<Longrightarrow> tables tx' = tables tx"
  by (auto simp: Detector_Run_def RSSIDrop_Run_def ObserverSilent_Run_def ReceptionGap_Run_def query_Inr
      split: Detector.splits sum.splits)

lemma runDetectors_grows:
  assumes "runDetectors E t s tx = (s', Inr tx')"
  shows "grows {t} s tx s' tx'"
proof (rule grows_for_each [OF assms [unfolded runDetectors_def]])
  fix det s1 t1 s2 t2
  assume "(case Detector_Run E det t t1 of Inl e \<Rightarrow> (s1, Inl e)
    | Inr (findings, tx') \<Rightarrow> for_each (Anomalies_emit t (Detector_Kind det)) findings s1 tx') = (s2, Inr t2)"
  then obtain fs t1' where r: "Detector_Run E det t t1 = Inr (fs, t1')"
    and l: "for_each (Anomalies_emit t (Detector_Kind det)) fs s1 t1' = (s2, Inr t2)"
    by (auto split: sum.splits)
  have "grows {t} s1 t1 s1 t1'" using Detector_Run_tables [OF r] by (rule grows_same)
  also have "grows {t} s1 t1' s2 t2" by (rule grows_for_each [OF l]) (rule Anomalies_emit_grows)
  finally (grows_trans) show "grows {t} s1 t1 s2 t2" .
qed

text \<open>A flush appends anomalies of the minutes between the cursor and the high-water mark.\<close>

lemma Anomalies_Flush_grows:
  assumes run: "Anomalies_Flush E s t = (s', Inr t')" and c: "minute dvd am_cursor s"
  shows "grows {x. am_cursor s < x \<and> x \<le> am_hwm s \<and> minute dvd x} s t (s'\<lparr>am_cursor := am_cursor s\<rparr>) t'"
    and "am_cursor s' = (if am_hwm s = zero_time then am_cursor s else truncate_time minute (am_hwm s))"
proof -
  let ?T = "{x. am_cursor s < x \<and> x \<le> am_hwm s \<and> minute dvd x}"
  let ?stop = "truncate_time minute (am_hwm s)"
  have "grows ?T s t (s'\<lparr>am_cursor := am_cursor s\<rparr>) t' \<and>
    am_cursor s' = (if am_hwm s = zero_time then am_cursor s else ?stop)"
  proof (cases "am_hwm s = zero_time \<or> am_cursor s = zero_time")
    case True
    then have "s'\<lparr>am_cursor := am_cursor s\<rparr> = s" "tables t' = tables t"
      using run by (auto simp: Anomalies_Flush_def split: if_splits)
    moreover have "am_cursor s' = (if am_hwm s = zero_time then am_cursor s else ?stop)"
      using True run by (auto simp: Anomalies_Flush_def detectionCadence_def split: if_splits)
    ultimately show ?thesis by (metis grows_same)
  next
    case False
    then obtain s1 where l: "for_each (runDetectors E) (minutes_until (am_cursor s + minute) ?stop) s t = (s1, Inr t')"
      and s': "s' = s1\<lparr>am_cursor := ?stop\<rparr>"
      using run by (auto simp: Anomalies_Flush_def Let_def detectionCadence_def split: prod.splits sum.splits if_splits)
    have g: "grows ?T s t s1 t'"
    proof (rule grows_for_each [OF l])
      show "grows ?T s1 t1 s2 t2" if "x \<in> set (minutes_until (am_cursor s + minute) ?stop)"
        "runDetectors E x s1 t1 = (s2, Inr t2)" for x s1 t1 s2 t2
        using grows_mono [OF runDetectors_grows [OF that(2)], of ?T] that(1) minutes_until_set [OF c] by auto
    qed
    then have "s1 = s\<lparr>am_emitted := am_emitted s1\<rparr>" by (auto simp: grows_def)
    then have "s1\<lparr>am_cursor := am_cursor s\<rparr> = s1" by (metis Anomalies.surjective Anomalies.update_convs(2,4) Anomalies.select_convs(2))
    then show ?thesis using g s' False by simp
  qed
  then show "grows ?T s t (s'\<lparr>am_cursor := am_cursor s\<rparr>) t'"
    and "am_cursor s' = (if am_hwm s = zero_time then am_cursor s else ?stop)" by blast+
qed

section \<open>The contract\<close>

lemma anomalies_rows_mono:
  "anomalies_rows P tab \<Longrightarrow> (\<And>t. P t \<Longrightarrow> Q t) \<Longrightarrow> anomalies_rows Q tab"
  unfolding anomalies_rows_def by (auto split: prod.splits)

lemma Anomalies_Flush_new:
  assumes "Anomalies_Flush E s t = (s', Inr t')" and "minute dvd am_cursor s"
  obtains new where "t_anomalies (tables t') = t_anomalies (tables t) @ new"
    "am_emitted s' = am_emitted s @ map emitted_of new"
    "an_ts ` set new \<subseteq> {x. am_cursor s < x \<and> x \<le> am_hwm s \<and> minute dvd x}"
    "am_detectors s' = am_detectors s" "am_hwm s' = am_hwm s"
    "\<exists>x. tables t' = anomalies_put x (tables t)"
proof -
  obtain new sq where n: "tables t' = anomalies_put (t_anomalies (tables t) @ new, sq) (tables t)"
    "s'\<lparr>am_cursor := am_cursor s\<rparr> = s\<lparr>am_emitted := am_emitted s @ map emitted_of new\<rparr>"
    "an_ts ` set new \<subseteq> {x. am_cursor s < x \<and> x \<le> am_hwm s \<and> minute dvd x}"
    using Anomalies_Flush_grows(1) [OF assms] unfolding grows_def by blast
  have "am_emitted s' = am_emitted (s'\<lparr>am_cursor := am_cursor s\<rparr>)"
    "am_detectors s' = am_detectors (s'\<lparr>am_cursor := am_cursor s\<rparr>)"
    "am_hwm s' = am_hwm (s'\<lparr>am_cursor := am_cursor s\<rparr>)" by simp_all
  then have m: "am_emitted s' = am_emitted s @ map emitted_of new" "am_detectors s' = am_detectors s"
    "am_hwm s' = am_hwm s"
    unfolding n(2) by simp_all
  show ?thesis by (rule that [OF _ m(1) n(3) m(2,3)]) (use n(1) in auto)
qed

lemma Anomalies_Apply_sync:
  "anomalies_sync dets E hist es s tab \<Longrightarrow> anomalies_sync dets E hist (es @ [e]) (Anomalies_Apply e s) tab"
  by (auto simp: anomalies_sync_def Anomalies_Apply_def)

lemma Anomalies_Flush_sync:
  assumes run: "Anomalies_Flush E s t = (s', Inr t')"
    and sync: "anomalies_sync dets E hist es s (anomalies_tab (tables t))"
  shows "anomalies_sync dets E (hist @ es) [] s' (anomalies_tab (tables t'))"
proof -
  have c: "minute dvd am_cursor s" and h: "am_hwm s = zero_time \<or> am_hwm s \<in> ev_TS ` set (hist @ es)"
    and "anomalies_rows (anomaly_time hist) (anomalies_tab (tables t))"
    using sync by (simp_all add: anomalies_sync_def anomalies_ok_def)
  from this(3) have old: "anomalies_rows (anomaly_time (hist @ es)) (anomalies_tab (tables t))"
    by (rule anomalies_rows_mono) (auto simp: anomaly_time_def)
  note cur = Anomalies_Flush_grows(2) [OF run c]
  obtain new where keep: "am_detectors s' = am_detectors s" "am_hwm s' = am_hwm s"
    by (rule Anomalies_Flush_new [OF run c])
  have "anomalies_rows (anomaly_time (hist @ es)) (anomalies_tab (tables t'))"
  proof (cases "am_hwm s = zero_time")
    case True
    then show ?thesis using run old by (simp add: Anomalies_Flush_def)
  next
    case False
    have "anomaly_time (hist @ es) x" if "x \<le> am_hwm s" "minute dvd x" for x
      using that h False by (auto simp: anomaly_time_def)
    then show ?thesis using Anomalies_Flush_grows(1) [OF run c] old unfolding grows_def by blast
  qed
  moreover have "minute dvd am_cursor s'"
    unfolding cur using c by simp
  ultimately show ?thesis using sync keep h by (simp add: anomalies_sync_def anomalies_ok_def)
qed

lemma Anomalies_Flush_frame:
  "Anomalies_Flush E s t = (s', Inr t') \<Longrightarrow> minute dvd am_cursor s \<Longrightarrow> \<exists>x. tables t' = anomalies_put x (tables t)"
  by (rule Anomalies_Flush_new)

interpretation anomalies_stage: stage anomalies_tab anomalies_put Anomalies_Apply Anomalies_Flush
  Anomalies_Evict "NewAnomalies dets" "\<lambda>_ _. True" "\<lambda>_. True" anomalies_ok "anomalies_sync dets" for dets
proof unfold_locales
  fix E hist es s tab t s' t' h
  show "anomalies_ok E hist tab \<Longrightarrow> anomalies_sync dets E hist [] (NewAnomalies dets) tab"
    by (simp add: anomalies_sync_def NewAnomalies_def)
  show "anomalies_sync dets E hist [] s tab \<Longrightarrow> anomalies_ok E hist tab" by (simp add: anomalies_sync_def)
  assume f: "Anomalies_Flush E s t = (s', Inr t')"
  show "\<exists>x. tables t' = anomalies_put x (tables t)" if "anomalies_sync dets E hist es s (anomalies_tab (tables t))"
    by (rule Anomalies_Flush_frame [OF f]) (use that in \<open>simp add: anomalies_sync_def\<close>)
  show "anomalies_sync dets E hist [] s' (anomalies_tab (tables t'))"
    if "anomalies_sync dets E hist [] s (anomalies_tab (tables t))"
    using Anomalies_Flush_sync [OF f that] by simp
  show "anomalies_sync dets E (hist @ es) [] (Anomalies_Evict h s') (anomalies_tab (tables t'))"
    if "anomalies_sync dets E hist es s (anomalies_tab (tables t))"
    using Anomalies_Flush_sync [OF f that] by (simp add: Anomalies_Evict_def)
qed (simp_all add: Anomalies_Apply_sync)

section \<open>What ObserverSilent reports\<close>

lemma map_of_groups:
  "map_of (map (\<lambda>(g, rows). (g, f rows)) (groups h xs)) g =
    (if g \<in> h ` set xs then Some (f (filter (\<lambda>x. h x = g) xs)) else None)"
proof -
  have "map_of (map (\<lambda>g. (g, f (filter (\<lambda>x. h x = g) xs))) ys) g =
      (if g \<in> set ys then Some (f (filter (\<lambda>x. h x = g) xs)) else None)" for ys
    by (induction ys) auto
  then show ?thesis by (simp add: groups_def comp_def)
qed

definition silent_between :: "Event list \<Rightarrow> bytes \<Rightarrow> time \<Rightarrow> time \<Rightarrow> bool" where
  "silent_between hist obs lo hi \<longleftrightarrow>
     \<not> (\<exists>(e, p) \<in> set (packet_events hist). ev_ObserverID e = obs \<and> lo \<le> ev_TS e \<and> ev_TS e < hi)"

lemma length_filter_disjoint:
  "(\<And>x. \<not> (P x \<and> Q x)) \<Longrightarrow> length (filter P xs) + length (filter Q xs) = length (filter (\<lambda>x. P x \<or> Q x) xs)"
  by (induction xs) auto

lemma sum_by_keys:
  "distinct ks \<Longrightarrow> sum_list (map (\<lambda>k. length (filter (\<lambda>x. key x = k) xs)) ks) = length (filter (\<lambda>x. key x \<in> set ks) xs)"
proof (induction ks)
  case (Cons k ks)
  have "length (filter (\<lambda>x. key x = k) xs) + length (filter (\<lambda>x. key x \<in> set ks) xs) = length (filter (\<lambda>x. key x = k \<or> key x \<in> set ks) xs)"
    using Cons.prems by (intro length_filter_disjoint) auto
  then show ?case using Cons by simp
qed simp

lemma sum_list_int: "sum_list (map (\<lambda>k. int (f k)) ks) = int (sum_list (map f ks))"
  by (induction ks) simp_all

definition packets_between :: "Event list \<Rightarrow> bytes \<Rightarrow> time \<Rightarrow> time \<Rightarrow> packets" where
  "packets_between hist obs lo hi =
     filter (\<lambda>(e, p). ev_ObserverID e = obs \<and> lo \<le> ev_TS e \<and> ev_TS e < hi) (packet_events hist)"

text \<open>The minutes in which an observer sent a packet or a noise floor: those that have a row.\<close>

definition heard_minutes :: "Event list \<Rightarrow> bytes \<Rightarrow> time \<Rightarrow> time \<Rightarrow> time set" where
  "heard_minutes hist obs lo hi = (\<lambda>e. truncate_time minute (ev_TS e)) ` set (filter (\<lambda>e.
     ev_ObserverID e = obs \<and> lo \<le> ev_TS e \<and> ev_TS e < hi \<and>
     (case ev_Payload e of KindPacket _ \<Rightarrow> True | KindStatus p \<Rightarrow> sp_NoiseFloor p \<noteq> None)) hist)"

lemma finite_heard_minutes: "finite (heard_minutes hist obs lo hi)"
  by (simp add: heard_minutes_def)

lemma silent_between_iff: "silent_between hist obs lo hi \<longleftrightarrow> packets_between hist obs lo hi = []"
  by (auto simp: silent_between_def packets_between_def filter_empty_conv)

lemma truncate_window:
  assumes "minute dvd lo" "minute dvd hi"
  shows "lo \<le> truncate_time minute t \<and> truncate_time minute t < hi \<longleftrightarrow> lo \<le> t \<and> t < hi"
proof -
  have "lo \<le> t \<Longrightarrow> lo \<le> truncate_time minute t" "hi \<le> t \<Longrightarrow> hi \<le> truncate_time minute t"
    using truncate_time_mono [OF minute_pos, of lo t] truncate_time_mono [OF minute_pos, of hi t]
      truncate_minute_iff [THEN iffD2, OF assms(1)] truncate_minute_iff [THEN iffD2, OF assms(2)] by simp_all
  then show ?thesis using truncate_time_le [OF minute_pos, of t] by linarith
qed

lemma bucket_heard:
  "bucket_packets minute hist (obs, b) \<noteq> [] \<or> bucket_noise minute hist (obs, b) \<noteq> [] \<longleftrightarrow>
    (\<exists>e \<in> set hist. ev_ObserverID e = obs \<and> truncate_time minute (ev_TS e) = b \<and>
      (case ev_Payload e of KindPacket _ \<Rightarrow> True | KindStatus p \<Rightarrow> sp_NoiseFloor p \<noteq> None))"
proof (induction hist)
  case (Cons e hist)
  have "bucket_packets minute (e # hist) k = bucket_packets minute [e] k @ bucket_packets minute hist k"
    "bucket_noise minute (e # hist) k = bucket_noise minute [e] k @ bucket_noise minute hist k" for k
    using bucket_append [of minute "[e]" hist k] by simp_all
  then show ?case using Cons by (cases "ev_Payload e") (auto split: option.splits)
qed simp

text \<open>The rows of an observer in a window of whole minutes, and the packets counted in them, from the log.\<close>

lemma window_log:
  assumes ok: "rollup_ok minute E hist (t_rollup_observer_1m d)" and b: "minute dvd lo" "minute dvd hi"
    and rows: "rows = filter (\<lambda>x. fst (fst x) = obs) (observer_window lo hi d)"
  shows "length rows = card (heard_minutes hist obs lo hi)"
    and "sum_list (observer_counts rows) = int (length (packets_between hist obs lo hi))"
proof -
  let ?key = "\<lambda>x. (ev_ObserverID (fst x), truncate_time minute (ev_TS (fst x)))"
  have d: "distinct (map fst (t_rollup_observer_1m d))"
    and dom: "\<And>k. map_of (t_rollup_observer_1m d) k \<noteq> None \<longleftrightarrow>
        bucket_packets minute hist k \<noteq> [] \<or> bucket_noise minute hist k \<noteq> []"
    and row: "\<And>k r. map_of (t_rollup_observer_1m d) k = Some r \<Longrightarrow> ro_packets r = int (length (bucket_packets minute hist k))"
    using ok by (auto simp: rollup_ok_def rollup_row_spec_def simp del: map_of_eq_Some_iff)
  have mem: "x \<in> set rows \<longleftrightarrow> x \<in> set (t_rollup_observer_1m d) \<and> fst (fst x) = obs \<and> lo \<le> snd (fst x) \<and> snd (fst x) < hi" for x
    by (auto simp: rows observer_window_def case_prod_unfold)
  have dr: "distinct (map fst rows)" unfolding rows observer_window_def by (intro distinct_map_filter d)
  have keys: "(obs', b') \<in> set (map fst rows) \<longleftrightarrow> obs' = obs \<and> lo \<le> b' \<and> b' < hi \<and>
      (bucket_packets minute hist (obs, b') \<noteq> [] \<or> bucket_noise minute hist (obs, b') \<noteq> [])" for obs' b'
  proof -
    have "(obs', b') \<in> set (map fst rows) \<longleftrightarrow> (obs', b') \<in> set (map fst (t_rollup_observer_1m d)) \<and> obs' = obs \<and> lo \<le> b' \<and> b' < hi"
      using mem by force
    then show ?thesis using dom [of "(obs', b')"] by (auto simp: map_of_eq_None_iff)
  qed
  have "set (map fst rows) = Pair obs ` heard_minutes hist obs lo hi"
  proof (rule set_eqI)
    fix k :: "bytes \<times> time"
    obtain obs' b' where k: "k = (obs', b')" by (rule prod.exhaust)
    show "k \<in> set (map fst rows) \<longleftrightarrow> k \<in> Pair obs ` heard_minutes hist obs lo hi"
      unfolding k keys bucket_heard using truncate_window [OF b] by (auto simp: heard_minutes_def)
  qed
  then have "card (set (map fst rows)) = card (heard_minutes hist obs lo hi)" by (simp add: card_image inj_on_def)
  then show "length rows = card (heard_minutes hist obs lo hi)" using distinct_card [OF dr] by simp
  have count: "ro_packets (snd x) = int (length (filter (\<lambda>y. ?key y = fst x) (packet_events hist)))" if "x \<in> set rows" for x
    using row [of "fst x" "snd x"] that mem [of x] d by (simp add: bucket_packets_def case_prod_unfold)
  have "sum_list (observer_counts rows) =
      sum_list (map (\<lambda>k. int (length (filter (\<lambda>y. ?key y = k) (packet_events hist)))) (map fst rows))"
    unfolding observer_counts_def map_map comp_def by (intro arg_cong [of _ _ sum_list] map_cong refl) (simp add: count case_prod_unfold)
  then have sum: "sum_list (observer_counts rows) = int (length (filter (\<lambda>y. ?key y \<in> set (map fst rows)) (packet_events hist)))"
    using dr by (simp only: sum_list_int sum_by_keys)
  have "?key y \<in> set (map fst rows) \<longleftrightarrow> ev_ObserverID (fst y) = obs \<and> lo \<le> ev_TS (fst y) \<and> ev_TS (fst y) < hi"
    if "y \<in> set (packet_events hist)" for y
  proof -
    have "y \<in> set (bucket_packets minute hist (?key y))" using that by (auto simp: bucket_packets_def)
    then have "bucket_packets minute hist (?key y) \<noteq> []" by auto
    then show ?thesis unfolding keys using truncate_window [OF b, of "ev_TS (fst y)"] by auto
  qed
  then have "filter (\<lambda>y. ?key y \<in> set (map fst rows)) (packet_events hist) = packets_between hist obs lo hi"
    by (auto simp: packets_between_def case_prod_unfold intro!: filter_cong)
  then show "sum_list (observer_counts rows) = int (length (packets_between hist obs lo hi))" using sum by simp
qed

lemma by_observer_fst: "(\<lambda>((obs, b), r). obs) = (\<lambda>x :: (bytes \<times> time) \<times> rollup_row. fst (fst x))"
  by (auto simp: fun_eq_iff)

lemma recent_count:
  assumes ok: "rollup_ok minute E hist (t_rollup_observer_1m d)" and b: "minute dvd lo" "minute dvd hi"
  shows "(case map_of (map (\<lambda>(obs, rows). (obs, sum_list (observer_counts rows)))
      (by_observer (observer_window lo hi d))) obs of None \<Rightarrow> 0 | Some n \<Rightarrow> n) = 0 \<longleftrightarrow>
    silent_between hist obs lo hi"
proof -
  let ?rows = "filter (\<lambda>x. fst (fst x) = obs) (observer_window lo hi d)"
  have "obs \<in> (\<lambda>x. fst (fst x)) ` set (observer_window lo hi d) \<longleftrightarrow> ?rows \<noteq> []"
    by (auto simp: filter_empty_conv)
  then have "(case map_of (map (\<lambda>(obs, rows). (obs, sum_list (observer_counts rows)))
      (by_observer (observer_window lo hi d))) obs of None \<Rightarrow> 0 | Some n \<Rightarrow> n) = sum_list (observer_counts ?rows)"
    unfolding by_observer_def map_of_groups by_observer_fst by (cases "?rows = []") (simp_all add: observer_counts_def)
  then show ?thesis using window_log(2) [OF ok b refl, of obs] by (simp add: silent_between_iff)
qed

lemma silent_rows:
  "(obs, avg, n) \<in> set (List.map_filter (\<lambda>(obs, a). let pkts = R obs in
      if pkts = (0::int) then Some (obs, F (the a), pkts) else None) (filter (\<lambda>(obs, a). at_least a thr) B)) \<longleftrightarrow>
    (\<exists>a. (obs, Some a) \<in> set B \<and> thr \<le> a \<and> avg = F a) \<and> n = 0 \<and> R obs = 0"
proof
  assume "(obs, avg, n) \<in> set (List.map_filter (\<lambda>(obs, a). let pkts = R obs in
      if pkts = (0::int) then Some (obs, F (the a), pkts) else None) (filter (\<lambda>(obs, a). at_least a thr) B))"
  then show "(\<exists>a. (obs, Some a) \<in> set B \<and> thr \<le> a \<and> avg = F a) \<and> n = 0 \<and> R obs = 0"
    by (auto simp: set_map_filter_iff at_least_def Let_def split: option.splits if_splits)
qed (force simp: set_map_filter_iff at_least_def)

lemma ObserverSilent_query_set:
  assumes ord: "range_order (range_of E)"
  shows "(obs, avg, n) \<in> set (ObserverSilent_query E det t d) \<longleftrightarrow>
    (\<exists>a. (obs, Some a) \<in> set (map (\<lambda>(obs, rows). (obs, sql_avg E (map of_int (observer_counts rows))))
        (by_observer (observer_window (t - sql_interval (os_BaselineWindow det)) (t - sql_interval (os_RecentWindow det)) d))) \<and>
      num_of E (os_BaselineMinPerMin det) \<le> a \<and> avg = num_float E a) \<and> n = 0 \<and>
    (case map_of (map (\<lambda>(obs, rows). (obs, sum_list (observer_counts rows)))
      (by_observer (observer_window (t - sql_interval (os_RecentWindow det)) t d))) obs of None \<Rightarrow> 0 | Some n \<Rightarrow> n) = 0"
  unfolding ObserverSilent_query_def Let_def set_go_range [OF ord]
  by (rule silent_rows [unfolded Let_def])

section \<open>Properties\<close>

text \<open>C16 (invariant): across batches, evictions and restarts, no anomaly is inserted while an unresolved
  one of the same kind and subject from the 15 minutes before it is in the table; ids are fresh,
  and no anomaly is dated after the events committed.\<close>

theorem anomalies_deduplicated:
  assumes sync: "anomalies_sync dets E hist [] s (anomalies_tab (tables t))" and "range_order (range_of E)"
    and run: "Anomalies_Flush E (fold Anomalies_Apply es s) t = (s', Inr t')"
  shows "(\<forall>i j. i < j \<longrightarrow> j < length (t_anomalies (tables t')) \<longrightarrow>
      (let a = t_anomalies (tables t') ! i; b = t_anomalies (tables t') ! j in
       an_id a < an_id b \<and>
       \<not> (an_kind a = an_kind b \<and> an_subject_id a = an_subject_id b \<and> an_resolved_at a = None \<and>
          an_ts b - 15 * minute \<le> an_ts a \<and> an_ts a < an_ts b))) \<and>
    (\<forall>a \<in> set (t_anomalies (tables t')). \<exists>e \<in> set (hist @ es). an_ts a \<le> ev_TS e) \<and>
    anomalies_sync dets E (hist @ es) [] (Anomalies_Evict h s') (anomalies_tab (tables t'))"
proof -
  let ?rows = "t_anomalies (tables t')"
  have ok: "anomalies_rows (anomaly_time (hist @ es)) (anomalies_tab (tables t'))"
    using anomalies_stage.flush_keeps_promise [OF run assms(2) _ _ sync] by (simp add: anomalies_ok_def list_all_iff)
  have w: "sql_interval dedupWindow = 15 * minute"
    by (simp add: sql_interval_def quot_def dedupWindow_def microsecond_def minute_def second_def)
  have "an_id (?rows ! i) < an_id (?rows ! j) \<and> \<not> repeats (?rows ! i) (?rows ! j) \<and> an_subject_id (?rows ! j) \<noteq> None"
    if "i < j" "j < length ?rows" for i j
    using ok that by (auto simp: anomalies_rows_def sorted_wrt_iff_nth_less)
  then have "\<forall>i j. i < j \<longrightarrow> j < length ?rows \<longrightarrow> (let a = ?rows ! i; b = ?rows ! j in
       an_id a < an_id b \<and>
       \<not> (an_kind a = an_kind b \<and> an_subject_id a = an_subject_id b \<and> an_resolved_at a = None \<and>
          an_ts b - 15 * minute \<le> an_ts a \<and> an_ts a < an_ts b))"
    by (simp add: repeats_def suppresses_def w Let_def) fastforce
  moreover have "\<forall>a \<in> set ?rows. \<exists>e \<in> set (hist @ es). an_ts a \<le> ev_TS e"
    using ok by (auto simp: anomalies_rows_def anomaly_time_def)
  moreover have "anomalies_sync dets E (hist @ es) [] (Anomalies_Evict h s') (anomalies_tab (tables t'))"
    using anomalies_stage.batch_sync(1) [OF run assms(2) _ _ sync] by (simp add: list_all_iff)
  ultimately show ?thesis by blast
qed

text \<open>An observer that was heard an hour before the minute that the batch completes.\<close>

definition silent_detector :: ObserverSilent where
  "silent_detector = \<lparr>os_RecentWindow = 15 * minute, os_BaselineWindow = 24 * hour,
     os_BaselineMinPerMin = Fin 1, os_Severity = ''crit''\<rparr>"

definition silent_env :: env where
  "silent_env = sample_env\<lparr>num_float := Fin\<rparr>"

definition silent_tx :: tx where
  "silent_tx = \<lparr>tables = empty_db\<lparr>t_rollup_observer_1m :=
     [(([7], truncate_time minute (sample_time - hour)), \<lparr>ro_packets = 5, ro_unique_pkts = 5, ro_flood_pkts = 0,
        ro_direct_pkts = 0, ro_avg_rssi = None, ro_min_rssi = None, ro_max_rssi = None, ro_avg_snr = None,
        ro_noise_floor = None\<rparr>)]\<rparr>, fuse = None\<rparr>"

definition silent_stage :: Anomalies where
  "silent_stage = (NewAnomalies [DetectObserverSilent silent_detector])
     \<lparr>am_cursor := truncate_time minute (sample_time - 2 * minute)\<rparr>"

definition reported :: "Anomalies \<times> (err + tx) \<Rightarrow> (time \<times> string) list" where
  "reported r = (case snd r of Inl _ \<Rightarrow> [] | Inr t \<Rightarrow> map (\<lambda>a. (an_ts a, an_kind a)) (t_anomalies (tables t)))"

lemma silent_run: "reported (Anomalies_Flush silent_env (fold Anomalies_Apply [status_event] silent_stage) silent_tx) =
    [(truncate_time minute sample_time - minute, ''observer_silent'')]"
  by code_simp

lemma silent_stage_cursor: "minute dvd am_cursor silent_stage"
  by (simp add: silent_stage_def)

lemma silent_runE:
  obtains s' t' where "Anomalies_Flush silent_env (fold Anomalies_Apply [status_event] silent_stage) silent_tx = (s', Inr t')"
    "map (\<lambda>a. (an_ts a, an_kind a)) (t_anomalies (tables t')) =
      [(truncate_time minute sample_time - minute, ''observer_silent'')]"
proof -
  obtain s' r where r: "Anomalies_Flush silent_env (fold Anomalies_Apply [status_event] silent_stage) silent_tx = (s', r)"
    by (rule prod.exhaust)
  show ?thesis using silent_run that unfolding r by (cases r) (auto simp: reported_def)
qed

lemma silent_sync:
  "anomalies_sync [DetectObserverSilent silent_detector] silent_env [] [] silent_stage (anomalies_tab (tables silent_tx))"
  using silent_stage_cursor
  by (simp add: anomalies_sync_def anomalies_ok_def anomalies_rows_def silent_stage_def NewAnomalies_def
      silent_tx_def empty_db_def)

lemma silent_env_range: "range_order (range_of silent_env)"
  by (simp add: silent_env_def sample_env_def)

lemma anomalies_deduplicated_witness:
  "\<exists>s' t'. Anomalies_Flush silent_env (fold Anomalies_Apply [status_event] silent_stage) silent_tx = (s', Inr t') \<and>
    length (t_anomalies (tables t')) = 1 \<and>
    (\<forall>a \<in> set (t_anomalies (tables t')). \<exists>e \<in> set [status_event]. an_ts a \<le> ev_TS e)"
proof -
  obtain s' t' where r: "Anomalies_Flush silent_env (fold Anomalies_Apply [status_event] silent_stage) silent_tx = (s', Inr t')"
    "map (\<lambda>a. (an_ts a, an_kind a)) (t_anomalies (tables t')) =
      [(truncate_time minute sample_time - minute, ''observer_silent'')]" by (rule silent_runE)
  from arg_cong [OF r(2), of length] have "length (t_anomalies (tables t')) = 1" by simp
  with anomalies_deduplicated [OF silent_sync silent_env_range r(1)] r(1) show ?thesis by simp
qed

text \<open>One detector at one instant: every finding of its query is inserted, unless suppressed.\<close>

definition detect_at :: "env \<Rightarrow> time \<times> Detector \<Rightarrow> Anomalies \<Rightarrow> tx \<Rightarrow> Anomalies \<times> (err + tx)" where
  "detect_at E = (\<lambda>(m, det) s tx. case Detector_Run E det m tx of
       Inl e \<Rightarrow> (s, Inl e)
     | Inr (findings, tx') \<Rightarrow> for_each (Anomalies_emit m (Detector_Kind det)) findings s tx')"

definition due_minutes :: "Anomalies \<Rightarrow> time list" where
  "due_minutes s = sorted_list_of_set {t. am_cursor s < t \<and> t \<le> am_hwm s \<and> minute dvd t}"

lemma minutes_until_due:
  "minute dvd am_cursor s \<Longrightarrow> minutes_until (am_cursor s + detectionCadence) (truncate_time minute (am_hwm s)) = due_minutes s"
  unfolding due_minutes_def detectionCadence_def minutes_until_set [symmetric]
  by (simp add: minutes_until_sorted sorted_list_of_set.idem_if_sorted_distinct strict_sorted_iff [THEN iffD1])

lemma detect_at_keeps: "detect_at E x s tx = (s', r) \<Longrightarrow> am_detectors s' = am_detectors s \<and> am_cursor s' = am_cursor s"
proof -
  have "for_each (Anomalies_emit m kd) fs s tx = (s', r) \<Longrightarrow> am_detectors s' = am_detectors s \<and> am_cursor s' = am_cursor s"
    for m kd fs s tx
    by (induction fs arbitrary: s tx)
      (auto simp: Anomalies_emit_def split: if_splits sum.splits prod.splits option.splits)
  then show "detect_at E x s tx = (s', r) \<Longrightarrow> ?thesis"
    by (auto simp: detect_at_def split: prod.splits sum.splits)
qed

lemma for_each_append:
  "for_each f (xs @ ys) s tx = (case for_each f xs s tx of (s', Inl e) \<Rightarrow> (s', Inl e) | (s', Inr tx') \<Rightarrow> for_each f ys s' tx')"
  by (induction xs arbitrary: s tx) (auto split: prod.splits sum.splits)

lemma runDetectors_detect: "runDetectors E m s tx = for_each (detect_at E) (map (Pair m) (am_detectors s)) s tx"
proof -
  have "for_each (\<lambda>det s tx. case Detector_Run E det m tx of Inl e \<Rightarrow> (s, Inl e)
      | Inr (findings, tx') \<Rightarrow> for_each (Anomalies_emit m (Detector_Kind det)) findings s tx') ds s tx =
    for_each (detect_at E) (map (Pair m) ds) s tx" for ds s tx
    by (induction ds arbitrary: s tx) (auto simp: detect_at_def split: prod.splits sum.splits)
  then show ?thesis by (simp add: runDetectors_def)
qed

lemma detect_all_keeps:
  "for_each (detect_at E) xs s tx = (s', r) \<Longrightarrow> am_detectors s' = am_detectors s \<and> am_cursor s' = am_cursor s"
  by (induction xs arbitrary: s tx) (auto split: prod.splits sum.splits dest!: detect_at_keeps)

lemma detectors_product:
  "am_detectors s = ds \<Longrightarrow> for_each (runDetectors E) ms s tx = for_each (detect_at E) (List.product ms ds) s tx"
proof (induction ms arbitrary: s tx)
  case (Cons m ms)
  then show ?case
    by (auto simp: for_each_append runDetectors_detect dest: detect_all_keeps split: prod.splits sum.splits)
qed simp



text \<open>After a flush, \<^verbatim>\<open>Notify\<close> publishes one notification for each anomaly the flush
  inserted, in order, with its id, kind and severity, and forgets them.\<close>

theorem anomalies_notified:
  assumes "Anomalies_Flush E s t = (s', Inr t')" and "minute dvd am_cursor s" and "am_emitted s = []"
  shows "\<exists>new. t_anomalies (tables t') = t_anomalies (tables t) @ new \<and>
    Anomalies_Notify s' pl = (s'\<lparr>am_emitted := []\<rparr>, publish_all ChannelAnomaly (map (\<lambda>a.
      [(''id'', PInt (an_id a)), (''kind'', PText (an_kind a)), (''severity'', PText (an_severity a))]) new) pl)"
  by (rule Anomalies_Flush_new [OF assms(1,2)])
    (auto simp: assms(3) Anomalies_Notify_def anomaly_payload_def emitted_of_def comp_def)

lemma anomalies_notified_witness:
  "\<exists>s' t' new. Anomalies_Flush silent_env (fold Anomalies_Apply [status_event] silent_stage) silent_tx = (s', Inr t') \<and>
    length new = 1 \<and> t_anomalies (tables t') = new \<and>
    Anomalies_Notify s' \<lparr>pl_sent = [], pl_ok = []\<rparr> = (s'\<lparr>am_emitted := []\<rparr>, publish_all ChannelAnomaly (map (\<lambda>a.
      [(''id'', PInt (an_id a)), (''kind'', PText (an_kind a)), (''severity'', PText (an_severity a))]) new)
      \<lparr>pl_sent = [], pl_ok = []\<rparr>)"
proof -
  let ?s = "fold Anomalies_Apply [status_event] silent_stage"
  obtain s' t' where r: "Anomalies_Flush silent_env ?s silent_tx = (s', Inr t')"
    "map (\<lambda>a. (an_ts a, an_kind a)) (t_anomalies (tables t')) =
      [(truncate_time minute sample_time - minute, ''observer_silent'')]" by (rule silent_runE)
  from arg_cong [OF r(2), of length] have "length (t_anomalies (tables t')) = 1" by simp
  moreover have "minute dvd am_cursor ?s" "am_emitted ?s = []"
    using silent_stage_cursor by (simp_all add: Anomalies_Apply_def silent_stage_def NewAnomalies_def)
  ultimately show ?thesis
    using anomalies_notified [OF r(1), of "\<lparr>pl_sent = [], pl_ok = []\<rparr>"] r(1)
    by (auto simp: silent_tx_def empty_db_def)
qed


text \<open>The rollup of a log with one packet, and the observer two hours later.\<close>

definition heard_db :: db where
  "heard_db = empty_db\<lparr>t_rollup_observer_1m := [(([7], truncate_time minute sample_time), \<lparr>ro_packets = 1,
     ro_unique_pkts = 1, ro_flood_pkts = 1, ro_direct_pkts = 0, ro_avg_rssi = None, ro_min_rssi = None,
     ro_max_rssi = None, ro_avg_snr = None, ro_noise_floor = None\<rparr>)]\<rparr>"

lemma heard_flush: "(case snd (RollupObserver_Flush silent_env (fold RollupObserver_Apply [quiet_event] NewRollupObserver1m) sample_tx) of
    Inl _ \<Rightarrow> [] | Inr t \<Rightarrow> t_rollup_observer_1m (tables t)) = t_rollup_observer_1m heard_db"
  by code_simp

lemma heard_ok: "rollup_ok minute silent_env [quiet_event] (t_rollup_observer_1m heard_db)"
proof -
  let ?flush = "RollupObserver_Flush silent_env (fold RollupObserver_Apply [quiet_event] NewRollupObserver1m) sample_tx"
  obtain s' r where r: "?flush = (s', r)" by (rule prod.exhaust)
  have ne: "t_rollup_observer_1m heard_db \<noteq> []" by (simp add: heard_db_def)
  then obtain t' where t': "r = Inr t'" "t_rollup_observer_1m (tables t') = t_rollup_observer_1m heard_db"
    using heard_flush unfolding r by (cases r) auto
  have s: "rollup_sync ''rollup_observer_1m'' minute hour silent_env [] [] NewRollupObserver1m
      (rollup_rows ''rollup_observer_1m'' (tables sample_tx))"
    by (rule rollup_1m_stage.fresh_sync) (simp add: rollup_ok_def rollup_rows_def sample_tx_def empty_db_def)
  have p: "packets_seen [] (tables sample_tx)" and w: "list_all rollup_wf ([] @ [quiet_event])" by code_simp+
  from rollup_1m_stage.flush_keeps_promise [OF r [unfolded t'(1)] silent_env_range p w s] t'(2)
  show ?thesis by (simp add: rollup_rows_def)
qed


end
