(* ===== verification/Pipeline.thy ===== *)
theory Pipeline
  imports Stage_Observers Stage_Status Stage_Nodes Stage_Unique Stage_Rollup_Observer
    Stage_Rollup_Neighbor Stage_Packets Stage_Anomalies
begin

text \<open>
  The pipeline (\<^verbatim>\<open>internal/project/pipeline/pipeline.go\<close>): a batch of events is applied to every
  stage, every stage is flushed in one transaction together with the cursor, and after the commit
  the stages notify and evict. The stages' contracts compose: after any number of committed
  batches, every table is what its stage promises of all the events committed so far.
\<close>

section \<open>Model\<close>

text \<open>The implementations of the \<^verbatim>\<open>Stage\<close> interface and its dispatch.\<close>

datatype Stage = StObservers Observers | StStatus ObserverStatus | StNodes Nodes
  | StUnique PacketsUnique | StRollup RollupObserver | StNeighbor RollupNeighbor1m
  | StPackets PacketObservations | StAnomalies Anomalies

fun Stage_Name :: "Stage \<Rightarrow> string" where
  "Stage_Name (StObservers s) = ''observers''"
| "Stage_Name (StStatus s) = ''observer_status''"
| "Stage_Name (StNodes s) = ''nodes''"
| "Stage_Name (StUnique s) = ''packets_unique''"
| "Stage_Name (StRollup s) = rl_table s"
| "Stage_Name (StNeighbor s) = ''rollup_neighbor_1m''"
| "Stage_Name (StPackets s) = ''packet_observations''"
| "Stage_Name (StAnomalies s) = ''anomalies''"

text \<open>No stage's \<^verbatim>\<open>Apply\<close> returns an error.\<close>

fun Stage_Apply :: "Event \<Rightarrow> Stage \<Rightarrow> Stage" where
  "Stage_Apply e (StObservers s) = StObservers (Observers_Apply e s)"
| "Stage_Apply e (StStatus s) = StStatus (ObserverStatus_Apply e s)"
| "Stage_Apply e (StNodes s) = StNodes (Nodes_Apply e s)"
| "Stage_Apply e (StUnique s) = StUnique (PacketsUnique_Apply e s)"
| "Stage_Apply e (StRollup s) = StRollup (RollupObserver_Apply e s)"
| "Stage_Apply e (StNeighbor s) = StNeighbor (RollupNeighbor1m_Apply e s)"
| "Stage_Apply e (StPackets s) = StPackets (PacketObservations_Apply e s)"
| "Stage_Apply e (StAnomalies s) = StAnomalies (Anomalies_Apply e s)"

fun Stage_Flush :: "env \<Rightarrow> Stage \<Rightarrow> tx \<Rightarrow> Stage \<times> (err + tx)" where
  "Stage_Flush E (StObservers s) t = map_prod StObservers id (Observers_Flush E s t)"
| "Stage_Flush E (StStatus s) t = map_prod StStatus id (ObserverStatus_Flush E s t)"
| "Stage_Flush E (StNodes s) t = map_prod StNodes id (Nodes_Flush E s t)"
| "Stage_Flush E (StUnique s) t = map_prod StUnique id (PacketsUnique_Flush E s t)"
| "Stage_Flush E (StRollup s) t = map_prod StRollup id (RollupObserver_Flush E s t)"
| "Stage_Flush E (StNeighbor s) t = map_prod StNeighbor id (RollupNeighbor1m_Flush E s t)"
| "Stage_Flush E (StPackets s) t = map_prod StPackets id (PacketObservations_Flush E s t)"
| "Stage_Flush E (StAnomalies s) t = map_prod StAnomalies id (Anomalies_Flush E s t)"

fun Stage_Notify :: "env \<Rightarrow> Stage \<Rightarrow> pool \<Rightarrow> Stage \<times> pool" where
  "Stage_Notify E (StStatus s) pl = map_prod StStatus id (ObserverStatus_Notify E s pl)"
| "Stage_Notify E (StPackets s) pl = map_prod StPackets id (PacketObservations_Notify E s pl)"
| "Stage_Notify E (StAnomalies s) pl = map_prod StAnomalies id (Anomalies_Notify s pl)"
| "Stage_Notify E s pl = (s, pl)"

fun Stage_Evict :: "time \<Rightarrow> Stage \<Rightarrow> Stage" where
  "Stage_Evict h (StObservers s) = StObservers (Observers_Evict h s)"
| "Stage_Evict h (StStatus s) = StStatus (ObserverStatus_Evict h s)"
| "Stage_Evict h (StNodes s) = StNodes (Nodes_Evict h s)"
| "Stage_Evict h (StUnique s) = StUnique (PacketsUnique_Evict h s)"
| "Stage_Evict h (StRollup s) = StRollup (RollupObserver_Evict h s)"
| "Stage_Evict h (StNeighbor s) = StNeighbor (RollupNeighbor1m_Evict h s)"
| "Stage_Evict h (StPackets s) = StPackets (PacketObservations_Evict h s)"
| "Stage_Evict h (StAnomalies s) = StAnomalies (Anomalies_Evict h s)"

fun Stage_Clear :: "Stage \<Rightarrow> Stage" where
  "Stage_Clear (StObservers s) = StObservers (Observers_Clear s)"
| "Stage_Clear (StStatus s) = StStatus (ObserverStatus_Clear s)"
| "Stage_Clear (StNodes s) = StNodes (Nodes_Clear s)"
| "Stage_Clear (StUnique s) = StUnique (PacketsUnique_Clear s)"
| "Stage_Clear (StRollup s) = StRollup (RollupObserver_Clear s)"
| "Stage_Clear (StNeighbor s) = StNeighbor (RollupNeighbor1m_Clear s)"
| "Stage_Clear (StPackets s) = StPackets (PacketObservations_Clear s)"
| "Stage_Clear (StAnomalies s) = StAnomalies (Anomalies_Clear s)"

text \<open>
  How the database answers one batch: whether the transaction begins, how many statements pass
  before one fails, and the commit, whose acknowledgement may be lost after it took effect. A
  rollback restores the tables but not the sequences: \<open>io_burnt\<close> are the values of the two
  sequences that an aborted transaction has drawn.
\<close>

datatype commit = Committed | CommitFailed | CommitUnacknowledged

record io =
  io_begin :: bool
  io_fuse :: "nat option"
  io_commit :: commit
  io_burnt :: "nat \<times> nat"

definition rollback :: "nat \<times> nat \<Rightarrow> db \<Rightarrow> db" where
  "rollback burnt d = d\<lparr>t_packet_observations_seq := t_packet_observations_seq d + int (fst burnt),
     t_anomalies_seq := t_anomalies_seq d + int (snd burnt)\<rparr>"

fun flush_all :: "env \<Rightarrow> Stage list \<Rightarrow> tx \<Rightarrow> Stage list \<times> (err + tx)" where
  "flush_all E [] t = ([], Inr t)"
| "flush_all E (s # ss) t =
     (case Stage_Flush E s t of
        (s', Inl e) \<Rightarrow> (s' # ss, Inl e)
      | (s', Inr t') \<Rightarrow> (let (ss', r) = flush_all E ss t' in (s' # ss', r)))"

definition saveCursor :: "string \<Rightarrow> int \<Rightarrow> db \<Rightarrow> err + db" where
  "saveCursor name i d = Inr (d\<lparr>t_projector_state := AList.update name i (t_projector_state d)\<rparr>)"

fun finish_all :: "env \<Rightarrow> time \<Rightarrow> Stage list \<Rightarrow> pool \<Rightarrow> Stage list \<times> pool" where
  "finish_all E hwm [] pl = ([], pl)"
| "finish_all E hwm (s # ss) pl =
     (let (s1, pl1) = Stage_Notify E s pl;
          s2 = (if hwm \<noteq> zero_time then Stage_Evict hwm s1 else s1);
          (ss', pl') = finish_all E hwm ss pl1
      in (s2 # ss', pl'))"

definition apply_all :: "Event list \<Rightarrow> Stage list \<Rightarrow> Stage list" where
  "apply_all events stages = fold (\<lambda>e. map (Stage_Apply e)) events stages"

definition batch_hwm :: "Event list \<Rightarrow> time" where
  "batch_hwm events = fold (\<lambda>e hwm. if ev_TS e > hwm then ev_TS e else hwm) events zero_time"

type_synonym world = "Stage list \<times> pool \<times> db"

definition ProcessBatch ::
  "env \<Rightarrow> io \<Rightarrow> Event list \<Rightarrow> string \<Rightarrow> int \<Rightarrow> world \<Rightarrow> world \<times> (err + unit)" where
  "ProcessBatch E io events cursorName newCursor = (\<lambda>(stages, pl, d).
     if newCursor \<le> 0 then ((stages, pl, d), Inr ())
     else
       let hwm = batch_hwm events; stages1 = apply_all events stages in
       if \<not> io_begin io then ((stages1, pl, d), Inl ConnError)
       else case flush_all E stages1 \<lparr>tables = d, fuse = io_fuse io\<rparr> of
         (stages2, Inl e) \<Rightarrow> ((stages2, pl, rollback (io_burnt io) d), Inl e)
       | (stages2, Inr t) \<Rightarrow>
           (case exec (saveCursor cursorName newCursor) t of
              Inl e \<Rightarrow> ((stages2, pl, rollback (io_burnt io) d), Inl e)
            | Inr t' \<Rightarrow>
                (case io_commit io of
                   CommitFailed \<Rightarrow> ((stages2, pl, rollback (io_burnt io) d), Inl ConnError)
                 | CommitUnacknowledged \<Rightarrow> ((stages2, pl, tables t'), Inl ConnError)
                 | Committed \<Rightarrow> let (stages3, pl') = finish_all E hwm stages2 pl
                                in ((stages3, pl', tables t'), Inr ()))))"

definition Pipeline_Clear :: "Stage list \<Rightarrow> Stage list" where
  "Pipeline_Clear stages = map Stage_Clear stages"

section \<open>The stages of the projector\<close>

text \<open>The detectors and the stage list that \<^verbatim>\<open>project.New\<close> sets up, in its order; the
  literal \<^verbatim>\<open>0.3\<close> is the nearest \<^verbatim>\<open>float64\<close>.\<close>

definition projector_detectors :: "Detector list" where
  "projector_detectors =
     [DetectRSSIDrop \<lparr>rd_RecentWindow = hour, rd_BaselineWindow = hour, rd_MinSamples = 10,
        rd_ThresholdDB = Fin 6, rd_Severity = ''warn''\<rparr>,
      DetectObserverSilent \<lparr>os_RecentWindow = 15 * minute, os_BaselineWindow = 24 * hour,
        os_BaselineMinPerMin = Fin 1, os_Severity = ''crit''\<rparr>,
      DetectReceptionGap \<lparr>rg_RecentWindow = hour, rg_BaselineWindow = 24 * hour, rg_MinSamples = 30,
        rg_BaselineMinPerMin = Fin (1 / 2), rg_MaxRecentFraction = Fin (5404319552844595 / 2 ^ 54),
        rg_MinPeerFraction = Fin (1 / 2), rg_MinPeers = 1, rg_Severity = ''warn''\<rparr>]"

definition projector_stages :: "Stage list" where
  "projector_stages = [StObservers NewObservers, StStatus NewObserverStatus, StNodes NewNodes,
     StUnique NewPacketsUnique, StRollup NewRollupObserver1m, StRollup NewRollupObserver1h,
     StNeighbor NewRollupNeighbor1m, StPackets NewPacketObservations,
     StAnomalies (NewAnomalies projector_detectors)]"

text \<open>What every table is after the events of \<open>hist\<close>, and the stages' memory with it.\<close>

definition tables_ok :: "env \<Rightarrow> Event list \<Rightarrow> db \<Rightarrow> bool" where
  "tables_ok E hist d \<longleftrightarrow>
     observers_ok E hist (t_observers d) \<and> status_ok E hist (t_observer_status d) \<and>
     nodes_ok E hist (t_nodes d) \<and> unique_ok E hist (t_packets_unique d) \<and>
     rollup_ok minute E hist (t_rollup_observer_1m d) \<and> rollup_ok hour E hist (t_rollup_observer_1h d) \<and>
     neighbor_ok E hist (t_rollup_neighbor_1m d) \<and> packets_ok E hist (packets_tab d) \<and>
     anomalies_ok E hist (anomalies_tab d)"

definition projector_sync :: "env \<Rightarrow> Event list \<Rightarrow> Event list \<Rightarrow> Stage list \<Rightarrow> db \<Rightarrow> bool" where
  "projector_sync E hist es ss d \<longleftrightarrow> (\<exists>a b c u r1 r2 n p q.
     ss = [StObservers a, StStatus b, StNodes c, StUnique u, StRollup r1, StRollup r2, StNeighbor n,
           StPackets p, StAnomalies q] \<and>
     observers_sync E hist es a (t_observers d) \<and> status_sync E hist es b (t_observer_status d) \<and>
     nodes_sync E hist es c (t_nodes d) \<and> unique_sync E hist es u (t_packets_unique d) \<and>
     rollup_sync ''rollup_observer_1m'' minute hour E hist es r1 (t_rollup_observer_1m d) \<and>
     rollup_sync ''rollup_observer_1h'' hour (24 * hour) E hist es r2 (t_rollup_observer_1h d) \<and>
     neighbor_sync E hist es n (t_rollup_neighbor_1m d) \<and> packets_sync E hist es p (packets_tab d) \<and>
     anomalies_sync projector_detectors E hist es q (anomalies_tab d))"

text \<open>Events with server clocks and advert times in range.\<close>

definition event_wf :: "Event \<Rightarrow> bool" where
  "event_wf e \<longleftrightarrow> nodes_wf e \<and> rollup_wf e"

section \<open>Applying a batch\<close>

lemma event_wf_neighbor: "event_wf e \<Longrightarrow> neighbor_wf e"
  by (simp add: event_wf_def rollup_wf_def neighbor_wf_def)

lemma apply_all_Nil [simp]: "apply_all [] ss = ss"
  and apply_all_Cons [simp]: "apply_all (e # es) ss = apply_all es (map (Stage_Apply e) ss)"
  by (simp_all add: apply_all_def)

lemma apply_one_sync:
  assumes "projector_sync E hist es ss d" and "event_wf e"
  shows "projector_sync E hist (es @ [e]) (map (Stage_Apply e) ss) d"
proof -
  have w: "nodes_wf e" "rollup_wf e" "neighbor_wf e"
    using assms(2) event_wf_neighbor by (simp_all add: event_wf_def)
  obtain a b c u r1 r2 n p q where
    ss: "ss = [StObservers a, StStatus b, StNodes c, StUnique u, StRollup r1, StRollup r2, StNeighbor n,
           StPackets p, StAnomalies q]"
    and s: "observers_sync E hist es a (t_observers d)" "status_sync E hist es b (t_observer_status d)"
      "nodes_sync E hist es c (t_nodes d)" "unique_sync E hist es u (t_packets_unique d)"
      "rollup_sync ''rollup_observer_1m'' minute hour E hist es r1 (t_rollup_observer_1m d)"
      "rollup_sync ''rollup_observer_1h'' hour (24 * hour) E hist es r2 (t_rollup_observer_1h d)"
      "neighbor_sync E hist es n (t_rollup_neighbor_1m d)" "packets_sync E hist es p (packets_tab d)"
      "anomalies_sync projector_detectors E hist es q (anomalies_tab d)"
    using assms(1) unfolding projector_sync_def by blast
  note a = observers_stage.apply_sync [OF s(1) TrueI, of e] status_stage.apply_sync [OF s(2) TrueI, of e]
    nodes_stage.apply_sync [OF s(3) w(1)] unique_stage.apply_sync [OF s(4) TrueI, of e]
    rollup_1m_stage.apply_sync [OF s(5) w(2)] rollup_1h_stage.apply_sync [OF s(6) w(2)]
    neighbor_stage.apply_sync [OF s(7) w(3)] packets_stage.apply_sync [OF s(8) TrueI, of e]
    anomalies_stage.apply_sync [OF s(9) TrueI, of e]
  show ?thesis using a unfolding projector_sync_def ss by simp
qed

lemma apply_all_sync:
  "projector_sync E hist es ss d \<Longrightarrow> list_all event_wf fs \<Longrightarrow> projector_sync E hist (es @ fs) (apply_all fs ss) d"
proof (induction fs arbitrary: es ss)
  case (Cons f fs)
  have "projector_sync E hist (es @ [f]) (map (Stage_Apply f) ss) d"
    using Cons.prems by (intro apply_one_sync) auto
  from Cons.IH [OF this] Cons.prems(2) show ?case by simp
qed simp

section \<open>Flushing the stages\<close>

lemma flush_all_Cons_Inr:
  "flush_all E (s # ss) t = (ss', Inr t') \<longleftrightarrow>
    (\<exists>s1 t1 ss1. Stage_Flush E s t = (s1, Inr t1) \<and> flush_all E ss t1 = (ss1, Inr t') \<and> ss' = s1 # ss1)"
  by (auto split: prod.splits sum.splits)

lemma Stage_Flush_Inr:
  "Stage_Flush E (StObservers a) t = (s', Inr t') \<longleftrightarrow> (\<exists>x. Observers_Flush E a t = (x, Inr t') \<and> s' = StObservers x)"
  "Stage_Flush E (StStatus b) t = (s', Inr t') \<longleftrightarrow> (\<exists>x. ObserverStatus_Flush E b t = (x, Inr t') \<and> s' = StStatus x)"
  "Stage_Flush E (StNodes c) t = (s', Inr t') \<longleftrightarrow> (\<exists>x. Nodes_Flush E c t = (x, Inr t') \<and> s' = StNodes x)"
  "Stage_Flush E (StUnique u) t = (s', Inr t') \<longleftrightarrow> (\<exists>x. PacketsUnique_Flush E u t = (x, Inr t') \<and> s' = StUnique x)"
  "Stage_Flush E (StRollup r) t = (s', Inr t') \<longleftrightarrow> (\<exists>x. RollupObserver_Flush E r t = (x, Inr t') \<and> s' = StRollup x)"
  "Stage_Flush E (StNeighbor n) t = (s', Inr t') \<longleftrightarrow> (\<exists>x. RollupNeighbor1m_Flush E n t = (x, Inr t') \<and> s' = StNeighbor x)"
  "Stage_Flush E (StPackets p) t = (s', Inr t') \<longleftrightarrow> (\<exists>x. PacketObservations_Flush E p t = (x, Inr t') \<and> s' = StPackets x)"
  "Stage_Flush E (StAnomalies q) t = (s', Inr t') \<longleftrightarrow> (\<exists>x. Anomalies_Flush E q t = (x, Inr t') \<and> s' = StAnomalies x)"
  by (auto simp: map_prod_def split: prod.splits)

lemma rollup_tables:
  "rollup_rows ''rollup_observer_1m'' d = t_rollup_observer_1m d" "rollup_rows ''rollup_observer_1h'' d = t_rollup_observer_1h d"
  "rollup_put ''rollup_observer_1m'' x d = d\<lparr>t_rollup_observer_1m := x\<rparr>"
  "rollup_put ''rollup_observer_1h'' x d = d\<lparr>t_rollup_observer_1h := x\<rparr>"
  by (simp_all add: rollup_rows_def rollup_put_def)

text \<open>The effect of all the flushes of one transaction, after which the stages may evict.\<close>

lemma flush_all_sync:
  assumes run: "flush_all E ss t = (ss', Inr t')" and ord: "range_order (range_of E)"
    and wf: "list_all event_wf (hist @ es)" and sync: "projector_sync E hist es ss (tables t)"
  shows "projector_sync E (hist @ es) [] (map (Stage_Evict h) ss') (tables t')"
    and "es = [] \<Longrightarrow> projector_sync E hist [] ss' (tables t')"
    and "t_projector_state (tables t') = t_projector_state (tables t)"
proof -
  obtain a b c u r1 r2 n p q where
    ss: "ss = [StObservers a, StStatus b, StNodes c, StUnique u, StRollup r1, StRollup r2, StNeighbor n,
           StPackets p, StAnomalies q]"
    and s: "observers_sync E hist es a (t_observers (tables t))" "status_sync E hist es b (t_observer_status (tables t))"
      "nodes_sync E hist es c (t_nodes (tables t))" "unique_sync E hist es u (t_packets_unique (tables t))"
      "rollup_sync ''rollup_observer_1m'' minute hour E hist es r1 (t_rollup_observer_1m (tables t))"
      "rollup_sync ''rollup_observer_1h'' hour (24 * hour) E hist es r2 (t_rollup_observer_1h (tables t))"
      "neighbor_sync E hist es n (t_rollup_neighbor_1m (tables t))" "packets_sync E hist es p (packets_tab (tables t))"
      "anomalies_sync projector_detectors E hist es q (anomalies_tab (tables t))"
    using sync unfolding projector_sync_def by blast
  have w: "list_all nodes_wf (hist @ es)" "list_all rollup_wf (hist @ es)" "list_all neighbor_wf (hist @ es)"
    using wf by (auto simp: list_all_iff event_wf_def intro: event_wf_neighbor [unfolded event_wf_def])
  have w': "list_all nodes_wf hist" "list_all rollup_wf hist" "list_all neighbor_wf hist"
    using w by simp_all
  have T: "list_all (\<lambda>_. True) xs" for xs :: "Event list" by (simp add: list_all_iff)
  from run [unfolded ss flush_all_Cons_Inr Stage_Flush_Inr flush_all.simps(1)]
  obtain a' b' c' u' r1' r2' n' p' q' t1 t2 t3 t4 t5 t6 t7 t8 where
    f: "Observers_Flush E a t = (a', Inr t1)" "ObserverStatus_Flush E b t1 = (b', Inr t2)"
       "Nodes_Flush E c t2 = (c', Inr t3)" "PacketsUnique_Flush E u t3 = (u', Inr t4)"
       "RollupObserver_Flush E r1 t4 = (r1', Inr t5)" "RollupObserver_Flush E r2 t5 = (r2', Inr t6)"
       "RollupNeighbor1m_Flush E n t6 = (n', Inr t7)" "PacketObservations_Flush E p t7 = (p', Inr t8)"
       "Anomalies_Flush E q t8 = (q', Inr t')"
    and ss': "ss' = [StObservers a', StStatus b', StNodes c', StUnique u', StRollup r1', StRollup r2', StNeighbor n',
           StPackets p', StAnomalies q']"
    by (elim exE conjE) (simp only: prod.inject sum.inject)
  have seen: "packets_seen hist (tables t)"
    using s(8) packets_ok_seen by (auto simp: packets_sync_def)
  obtain x1 where t1: "tables t1 = (tables t)\<lparr>t_observers := x1\<rparr>"
    using observers_stage.flush_frame [OF f(1) s(1)] by blast
  have s2: "status_sync E hist es b (t_observer_status (tables t1))" using s(2) t1 by simp
  obtain x2 where t2: "tables t2 = (tables t1)\<lparr>t_observer_status := x2\<rparr>"
    using status_stage.flush_frame [OF f(2) s2] by blast
  have s3: "nodes_sync E hist es c (t_nodes (tables t2))" using s(3) t1 t2 by simp
  obtain x3 where t3: "tables t3 = (tables t2)\<lparr>t_nodes := x3\<rparr>"
    using nodes_stage.flush_frame [OF f(3) s3] by blast
  have s4: "unique_sync E hist es u (t_packets_unique (tables t3))" "packets_seen hist (tables t3)"
    using s(4) seen t1 t2 t3 by (simp_all add: packets_seen_def)
  obtain x4 where t4: "tables t4 = (tables t3)\<lparr>t_packets_unique := x4\<rparr>"
    using unique_stage.flush_frame [OF f(4) s4(1)] by blast
  have s5: "rollup_sync ''rollup_observer_1m'' minute hour E hist es r1 (rollup_rows ''rollup_observer_1m'' (tables t4))"
    "packets_seen hist (tables t4)"
    using s(5) s4(2) t1 t2 t3 t4 by (simp_all add: packets_seen_def rollup_tables)
  obtain x5 where t5: "tables t5 = (tables t4)\<lparr>t_rollup_observer_1m := x5\<rparr>"
    using rollup_1m_stage.flush_frame [OF f(5) s5(1)] unfolding rollup_tables by blast
  have s6: "rollup_sync ''rollup_observer_1h'' hour (24 * hour) E hist es r2 (rollup_rows ''rollup_observer_1h'' (tables t5))"
    "packets_seen hist (tables t5)"
    using s(6) s5(2) t1 t2 t3 t4 t5 by (simp_all add: packets_seen_def rollup_tables)
  obtain x6 where t6: "tables t6 = (tables t5)\<lparr>t_rollup_observer_1h := x6\<rparr>"
    using rollup_1h_stage.flush_frame [OF f(6) s6(1)] unfolding rollup_tables by blast
  have s7: "neighbor_sync E hist es n (t_rollup_neighbor_1m (tables t6))" using s(7) t1 t2 t3 t4 t5 t6 by simp
  obtain x7 where t7: "tables t7 = (tables t6)\<lparr>t_rollup_neighbor_1m := x7\<rparr>"
    using neighbor_stage.flush_frame [OF f(7) s7] by blast
  have s8: "packets_sync E hist es p (packets_tab (tables t7))" using s(8) t1 t2 t3 t4 t5 t6 t7 by simp
  obtain x8 where t8: "tables t8 = packets_put x8 (tables t7)"
    using packets_stage.flush_frame [OF f(8) s8] by blast
  have s9: "anomalies_sync projector_detectors E hist es q (anomalies_tab (tables t8))"
    using s(9) t1 t2 t3 t4 t5 t6 t7 t8 by simp
  obtain x9 where t9: "tables t' = anomalies_put x9 (tables t8)"
    using anomalies_stage.flush_frame [OF f(9) s9] by blast
  note tabs = t1 t2 t3 t4 t5 t6 t7 t8 t9
  show "t_projector_state (tables t') = t_projector_state (tables t)" by (simp add: tabs)
  show "projector_sync E (hist @ es) [] (map (Stage_Evict h) ss') (tables t')"
    using observers_stage.flush_sync [OF f(1) ord TrueI T s(1), of h]
      status_stage.flush_sync [OF f(2) ord TrueI T s2, of h]
      nodes_stage.flush_sync [OF f(3) ord TrueI w(1) s3, of h]
      unique_stage.flush_sync [OF f(4) ord s4(2) T s4(1), of h]
      rollup_1m_stage.flush_sync [OF f(5) ord s5(2) w(2) s5(1), of h]
      rollup_1h_stage.flush_sync [OF f(6) ord s6(2) w(2) s6(1), of h]
      neighbor_stage.flush_sync [OF f(7) ord TrueI w(3) s7, of h]
      packets_stage.flush_sync [OF f(8) ord TrueI T s8, of h]
      anomalies_stage.flush_sync [OF f(9) ord TrueI T s9, of h]
    unfolding projector_sync_def ss' rollup_tables by (simp add: tabs)
  show "projector_sync E hist [] ss' (tables t')" if es: "es = []"
    using observers_stage.flush_idle [OF f(1) ord TrueI T s(1) [unfolded es]]
      status_stage.flush_idle [OF f(2) ord TrueI T s2 [unfolded es]]
      nodes_stage.flush_idle [OF f(3) ord TrueI w'(1) s3 [unfolded es]]
      unique_stage.flush_idle [OF f(4) ord s4(2) T s4(1) [unfolded es]]
      rollup_1m_stage.flush_idle [OF f(5) ord s5(2) w'(2) s5(1) [unfolded es]]
      rollup_1h_stage.flush_idle [OF f(6) ord s6(2) w'(2) s6(1) [unfolded es]]
      neighbor_stage.flush_idle [OF f(7) ord TrueI w'(3) s7 [unfolded es]]
      packets_stage.flush_idle [OF f(8) ord TrueI T s8 [unfolded es]]
      anomalies_stage.flush_idle [OF f(9) ord TrueI T s9 [unfolded es]]
    unfolding projector_sync_def ss' rollup_tables by (simp add: tabs)
qed

section \<open>Rows that cannot be stored\<close>

text \<open>The copy of the packets is one statement: one row that violates a column fails the flush.\<close>

lemma copy_rows_ok: "copy_rows E xs = Some ys \<Longrightarrow> (i, r) \<in> set xs \<Longrightarrow> packet_row_ok r"
  by (induction E xs arbitrary: ys rule: copy_rows.induct) (auto split: option.splits if_splits)

lemma PacketObservations_Flush_rows:
  assumes "PacketObservations_Flush E s t = (s', Inr t')" "r \<in> set (pk_buf s)" shows "packet_row_ok r"
proof -
  let ?ids = "drawn_ids (length (pk_buf s)) (tables t)"
  have "pk_buf s \<noteq> []" using assms(2) by auto
  then obtain ys where "copy_rows E (zip ?ids (pk_buf s)) = Some ys"
    using assms(1) by (auto simp: PacketObservations_Flush_def Let_def exec_Inr packets_copy_def split: sum.splits option.splits)
  moreover have "length ?ids = length (pk_buf s)" by (simp add: drawn_ids_def)
  then obtain i where "(i, r) \<in> set (zip ?ids (pk_buf s))" using assms(2) by (metis in_set_impl_in_set_zip2)
  ultimately show ?thesis by (rule copy_rows_ok)
qed

definition has_packets :: "Stage list \<Rightarrow> bool" where
  "has_packets ss \<longleftrightarrow> (\<exists>p. StPackets p \<in> set ss)"

lemma has_packets_Cons: "has_packets (s # ss) \<longleftrightarrow> (\<exists>p. s = StPackets p) \<or> has_packets ss"
  by (auto simp: has_packets_def)

lemma Stage_Flush_packets: "Stage_Flush E s t = (s', r) \<Longrightarrow> (\<exists>p. s = StPackets p) \<longleftrightarrow> (\<exists>p. s' = StPackets p)"
  by (cases s) (auto simp: map_prod_def split: prod.splits)

lemma flush_all_packets: "flush_all E ss t = (ss', r) \<Longrightarrow> has_packets ss' = has_packets ss"
proof (induction ss arbitrary: ss' t r)
  case (Cons s ss)
  then show ?case
    by (auto simp: has_packets_Cons split: prod.splits sum.splits dest!: Stage_Flush_packets)
qed simp

lemma flush_all_rows:
  "flush_all E ss t = (ss', Inr t') \<Longrightarrow> StPackets p \<in> set ss \<Longrightarrow> r \<in> set (pk_buf p) \<Longrightarrow> packet_row_ok r"
proof (induction ss arbitrary: ss' t)
  case (Cons s ss)
  from Cons.prems(1) obtain s1 t1 ss1 where f: "Stage_Flush E s t = (s1, Inr t1)" "flush_all E ss t1 = (ss1, Inr t')"
    unfolding flush_all_Cons_Inr by blast
  show ?case
  proof (cases "s = StPackets p")
    case True
    then show ?thesis using f(1) Cons.prems(3) PacketObservations_Flush_rows unfolding True Stage_Flush_Inr by blast
  qed (use Cons.IH [OF f(2)] Cons.prems in auto)
qed simp

lemma apply_all_buffers:
  "StPackets p \<in> set ss \<Longrightarrow> \<exists>p'. StPackets p' \<in> set (apply_all es ss) \<and> set (pk_buf p) \<subseteq> set (pk_buf p') \<and>
    (\<forall>e \<in> set es. \<forall>q. ev_Payload e = KindPacket q \<longrightarrow> new_packetRow e q \<in> set (pk_buf p'))"
proof (induction es arbitrary: p ss)
  case (Cons e es)
  let ?p = "PacketObservations_Apply e p"
  have "Stage_Apply e (StPackets p) \<in> set (map (Stage_Apply e) ss)" using Cons.prems unfolding set_map by (rule imageI)
  then have "StPackets ?p \<in> set (map (Stage_Apply e) ss)" by simp
  from Cons.IH [OF this] obtain p' where p': "StPackets p' \<in> set (apply_all es (map (Stage_Apply e) ss))"
    "set (pk_buf ?p) \<subseteq> set (pk_buf p')"
    "\<forall>e \<in> set es. \<forall>q. ev_Payload e = KindPacket q \<longrightarrow> new_packetRow e q \<in> set (pk_buf p')" by blast
  have "set (pk_buf p) \<subseteq> set (pk_buf ?p)" "\<forall>q. ev_Payload e = KindPacket q \<longrightarrow> new_packetRow e q \<in> set (pk_buf ?p)"
    by (auto simp: PacketObservations_Apply_def split: EventPayload.splits)
  then show ?case using p' by (intro exI [of _ p']) auto
qed auto

lemma apply_all_packets: "has_packets ss \<Longrightarrow> has_packets (apply_all es ss)"
  unfolding has_packets_def using apply_all_buffers by meson

lemma ProcessBatch_poison:
  assumes run: "ProcessBatch E io es name n (ss, pl, d) = ((ss', pl', d'), r)" and n: "0 < n"
    and poison: "has_packets ss" "e \<in> set es" "ev_Payload e = KindPacket q" "\<not> packet_row_ok (new_packetRow e q)"
  shows "(\<exists>x. r = Inl x) \<and> pl' = pl \<and> has_packets ss' \<and> (d' = d \<or> d' = rollback (io_burnt io) d)"
proof -
  obtain p where "StPackets p \<in> set ss" using poison(1) by (auto simp: has_packets_def)
  from apply_all_buffers [OF this, of es] poison(2,3) obtain p' where
    p': "StPackets p' \<in> set (apply_all es ss)" "new_packetRow e q \<in> set (pk_buf p')" by blast
  obtain ss2 x where f: "flush_all E (apply_all es ss) \<lparr>tables = d, fuse = io_fuse io\<rparr> = (ss2, x)" by (rule prod.exhaust)
  have x: "x \<noteq> Inr t" for t using flush_all_rows [OF _ p'] poison(4) f by blast
  have "has_packets (apply_all es ss)" by (rule apply_all_packets [OF poison(1)])
  moreover from this have "has_packets ss2" using flush_all_packets [OF f] by simp
  ultimately show ?thesis
    using run n x f by (cases x) (auto simp: ProcessBatch_def Let_def split: if_splits)
qed

section \<open>After the commit\<close>

text \<open>Notifying touches no memory but the list of the anomalies to announce.\<close>

fun announced :: "Stage \<Rightarrow> Stage" where
  "announced (StAnomalies q) = StAnomalies (q\<lparr>am_emitted := []\<rparr>)"
| "announced s = s"

lemma Stage_Notify_fst: "fst (Stage_Notify E s pl) = announced s"
  by (cases s) (simp_all add: ObserverStatus_Notify_def PacketObservations_Notify_def Anomalies_Notify_def)

lemma Stage_Evict_announced: "Stage_Evict h (announced s) = announced (Stage_Evict h s)"
  by (cases s) (simp_all add: Anomalies_Evict_def)

lemma finish_all_fst:
  "fst (finish_all E hwm ss pl) = map announced (if hwm \<noteq> zero_time then map (Stage_Evict hwm) ss else ss)"
proof (induction ss arbitrary: pl)
  case (Cons s ss)
  obtain s1 pl1 where n: "Stage_Notify E s pl = (s1, pl1)" by (rule prod.exhaust)
  obtain ss2 pl2 where f: "finish_all E hwm ss pl1 = (ss2, pl2)" by (rule prod.exhaust)
  have "s1 = announced s" using Stage_Notify_fst [of E s pl] n by simp
  with Cons.IH [of pl1] n f show ?case by (simp add: Stage_Evict_announced)
qed simp

lemma announced_sync: "projector_sync E hist es ss d \<Longrightarrow> projector_sync E hist es (map announced ss) d"
  by (auto simp: projector_sync_def anomalies_sync_def)

lemma batch_hwm_pos: "es \<noteq> [] \<Longrightarrow> list_all event_wf es \<Longrightarrow> 0 < batch_hwm es"
proof -
  have le: "h \<le> fold (\<lambda>e hwm. if ev_TS e > hwm then ev_TS e else hwm) es h" for es and h :: time
  proof (induction es arbitrary: h)
    case (Cons e es)
    show ?case using Cons.IH [of "ev_TS e"] Cons.IH [of h] by (cases "ev_TS e > h") simp_all
  qed simp
  assume "es \<noteq> []" "list_all event_wf es"
  then obtain e fs where "es = e # fs" "0 < ev_TS e"
    by (cases es) (auto simp: event_wf_def nodes_wf_def)
  then show ?thesis using le [of "ev_TS e" fs] by (simp add: batch_hwm_def)
qed

lemma projector_sync_ok:
  assumes "projector_sync E hist [] ss d" shows "tables_ok E hist d"
proof -
  obtain a b c u r1 r2 n p q where
    "observers_sync E hist [] a (t_observers d)" "status_sync E hist [] b (t_observer_status d)"
    "nodes_sync E hist [] c (t_nodes d)" "unique_sync E hist [] u (t_packets_unique d)"
    "rollup_sync ''rollup_observer_1m'' minute hour E hist [] r1 (t_rollup_observer_1m d)"
    "rollup_sync ''rollup_observer_1h'' hour (24 * hour) E hist [] r2 (t_rollup_observer_1h d)"
    "neighbor_sync E hist [] n (t_rollup_neighbor_1m d)" "packets_sync E hist [] p (packets_tab d)"
    "anomalies_sync projector_detectors E hist [] q (anomalies_tab d)"
    using assms unfolding projector_sync_def by blast
  note s = this
  show ?thesis
    using observers_stage.sync_ok [OF s(1)] status_stage.sync_ok [OF s(2)] nodes_stage.sync_ok [OF s(3)]
      unique_stage.sync_ok [OF s(4)] rollup_1m_stage.sync_ok [OF s(5)] rollup_1h_stage.sync_ok [OF s(6)]
      neighbor_stage.sync_ok [OF s(7)] packets_stage.sync_ok [OF s(8)] anomalies_stage.sync_ok [OF s(9)]
    unfolding tables_ok_def by simp
qed

lemma fresh_stages_sync: "tables_ok E hist d \<Longrightarrow> projector_sync E hist [] projector_stages d"
  using observers_stage.fresh_sync status_stage.fresh_sync nodes_stage.fresh_sync unique_stage.fresh_sync
    rollup_1m_stage.fresh_sync rollup_1h_stage.fresh_sync neighbor_stage.fresh_sync packets_stage.fresh_sync
    anomalies_stage.fresh_sync [of _ _ _ projector_detectors]
  unfolding projector_sync_def tables_ok_def projector_stages_def by simp

text \<open>The outcomes of a batch.\<close>

lemma ProcessBatch_ok:
  assumes "ProcessBatch E io es name n (ss, pl, d) = ((ss', pl', d'), Inr ())" and "0 < n"
  obtains ss2 t where "flush_all E (apply_all es ss) \<lparr>tables = d, fuse = io_fuse io\<rparr> = (ss2, Inr t)"
    "d' = (tables t)\<lparr>t_projector_state := AList.update name n (t_projector_state (tables t))\<rparr>"
    "(ss', pl') = finish_all E (batch_hwm es) ss2 pl" "io_commit io = Committed"
  using assms
  by (auto simp: ProcessBatch_def Let_def exec_Inr saveCursor_def
      split: if_splits prod.splits sum.splits commit.splits)

lemma projector_sync_state [simp]:
  "projector_sync E hist es ss (d\<lparr>t_projector_state := x\<rparr>) = projector_sync E hist es ss d"
  by (simp add: projector_sync_def)

lemma ProcessBatch_sync:
  assumes run: "ProcessBatch E io es name n (ss, pl, d) = ((ss', pl', d'), Inr ())" and n: "0 < n"
    and ord: "range_order (range_of E)" and wf: "list_all event_wf (hist @ fs @ es)"
    and sync: "projector_sync E hist fs ss d" and one: "es = [] \<Longrightarrow> fs = []"
  shows "projector_sync E (hist @ fs @ es) [] ss' d'"
    and "t_projector_state d' = AList.update name n (t_projector_state d)"
proof -
  obtain ss2 t where f: "flush_all E (apply_all es ss) \<lparr>tables = d, fuse = io_fuse io\<rparr> = (ss2, Inr t)"
    and d': "d' = (tables t)\<lparr>t_projector_state := AList.update name n (t_projector_state (tables t))\<rparr>"
    and ss': "(ss', pl') = finish_all E (batch_hwm es) ss2 pl"
    by (rule ProcessBatch_ok [OF run n])
  have a: "projector_sync E hist (fs @ es) (apply_all es ss) d"
    using sync wf by (intro apply_all_sync) auto
  then have "projector_sync E hist (fs @ es) (apply_all es ss) (tables \<lparr>tables = d, fuse = io_fuse io\<rparr>)" by simp
  note s = flush_all_sync [OF f ord wf this]
  show "t_projector_state d' = AList.update name n (t_projector_state d)" using s(3) by (simp add: d')
  have e: "ss' = map announced (if batch_hwm es \<noteq> zero_time then map (Stage_Evict (batch_hwm es)) ss2 else ss2)"
    using finish_all_fst [of E "batch_hwm es" ss2 pl] ss' by (metis fst_conv)
  show "projector_sync E (hist @ fs @ es) [] ss' d'"
  proof (cases "es = []")
    case True
    then have "fs @ es = []" using one by simp
    then show ?thesis
      using s(1) [of "batch_hwm es"] s(2) announced_sync by (auto simp: e d')
  next
    case False
    then have "batch_hwm es \<noteq> zero_time" using batch_hwm_pos [OF False] wf by auto
    then show ?thesis using announced_sync [OF s(1) [of "batch_hwm es"]] by (simp add: e d' del: map_map)
  qed
qed

section \<open>Properties\<close>

text \<open>C6 (refinement): a batch that commits extends the committed log: with the memory in step with the
  tables before, every table is afterwards what its stage promises of the log with the batch
  appended, the memory is in step again, and the cursor is the new one. The stages are composed
  as the pipeline composes them, in one transaction, each reading what the earlier ones wrote.\<close>

theorem batch_extends_log:
  assumes "ProcessBatch E io es name n (ss, pl, d) = ((ss', pl', d'), Inr ())" and "0 < n"
    and "range_order (range_of E)" and "list_all event_wf (hist @ es)"
    and "projector_sync E hist [] ss d"
  shows "tables_ok E (hist @ es) d' \<and> projector_sync E (hist @ es) [] ss' d' \<and>
    map_of (t_projector_state d') name = Some n"
  using ProcessBatch_sync [OF assms(1-3) _ assms(5)] assms(4)
  by (simp add: projector_sync_ok update_conv')

text \<open>A first batch of a status message and a packet into the empty tables.\<close>

definition sample_io :: io where
  "sample_io = \<lparr>io_begin = True, io_fuse = None, io_commit = Committed, io_burnt = (0, 0)\<rparr>"

definition sample_world :: world where
  "sample_world = (projector_stages, \<lparr>pl_sent = [], pl_ok = []\<rparr>, empty_db)"

lemma sample_run: "succeeds (ProcessBatch sample_env sample_io [status_event, quiet_event] ''default'' 2 sample_world)"
  by code_simp

lemma sample_events_wf: "list_all event_wf [status_event, quiet_event]"
  by code_simp

lemma empty_tables_ok: "tables_ok E [] empty_db"
  by (simp add: tables_ok_def observers_ok_def status_ok_def nodes_ok_def unique_ok_def rollup_ok_def neighbor_ok_def
      packets_ok_def anomalies_ok_def anomalies_rows_def empty_db_def observer_events_def status_events_def
      node_adverts_def unique_events_def packet_events_def List.map_filter_def)

lemma sample_world_sync: "projector_sync sample_env [] [] projector_stages empty_db"
  by (rule fresh_stages_sync [OF empty_tables_ok])

lemma batch_extends_log_witness:
  "\<exists>ss' pl' d'. ProcessBatch sample_env sample_io [status_event, quiet_event] ''default'' 2 sample_world =
      ((ss', pl', d'), Inr ()) \<and>
    tables_ok sample_env [status_event, quiet_event] d' \<and> map_of (t_projector_state d') ''default'' = Some 2"
proof -
  obtain w where r: "ProcessBatch sample_env sample_io [status_event, quiet_event] ''default'' 2 sample_world = (w, Inr ())"
    using sample_run by (auto elim: succeedsE)
  obtain ss' pl' d' where w: "w = (ss', pl', d')" by (metis prod_cases3)
  from batch_extends_log [OF r [unfolded w sample_world_def] _ sample_range _ sample_world_sync] sample_events_wf r w
  show ?thesis by simp
qed

text \<open>
  Two packets of one observer and minute, the first with a hash that is empty but not nil. In one
  batch, or in two batches of one process, the minute has no distinct packet; with a restart between
  the two batches it has one.
\<close>

definition blank_event :: Event where
  "blank_event = packet_event\<lparr>ev_Payload := KindPacket (sample_packet\<lparr>pp_PacketHash := Some [], pp_Advert := None,
     pp_RSSI := None, pp_SNR := None\<rparr>)\<rparr>"

definition nohash_event :: Event where
  "nohash_event = blank_event\<lparr>ev_RawID := 3, ev_Payload := KindPacket (sample_packet\<lparr>pp_PacketHash := None, pp_Advert := None,
     pp_RSSI := None, pp_SNR := None\<rparr>)\<rparr>"

definition unique_pkts_of :: "world \<times> (err + unit) \<Rightarrow> int list" where
  "unique_pkts_of r = (case snd r of Inl _ \<Rightarrow> [] | Inr _ \<Rightarrow> map (ro_unique_pkts \<circ> snd) (t_rollup_observer_1m (snd (snd (fst r)))))"

lemma empty_hash_counted_after_restart:
  "let first = fst (ProcessBatch sample_env sample_io [blank_event] ''default'' 2 sample_world) in
   unique_pkts_of (ProcessBatch sample_env sample_io [blank_event, nohash_event] ''default'' 3 sample_world) = [0] \<and>
   unique_pkts_of (ProcessBatch sample_env sample_io [nohash_event] ''default'' 3 first) = [0] \<and>
   unique_pkts_of (ProcessBatch sample_env sample_io [nohash_event] ''default'' 3 (projector_stages, snd first)) = [1]"
  by code_simp

text \<open>C7 (safety): a batch that fails before its commit takes effect leaves every table and the cursor as
  they were, and sends no notification: only sequence values are lost.\<close>

theorem failed_batch_is_atomic:
  assumes "ProcessBatch E io es name n (ss, pl, d) = ((ss', pl', d'), Inl e)"
    and "io_commit io \<noteq> CommitUnacknowledged"
  shows "pl' = pl \<and> (d' = d \<or> d' = rollback (io_burnt io) d)"
  using assms
  by (auto simp: ProcessBatch_def Let_def split: if_splits prod.splits sum.splits commit.splits)

lemma failed_batch_is_atomic_witness:
  "snd (snd (fst (ProcessBatch sample_env (sample_io\<lparr>io_fuse := Some 3\<rparr>) [status_event, quiet_event] ''default'' 2 sample_world)))
    = empty_db"
proof -
  let ?r = "ProcessBatch sample_env (sample_io\<lparr>io_fuse := Some 3\<rparr>) [status_event, quiet_event] ''default'' 2 sample_world"
  have "\<not> succeeds ?r" by code_simp
  moreover obtain ss' pl' d' x where r: "?r = ((ss', pl', d'), x)" by (metis prod_cases3 prod.exhaust)
  ultimately obtain e where "x = Inl e" by (cases x) (auto simp: succeeds_def)
  with failed_batch_is_atomic [OF r [unfolded sample_world_def this]]
  have "d' = empty_db" by (auto simp: sample_io_def rollback_def)
  then show ?thesis unfolding r by simp
qed

text \<open>C8 (error): a batch whose transaction could not begin stays in the stages' memory. The retry, which
  reads the same events again, then commits every one of them twice: the tables are those of a
  log that repeats the batch.\<close>

theorem retry_repeats_batch:
  assumes "projector_sync E hist [] ss d" and "list_all event_wf (hist @ es)" and "range_order (range_of E)"
    and "ProcessBatch E io es name n (ss, pl, d) = ((ss1, pl1, d1), Inl e)" and "\<not> io_begin io"
    and "ProcessBatch E io' es name n (ss1, pl1, d1) = ((ss2, pl2, d2), Inr ())" and "es \<noteq> []"
  shows "tables_ok E (hist @ es @ es) d2"
proof -
  have 1: "ss1 = apply_all es ss" "d1 = d" "0 < n"
    using assms(4,5) by (auto simp: ProcessBatch_def Let_def split: if_splits)
  have "projector_sync E hist es ss1 d1"
    using apply_all_sync [OF assms(1), of es] assms(2) by (simp add: 1)
  from ProcessBatch_sync(1) [OF assms(6) 1(3) assms(3) _ this] assms(2,7)
  show ?thesis by (simp add: projector_sync_ok)
qed

lemma retry_repeats_batch_witness:
  "\<exists>ss1 pl1 d1 ss2 pl2 d2.
    ProcessBatch sample_env (sample_io\<lparr>io_begin := False\<rparr>) [status_event, quiet_event] ''default'' 2 sample_world =
      ((ss1, pl1, d1), Inl ConnError) \<and>
    ProcessBatch sample_env sample_io [status_event, quiet_event] ''default'' 2 (ss1, pl1, d1) = ((ss2, pl2, d2), Inr ()) \<and>
    tables_ok sample_env ([status_event, quiet_event] @ [status_event, quiet_event]) d2"
proof -
  let ?es = "[status_event, quiet_event]"
  let ?w = "(apply_all ?es projector_stages, \<lparr>pl_sent = [], pl_ok = []\<rparr>, empty_db)"
  have 1: "ProcessBatch sample_env (sample_io\<lparr>io_begin := False\<rparr>) ?es ''default'' 2 sample_world = (?w, Inl ConnError)"
    by (simp add: ProcessBatch_def sample_world_def sample_io_def)
  have "succeeds (ProcessBatch sample_env sample_io ?es ''default'' 2 ?w)" by code_simp
  then obtain w where 2: "ProcessBatch sample_env sample_io ?es ''default'' 2 ?w = (w, Inr ())"
    by (auto elim: succeedsE)
  obtain ss2 pl2 d2 where w: "w = (ss2, pl2, d2)" by (metis prod_cases3)
  have b: "\<not> io_begin (sample_io\<lparr>io_begin := False\<rparr>)" by (simp add: sample_io_def)
  from retry_repeats_batch [OF sample_world_sync _ sample_range 1 [unfolded sample_world_def] b 2 [unfolded w]]
    sample_events_wf 1 2 w
  show ?thesis by simp
qed

end
