(* ===== verification/Project_Store.thy ===== *)
theory Project_Store
  imports Pipeline
begin

text \<open>
  The projector's side of \<^verbatim>\<open>internal/store/queries.go\<close>: the cursor row and the reset of the derived
  tables. What the connection does is an argument, as for a batch of the pipeline.
\<close>

section \<open>Model\<close>

definition projectorName :: string where "projectorName = ''default''"

text \<open>No row is an error of the scan.\<close>

definition LoadProjectorCursor :: "bool \<Rightarrow> string \<Rightarrow> db \<Rightarrow> err + int" where
  "LoadProjectorCursor ok name d =
     (if \<not> ok then Inl ConnError
      else case map_of (t_projector_state d) name of
        None \<Rightarrow> Inl (ConstraintError ''projector_state'')
      | Some i \<Rightarrow> Inr i)"

definition SaveProjectorCursor :: "bool \<Rightarrow> string \<Rightarrow> int \<Rightarrow> db \<Rightarrow> db \<times> (err + unit)" where
  "SaveProjectorCursor ok name i d =
     (if \<not> ok then (d, Inl ConnError)
      else (d\<lparr>t_projector_state := AList.update name i (t_projector_state d)\<rparr>, Inr ()))"

text \<open>
  The statements of the reset, each with the number of its parameters. The truncation of
  \<^verbatim>\<open>anomalies\<close> also restarts its sequence, that of \<^verbatim>\<open>packet_observations\<close> does not.
\<close>

definition reset_stmts :: "string \<Rightarrow> (nat \<times> (db \<Rightarrow> db)) list" where
  "reset_stmts name =
     [(0, \<lambda>d. d\<lparr>t_anomalies := [], t_anomalies_seq := 0\<rparr>),
      (0, \<lambda>d. d\<lparr>t_rollup_neighbor_1m := []\<rparr>),
      (0, \<lambda>d. d\<lparr>t_rollup_observer_1h := []\<rparr>),
      (0, \<lambda>d. d\<lparr>t_rollup_observer_1m := []\<rparr>),
      (0, \<lambda>d. d\<lparr>t_packets_unique := []\<rparr>),
      (0, \<lambda>d. d\<lparr>t_packet_observations := []\<rparr>),
      (0, \<lambda>d. d\<lparr>t_observer_status := []\<rparr>),
      (0, \<lambda>d. d\<lparr>t_nodes := []\<rparr>),
      (0, \<lambda>d. d\<lparr>t_observers := []\<rparr>),
      (1, \<lambda>d. d\<lparr>t_projector_state := map (\<lambda>(n, i). (n, if n = name then 0 else i)) (t_projector_state d)\<rparr>)]"

text \<open>\<^verbatim>\<open>tx.Exec\<close> with \<open>given\<close> arguments: a mismatch is an error before the statement runs.\<close>

definition exec_args :: "nat \<Rightarrow> nat \<times> (db \<Rightarrow> db) \<Rightarrow> tx \<Rightarrow> err + tx" where
  "exec_args given stmt t =
     (if given \<noteq> fst stmt then Inl (ConstraintError ''arguments'')
      else exec (\<lambda>d. Inr (snd stmt d)) t)"

fun reset_all :: "(nat \<times> (db \<Rightarrow> db)) list \<Rightarrow> tx \<Rightarrow> err + tx" where
  "reset_all [] t = Inr t"
| "reset_all (q # qs) t =
     (case exec_args 1 q t of
        Inr t' \<Rightarrow> reset_all qs t'
      | Inl e \<Rightarrow>
          (case exec_args 0 q t of
             Inr t' \<Rightarrow> reset_all qs t'
           | Inl _ \<Rightarrow> Inl e))"

definition ResetDerivedState :: "io \<Rightarrow> string \<Rightarrow> db \<Rightarrow> db \<times> (err + unit)" where
  "ResetDerivedState io name d =
     (if \<not> io_begin io then (d, Inl ConnError)
      else case reset_all (reset_stmts name) \<lparr>tables = d, fuse = io_fuse io\<rparr> of
        Inl e \<Rightarrow> (d, Inl e)
      | Inr t \<Rightarrow>
          (case io_commit io of
             CommitFailed \<Rightarrow> (d, Inl ConnError)
           | CommitUnacknowledged \<Rightarrow> (tables t, Inl ConnError)
           | Committed \<Rightarrow> (tables t, Inr ())))"

section \<open>Lemmas\<close>

lemma reset_all_Cons:
  "reset_all (q # qs) t =
    (if fst q \<notin> {0, 1} then Inl (ConstraintError ''arguments'')
     else case exec (\<lambda>d. Inr (snd q d)) t of
       Inr t' \<Rightarrow> reset_all qs t'
     | Inl e \<Rightarrow> Inl (if fst q = 1 then e else ConstraintError ''arguments''))"
  by (cases q) (auto simp: exec_args_def split: sum.splits)

lemma reset_all_ok:
  "reset_all qs t = Inr t' \<Longrightarrow> tables t' = fold snd qs (tables t)"
proof (induction qs arbitrary: t)
  case (Cons q qs)
  then obtain t1 where "exec (\<lambda>d. Inr (snd q d)) t = Inr t1" "reset_all qs t1 = Inr t'"
    by (auto simp: reset_all_Cons simp del: reset_all.simps split: if_splits sum.splits)
  then show ?case using Cons.IH [of t1] by (auto simp: exec_Inr)
qed simp

definition reset_db :: "string \<Rightarrow> db \<Rightarrow> db" where
  "reset_db name d = empty_db\<lparr>t_packet_observations_seq := t_packet_observations_seq d,
     t_projector_state := map (\<lambda>(n, i). (n, if n = name then 0 else i)) (t_projector_state d)\<rparr>"

lemma fold_reset_stmts: "fold snd (reset_stmts name) d = reset_db name d"
  by (simp add: reset_stmts_def reset_db_def empty_db_def)

lemma reset_all_db:
  "reset_all (reset_stmts name) \<lparr>tables = d, fuse = f\<rparr> = Inr t \<Longrightarrow> tables t = reset_db name d"
  using reset_all_ok [of "reset_stmts name" "\<lparr>tables = d, fuse = f\<rparr>" t] by (simp add: fold_reset_stmts)

text \<open>A reset takes effect as a whole or not at all.\<close>

lemma ResetDerivedState_db:
  "ResetDerivedState io name d = (d', r) \<Longrightarrow> d' = d \<and> r \<noteq> Inr () \<or> d' = reset_db name d"
  by (auto simp: ResetDerivedState_def dest: reset_all_db split: if_splits sum.splits commit.splits)

lemma ResetDerivedState_ok: "ResetDerivedState io name d = (d', Inr ()) \<Longrightarrow> d' = reset_db name d"
  using ResetDerivedState_db by blast

lemma tables_ok_seq:
  "tables_ok E hist d \<Longrightarrow> t_packet_observations_seq d \<le> x \<Longrightarrow> t_anomalies_seq d \<le> y \<Longrightarrow>
    tables_ok E hist (d\<lparr>t_packet_observations_seq := x, t_anomalies_seq := y\<rparr>)"
  by (force simp: tables_ok_def packets_ok_def anomalies_ok_def anomalies_rows_def)

lemma tables_ok_rollback: "tables_ok E hist d \<Longrightarrow> tables_ok E hist (rollback b d)"
  using tables_ok_seq [of E hist d "t_packet_observations_seq d + int (fst b)" "t_anomalies_seq d + int (snd b)"]
  by (simp add: rollback_def)

lemma tables_ok_state [simp]: "tables_ok E hist (d\<lparr>t_projector_state := x\<rparr>) = tables_ok E hist d"
  by (simp add: tables_ok_def)

lemma tables_ok_reset: "tables_ok E [] (reset_db name d)"
  using empty_tables_ok [of E]
  by (simp add: reset_db_def tables_ok_def packets_ok_def packet_events_def empty_db_def anomalies_ok_def anomalies_rows_def)

lemma reset_cursor:
  "map_of (t_projector_state (reset_db name d)) name = map_option (\<lambda>_. 0) (map_of (t_projector_state d) name)"
proof -
  have "map_of (map (\<lambda>(n, i). (n, if n = name then 0 else i)) xs) name = map_option (\<lambda>_. 0) (map_of xs name)"
    for xs :: "(string \<times> int) list" by (induction xs) auto
  then show ?thesis by (simp add: reset_db_def)
qed

end
