(* ===== verification/Go_JSON.thy ===== *)
theory Go_JSON
  imports Go_Strings
begin

text \<open>
  The decoding half of \<^verbatim>\<open>encoding/json\<close> and \<^verbatim>\<open>strconv.ParseFloat\<close>, as far as the program uses
  them: a document is checked and parsed into a tree in which every value keeps its text, for the
  types that decode the text themselves, and object members are matched with struct fields by
  folded name.
\<close>

section \<open>Numbers\<close>

text \<open>
  A digit string that may contain underscores between digits, its value and its length; the
  mantissa and exponent of a decimal literal.
\<close>

fun take_digits :: "string \<Rightarrow> string \<times> string" where
  "take_digits [] = ([], [])"
| "take_digits (c # s) = (if digit_val c = None then ([], c # s)
     else (let (ds, rest) = take_digits s in (c # ds, rest)))"

text \<open>Underscores stand between digits, of which \<open>hex\<close> admits the hexadecimal ones.\<close>

definition is_digit :: "bool \<Rightarrow> char \<Rightarrow> bool" where
  "is_digit hex c \<longleftrightarrow> (if hex then hex_val c \<noteq> None else digit_val c \<noteq> None)"

fun underscores_ok :: "bool \<Rightarrow> bool \<Rightarrow> string \<Rightarrow> bool" where
  "underscores_ok hex prev [] = True"
| "underscores_ok hex prev (c # s) =
     (if c = CHR ''_'' then prev \<and> (case s of [] \<Rightarrow> False | d # _ \<Rightarrow> is_digit hex d) \<and> underscores_ok hex False s
      else underscores_ok hex (is_digit hex c) s)"

definition nat_of_digits :: "string \<Rightarrow> nat" where
  "nat_of_digits ds = (case digits_val 0 ds of None \<Rightarrow> 0 | Some n \<Rightarrow> n)"

text \<open>The exponent part; its value stops growing at ten thousand.\<close>

definition parse_exponent :: "string \<Rightarrow> int option" where
  "parse_exponent s =
     (let neg = (s \<noteq> [] \<and> hd s = CHR ''-''); body = (if s \<noteq> [] \<and> (hd s = CHR ''-'' \<or> hd s = CHR ''+'') then tl s else s);
          (ds, rest) = take_digits body
      in if ds = [] \<or> rest \<noteq> [] then None
         else let e = int (min 100000 (nat_of_digits ds)) in Some (if neg then - e else e))"

definition decimal_value :: "string \<Rightarrow> rat option" where
  "decimal_value s =
     (let (whole, s1) = take_digits s;
          (frac, s2) = (case s1 of c # s' \<Rightarrow> if c = CHR ''.'' then take_digits s' else ([], s1) | [] \<Rightarrow> ([], s1));
          ex = (case s2 of [] \<Rightarrow> Some 0
                | c # s' \<Rightarrow> if c = CHR ''e'' \<or> c = CHR ''E'' then parse_exponent s' else None);
          m = nat_of_digits (whole @ frac)
      in if whole @ frac = [] then None
         else map_option (\<lambda>e. if m = 0 then 0
           else of_nat m * (let k = e - int (length frac) in
                              if 0 \<le> k then 10 ^ nat k else 1 / 10 ^ nat (- k))) ex)"

definition lower :: "char \<Rightarrow> char" where
  "lower c = (if 65 \<le> ord_of c \<and> ord_of c \<le> 90 then chr_of (ord_of c + 32) else c)"

text \<open>A hexadecimal literal after its prefix: digits, and a binary exponent that it must have.\<close>

fun take_hex :: "string \<Rightarrow> nat \<Rightarrow> nat \<Rightarrow> nat \<times> nat \<times> string" where
  "take_hex [] n acc = (n, acc, [])"
| "take_hex (c # s) n acc = (case hex_val c of None \<Rightarrow> (n, acc, c # s) | Some x \<Rightarrow> take_hex s (n + 1) (16 * acc + x))"

definition hex_float_value :: "string \<Rightarrow> rat option" where
  "hex_float_value s =
     (let (nw, m1, s1) = take_hex s 0 0;
          (nf, m, s2) = (case s1 of c # s' \<Rightarrow> if c = CHR ''.'' then take_hex s' 0 m1 else (0, m1, s1) | [] \<Rightarrow> (0, m1, s1));
          ex = (case s2 of c # s' \<Rightarrow> if c = CHR ''p'' \<or> c = CHR ''P'' then parse_exponent s' else None | [] \<Rightarrow> None)
      in if nw + nf = 0 then None
         else map_option (\<lambda>e. if m = 0 then 0
           else of_nat m * (let k = e - 4 * int nf in if 0 \<le> k then 2 ^ nat k else 1 / 2 ^ nat (- k))) ex)"

text \<open>
  \<^verbatim>\<open>strconv.ParseFloat(s, 64)\<close>; \<open>None\<close> stands for either error, syntax or range.
\<close>

definition ParseFloat :: "string \<Rightarrow> f64 option" where
  "ParseFloat s =
     (let neg = (s \<noteq> [] \<and> hd s = CHR ''-''); signed = (s \<noteq> [] \<and> (hd s = CHR ''-'' \<or> hd s = CHR ''+''));
          body = (if signed then tl s else s); word = map lower body;
          hex = (2 < length body \<and> has_prefix word ''0x'');
          digits = (if hex then drop 2 body else body);
          proper = filter (\<lambda>c. c \<noteq> CHR ''_'') digits
      in if word = ''inf'' \<or> word = ''infinity'' then Some (if neg then NInf else PInf)
         else if word = ''nan'' \<and> \<not> signed then Some NaN
         else if \<not> underscores_ok hex hex digits then None
         else case (if hex then hex_float_value proper else decimal_value proper) of
           None \<Rightarrow> None
         | Some x \<Rightarrow> (case rnd (if neg then - x else x) of Fin y \<Rightarrow> Some (Fin y) | _ \<Rightarrow> None))"

section \<open>Documents\<close>

datatype json = JNull | JBool bool | JNum string | JStr string | JArr "json list"
  | JObj "(string \<times> string \<times> json) list"

definition skip_ws :: "string \<Rightarrow> string" where
  "skip_ws s = dropWhile (\<lambda>c. c \<in> {CHR 0x20, CHR 0x09, CHR 0x0A, CHR 0x0D}) s"

text \<open>A number literal at the head of the text: its length, or none.\<close>

definition scan_fraction :: "string \<Rightarrow> string \<times> bool" where
  "scan_fraction s = (case s of [] \<Rightarrow> (s, True)
     | c # s' \<Rightarrow> if c = CHR ''.'' then (let (ds, r) = take_digits s' in (r, ds \<noteq> [])) else (s, True))"

definition scan_exponent :: "string \<Rightarrow> string \<times> bool" where
  "scan_exponent s = (case s of [] \<Rightarrow> (s, True)
     | c # s' \<Rightarrow> if c = CHR ''e'' \<or> c = CHR ''E''
         then (let b = (if s' \<noteq> [] \<and> (hd s' = CHR ''+'' \<or> hd s' = CHR ''-'') then tl s' else s');
                   (ds, r) = take_digits b in (r, ds \<noteq> [])) else (s, True))"

definition scan_number :: "string \<Rightarrow> nat option" where
  "scan_number s =
     (let s0 = (case s of c # s' \<Rightarrow> if c = CHR ''-'' then s' else s | [] \<Rightarrow> s);
          (whole, s1) = take_digits s0; (s2, frac_ok) = scan_fraction s1; (s3, exp_ok) = scan_exponent s2
      in if whole = [] \<or> (hd whole = CHR ''0'' \<and> length whole \<noteq> 1) \<or> \<not> frac_ok \<or> \<not> exp_ok then None
         else Some (length s - length s3))"

text \<open>
  A string literal after its opening quote: the text up to the closing quote, still escaped, and
  the rest. Control characters and unknown escapes are errors.
\<close>

fun hex4 :: "string \<Rightarrow> nat option" where
  "hex4 (a # b # c # d # s) = (case (hex_val a, hex_val b, hex_val c, hex_val d) of
     (Some w, Some x, Some y, Some z) \<Rightarrow> Some (4096 * w + 256 * x + 16 * y + z) | _ \<Rightarrow> None)"
| "hex4 _ = None"

fun scan_string :: "string \<Rightarrow> (string \<times> string) option" where
  "scan_string [] = None"
| "scan_string (c # s) =
     (if c = CHR 0x22 then Some ([], s)
      else if ord_of c < 32 then None
      else if c = CHR 0x5C then
        (case s of
           [] \<Rightarrow> None
         | e # s' \<Rightarrow>
             if e \<in> set ([CHR 0x22, CHR 0x5C, CHR ''/''] @ ''bfnrt'')
             then map_option (\<lambda>(b, r). (c # e # b, r)) (scan_string s')
             else if e = CHR ''u'' \<and> hex4 s' \<noteq> None
             then map_option (\<lambda>(b, r). (c # e # b, r)) (scan_string s')
             else None)
      else map_option (\<lambda>(b, r). (c # b, r)) (scan_string s))"

text \<open>\<^verbatim>\<open>utf8.AppendRune\<close>, and the unescaping of a literal.\<close>

definition encode_rune :: "nat \<Rightarrow> string" where
  "encode_rune r = bytes_str
     (if r < 128 then [r]
      else if r < 2048 then [192 + r div 64, 128 + r mod 64]
      else if (55296 \<le> r \<and> r < 57344) \<or> 1114111 < r then [239, 191, 189]
      else if r < 65536 then [224 + r div 4096, 128 + r div 64 mod 64, 128 + r mod 64]
      else [240 + r div 262144, 128 + r div 4096 mod 64, 128 + r div 64 mod 64, 128 + r mod 64])"

definition escaped_char :: "char \<Rightarrow> char" where
  "escaped_char e =
     (if e = CHR ''b'' then CHR 0x08 else if e = CHR ''f'' then CHR 0x0C else if e = CHR ''n'' then CHR 0x0A
      else if e = CHR ''r'' then CHR 0x0D else if e = CHR ''t'' then CHR 0x09 else e)"

definition low_surrogate :: "string \<Rightarrow> nat option" where
  "low_surrogate s = (case s of
     c # e # s' \<Rightarrow> if c = CHR 0x5C \<and> e = CHR ''u'' then
       (case hex4 s' of None \<Rightarrow> None | Some r \<Rightarrow> if 56320 \<le> r \<and> r < 57344 then Some r else None) else None
   | _ \<Rightarrow> None)"

function unquote :: "string \<Rightarrow> string" where
  "unquote s =
     (case s of
        [] \<Rightarrow> []
      | c # s1 \<Rightarrow>
          if c = CHR 0x5C then
            (case s1 of
               [] \<Rightarrow> []
             | e # s2 \<Rightarrow>
                 if e = CHR ''u'' then
                   (let r = the (hex4 s2); s3 = drop 4 s2 in
                    if 55296 \<le> r \<and> r < 56320 \<and> low_surrogate s3 \<noteq> None
                    then encode_rune (65536 + (r - 55296) * 1024 + (the (low_surrogate s3) - 56320)) @ unquote (drop 6 s3)
                    else encode_rune r @ unquote s3)
                 else escaped_char e # unquote s2)
          else if ord_of c < 128 then c # unquote s1
          else if utf8_width s = 0 then encode_rune 65533 @ unquote s1
          else take (utf8_width s) s @ unquote (drop (utf8_width s) s))"
  by pat_completeness auto
termination by (relation "measure length") auto

declare unquote.simps [simp del]

text \<open>The text that a scan of \<open>s\<close> that stopped at \<open>rest\<close> has consumed.\<close>

definition consumed_text :: "string \<Rightarrow> string \<Rightarrow> string" where
  "consumed_text s rest = take (length s - length rest) s"

definition max_nesting :: nat where "max_nesting = 10000"

text \<open>
  \<^verbatim>\<open>strings.ToLower\<close>, as far as a comparison with ASCII text can tell: beside the capital letters,
  the capital I with a dot and the Kelvin sign have ASCII letters for lower case.
\<close>

function to_lower :: "string \<Rightarrow> string" where
  "to_lower s =
     (if s = [] then []
      else if has_prefix s (bytes_str [196, 176]) then CHR ''i'' # to_lower (drop 2 s)
      else if has_prefix s (bytes_str [226, 132, 170]) then CHR ''k'' # to_lower (drop 3 s)
      else lower (hd s) # to_lower (tl s))"
  by pat_completeness auto
termination by (relation "measure length") (auto simp: has_prefix_def)

declare to_lower.simps [simp del]

text \<open>
  One value at the head of the text, members or elements after it; \<open>d\<close> is the nesting depth and
  \<open>f\<close> the fuel, which every character of the document pays for.
\<close>

fun parse_value :: "nat \<Rightarrow> nat \<Rightarrow> string \<Rightarrow> (json \<times> string) option"
and parse_members :: "nat \<Rightarrow> nat \<Rightarrow> string \<Rightarrow> ((string \<times> string \<times> json) list \<times> string) option"
and parse_elements :: "nat \<Rightarrow> nat \<Rightarrow> string \<Rightarrow> (json list \<times> string) option"
where
  "parse_value 0 d s = None"
| "parse_value (Suc f) d s =
     (case s of
        [] \<Rightarrow> None
      | c # s1 \<Rightarrow>
          if c = CHR 0x22 then map_option (\<lambda>(b, r). (JStr (unquote b), r)) (scan_string s1)
          else if c = CHR ''{'' then
            (if d \<ge> max_nesting then None
             else let s2 = skip_ws s1 in
               if s2 \<noteq> [] \<and> hd s2 = CHR ''}'' then Some (JObj [], tl s2)
               else map_option (\<lambda>(ms, r). (JObj ms, r)) (parse_members f (Suc d) s2))
          else if c = CHR ''['' then
            (if d \<ge> max_nesting then None
             else let s2 = skip_ws s1 in
               if s2 \<noteq> [] \<and> hd s2 = CHR '']'' then Some (JArr [], tl s2)
               else map_option (\<lambda>(xs, r). (JArr xs, r)) (parse_elements f (Suc d) s2))
          else if has_prefix s ''true'' then Some (JBool True, drop 4 s)
          else if has_prefix s ''false'' then Some (JBool False, drop 5 s)
          else if has_prefix s ''null'' then Some (JNull, drop 4 s)
          else map_option (\<lambda>n. (JNum (take n s), drop n s)) (scan_number s))"
| "parse_members 0 d s = None"
| "parse_members (Suc f) d s =
     (if s = [] \<or> hd s \<noteq> CHR 0x22 then None
      else case scan_string (tl s) of
        None \<Rightarrow> None
      | Some (k, s1) \<Rightarrow>
          (let s2 = skip_ws s1 in
           if s2 = [] \<or> hd s2 \<noteq> CHR '':'' then None
           else let s3 = skip_ws (tl s2) in
             (case parse_value f d s3 of
                None \<Rightarrow> None
              | Some (v, s4) \<Rightarrow>
                  (let m = (unquote k, consumed_text s3 s4, v); s5 = skip_ws s4 in
                   if s5 = [] then None
                   else if hd s5 = CHR ''}'' then Some ([m], tl s5)
                   else if hd s5 = CHR '','' then
                     map_option (\<lambda>(ms, r). (m # ms, r)) (parse_members f d (skip_ws (tl s5)))
                   else None))))"
| "parse_elements 0 d s = None"
| "parse_elements (Suc f) d s =
     (case parse_value f d s of
        None \<Rightarrow> None
      | Some (v, s1) \<Rightarrow>
          (let s2 = skip_ws s1 in
           if s2 = [] then None
           else if hd s2 = CHR '']'' then Some ([v], tl s2)
           else if hd s2 = CHR '','' then
             map_option (\<lambda>(xs, r). (v # xs, r)) (parse_elements f d (skip_ws (tl s2)))
           else None))"

definition parse_document :: "string \<Rightarrow> json option" where
  "parse_document s = (case parse_value (2 * length s + 2) 0 (skip_ws s) of
     None \<Rightarrow> None | Some (v, r) \<Rightarrow> if skip_ws r = [] then Some v else None)"

section \<open>Struct fields\<close>

text \<open>
  The folding of a member name for a comparison with field names, which are ASCII: letters in
  upper case, and the long s and the Kelvin sign as the letters they fold to.
\<close>

function fold_name :: "string \<Rightarrow> string" where
  "fold_name s =
     (if s = [] then []
      else if has_prefix s (bytes_str [197, 191]) then CHR ''S'' # fold_name (drop 2 s)
      else if has_prefix s (bytes_str [226, 132, 170]) then CHR ''K'' # fold_name (drop 3 s)
      else (if 97 \<le> ord_of (hd s) \<and> ord_of (hd s) \<le> 122 then chr_of (ord_of (hd s) - 32) else hd s) # fold_name (tl s))"
  by pat_completeness auto
termination by (relation "measure length") (auto simp: has_prefix_def)

declare fold_name.simps [simp del]

definition field_matches :: "string \<Rightarrow> string \<Rightarrow> bool" where
  "field_matches field name \<longleftrightarrow> name = field \<or> fold_name name = fold_name field"

text \<open>
  The members of an object, in order, through the setter of a struct: the setter is given the
  name, the text and the value, and fails where \<^verbatim>\<open>json.Unmarshal\<close> reports an error.
\<close>

fun set_members :: "(string \<Rightarrow> string \<Rightarrow> json \<Rightarrow> 'm \<Rightarrow> 'm option) \<Rightarrow> (string \<times> string \<times> json) list \<Rightarrow> 'm \<Rightarrow> 'm option" where
  "set_members set_member [] m = Some m"
| "set_members set_member ((k, txt, v) # ms) m = Option.bind (set_member k txt v m) (set_members set_member ms)"

text \<open>A \<^verbatim>\<open>string\<close> field.\<close>

definition set_text :: "json \<Rightarrow> string \<Rightarrow> string option" where
  "set_text v old = (case v of JNull \<Rightarrow> Some old | JStr s \<Rightarrow> Some s | _ \<Rightarrow> None)"

text \<open>A \<^verbatim>\<open>*float64\<close> field.\<close>

definition set_float :: "json \<Rightarrow> f64 option option" where
  "set_float v = (case v of JNull \<Rightarrow> Some None | JNum s \<Rightarrow> map_option Some (ParseFloat s) | _ \<Rightarrow> None)"

section \<open>Lemmas\<close>

text \<open>Every call consumes text, so the fuel of \<open>parse_document\<close> is enough.\<close>

lemma length_skip_ws: "length (skip_ws s) \<le> length s"
  by (simp add: skip_ws_def length_dropWhile_le)

lemma scan_string_shorter: "scan_string s = Some (b, r) \<Longrightarrow> length r < length s"
proof (induction s arbitrary: b r rule: scan_string.induct)
  case (2 c s)
  then show ?case by (force split: if_splits list.splits)
qed simp

lemma take_digits_length: "take_digits s = (ds, r) \<Longrightarrow> length s = length ds + length r"
  by (induction s arbitrary: ds r) (auto split: if_splits prod.splits)

lemma scan_fraction_length: "scan_fraction s = (r, ok) \<Longrightarrow> length r \<le> length s"
  by (cases s) (auto simp: scan_fraction_def dest!: take_digits_length split: if_splits prod.splits)

lemma scan_exponent_length: "scan_exponent s = (r, ok) \<Longrightarrow> length r \<le> length s"
  by (cases s) (auto simp: scan_exponent_def Let_def dest!: take_digits_length split: if_splits prod.splits)

lemma scan_number_pos:
  assumes "scan_number s = Some n" shows "0 < n \<and> n \<le> length s"
proof -
  let ?s0 = "case s of c # s' \<Rightarrow> if c = CHR ''-'' then s' else s | [] \<Rightarrow> s"
  obtain w s1 where 1: "take_digits ?s0 = (w, s1)" by fastforce
  obtain s2 f where 2: "scan_fraction s1 = (s2, f)" by fastforce
  obtain s3 x where 3: "scan_exponent s2 = (s3, x)" by fastforce
  have n: "w \<noteq> []" "n = length s - length s3"
    using assms unfolding scan_number_def by (simp_all only: Let_def 1 2 3 prod.case split: if_splits) auto
  have "length ?s0 \<le> length s" by (cases s) auto
  with n take_digits_length [OF 1] scan_fraction_length [OF 2] scan_exponent_length [OF 3] show ?thesis
    by (cases w) auto
qed

lemma parse_value_shorter_step:
  assumes m: "\<And>d s ms r. parse_members f d s = Some (ms, r) \<Longrightarrow> length r < length s"
    and e: "\<And>d s xs r. parse_elements f d s = Some (xs, r) \<Longrightarrow> length r < length s"
    and p: "parse_value (Suc f) d s = Some (v, r)"
  shows "length r < length s"
proof (cases s)
  case (Cons c s1)
  have ws: "length (skip_ws s1) \<le> length s1" by (rule length_skip_ws)
  have obj: "length r < Suc (length s1)" if "parse_members f (Suc d) (skip_ws s1) = Some (ms, r)" for ms
    using m [OF that] ws by simp
  have arr: "length r < Suc (length s1)" if "parse_elements f (Suc d) (skip_ws s1) = Some (xs, r)" for xs
    using e [OF that] ws by simp
  have str: "length r < Suc (length s1)" if "scan_string s1 = Some (b, r)" for b
    using scan_string_shorter [OF that] by simp
  have tl: "length (tl (skip_ws s1)) < Suc (length s1)" using ws by (cases "skip_ws s1") auto
  show ?thesis
    using p Cons obj arr str tl scan_number_pos [of s]
    by (auto simp: Let_def split: if_splits)
qed (use p in simp)

lemma parse_members_shorter_step:
  assumes v: "\<And>d s v r. parse_value f d s = Some (v, r) \<Longrightarrow> length r < length s"
    and m: "\<And>d s ms r. parse_members f d s = Some (ms, r) \<Longrightarrow> length r < length s"
    and p: "parse_members (Suc f) d s = Some (ms, r)"
  shows "length r < length s"
proof -
  have "s \<noteq> []" using p by (auto split: if_splits)
  obtain k s1 where s1: "scan_string (tl s) = Some (k, s1)" using p by (auto split: if_splits option.splits)
  obtain w s4 where s4: "parse_value f d (skip_ws (tl (skip_ws s1))) = Some (w, s4)"
    using p s1 by (auto simp: Let_def split: if_splits option.splits)
  have "length s4 < length s"
    using v [OF s4] length_skip_ws [of s1] length_skip_ws [of "tl (skip_ws s1)"] scan_string_shorter [OF s1] \<open>s \<noteq> []\<close>
    by (cases s) auto
  moreover have "length r \<le> length s4"
    using p s1 s4 m [of d "skip_ws (tl (skip_ws s4))" _ r] length_skip_ws [of s4] length_skip_ws [of "tl (skip_ws s4)"]
    by (fastforce simp: Let_def split: if_splits)
  ultimately show ?thesis by simp
qed

lemma parse_elements_shorter_step:
  assumes v: "\<And>d s v r. parse_value f d s = Some (v, r) \<Longrightarrow> length r < length s"
    and e: "\<And>d s xs r. parse_elements f d s = Some (xs, r) \<Longrightarrow> length r < length s"
    and p: "parse_elements (Suc f) d s = Some (xs, r)"
  shows "length r < length s"
proof -
  obtain w s1 where s1: "parse_value f d s = Some (w, s1)" using p by (auto split: option.splits)
  have "length r \<le> length s1"
    using p s1 e [of d "skip_ws (tl (skip_ws s1))" _ r] length_skip_ws [of s1] length_skip_ws [of "tl (skip_ws s1)"]
    by (fastforce simp: Let_def split: if_splits)
  with v [OF s1] show ?thesis by simp
qed

lemma parse_shorter:
  "parse_value f d s = Some (v, r) \<Longrightarrow> length r < length s"
  "parse_members f d s = Some (ms, r) \<Longrightarrow> length r < length s"
  "parse_elements f d s = Some (xs, r) \<Longrightarrow> length r < length s"
proof (induction f arbitrary: d s v r ms xs)
  case 0
  { case 1 then show ?case by simp next case 2 then show ?case by simp next case 3 then show ?case by simp }
next
  case (Suc f)
  { case 1 show ?case by (rule parse_value_shorter_step [OF Suc.IH(2,3) 1])
  next case 2 show ?case by (rule parse_members_shorter_step [OF Suc.IH(1,2) 2])
  next case 3 show ?case by (rule parse_elements_shorter_step [OF Suc.IH(1,3) 3]) }
qed

text \<open>More fuel than the text needs changes nothing.\<close>

lemma parse_value_fuel_step:
  assumes m: "\<And>d s. 2 * length s + 2 \<le> f \<Longrightarrow> parse_members g d s = parse_members f d s"
    and e: "\<And>d s. 2 * length s + 2 \<le> f \<Longrightarrow> parse_elements g d s = parse_elements f d s"
    and "2 * length s \<le> f"
  shows "parse_value (Suc g) d s = parse_value (Suc f) d s"
proof (cases s)
  case (Cons c s1)
  have "2 * length (skip_ws s1) + 2 \<le> f" using length_skip_ws [of s1] assms(3) Cons by simp
  note me = m [OF this] e [OF this]
  show ?thesis unfolding Cons parse_value.simps(2) Let_def list.case me by (rule refl)
qed simp

lemma parse_members_fuel_step:
  assumes v: "\<And>d s. 2 * length s + 1 \<le> f \<Longrightarrow> parse_value g d s = parse_value f d s"
    and m: "\<And>d s. 2 * length s + 2 \<le> f \<Longrightarrow> parse_members g d s = parse_members f d s"
    and "2 * length s + 1 \<le> f"
  shows "parse_members (Suc g) d s = parse_members (Suc f) d s"
proof (cases "s = [] \<or> hd s \<noteq> CHR 0x22 \<or> scan_string (tl s) = None")
  case False
  then obtain k s1 where s1: "scan_string (tl s) = Some (k, s1)" by (cases "scan_string (tl s)") auto
  let ?s3 = "skip_ws (tl (skip_ws s1))"
  have l3: "length ?s3 + 1 < length s"
    using False scan_string_shorter [OF s1] length_skip_ws [of s1] length_skip_ws [of "tl (skip_ws s1)"]
    by (cases s; cases "skip_ws s1") (auto simp: skip_ws_def)
  then have v3: "parse_value g d ?s3 = parse_value f d ?s3" using v assms(3) by simp
  have m5: "parse_members g d (skip_ws (tl (skip_ws s4))) = parse_members f d (skip_ws (tl (skip_ws s4)))"
    if "parse_value f d ?s3 = Some (w, s4)" for w s4
  proof (rule m)
    show "2 * length (skip_ws (tl (skip_ws s4))) + 2 \<le> f"
      using parse_shorter(1) [OF that] l3 length_skip_ws [of s4] length_skip_ws [of "tl (skip_ws s4)"] assms(3) by simp
  qed
  show ?thesis using False s1 v3 m5 by (auto simp: Let_def split: option.splits)
qed auto

lemma parse_elements_fuel_step:
  assumes v: "\<And>d s. 2 * length s + 1 \<le> f \<Longrightarrow> parse_value g d s = parse_value f d s"
    and e: "\<And>d s. 2 * length s + 2 \<le> f \<Longrightarrow> parse_elements g d s = parse_elements f d s"
    and "2 * length s + 1 \<le> f"
  shows "parse_elements (Suc g) d s = parse_elements (Suc f) d s"
proof -
  have v3: "parse_value g d s = parse_value f d s" using v assms(3) by simp
  have e5: "parse_elements g d (skip_ws (tl (skip_ws s4))) = parse_elements f d (skip_ws (tl (skip_ws s4)))"
    if "parse_value f d s = Some (w, s4)" for w s4
  proof (rule e)
    show "2 * length (skip_ws (tl (skip_ws s4))) + 2 \<le> f"
      using parse_shorter(1) [OF that] length_skip_ws [of s4] length_skip_ws [of "tl (skip_ws s4)"] assms(3) by simp
  qed
  show ?thesis using v3 e5 by (auto simp: Let_def split: option.splits)
qed

lemma parse_fuel:
  "2 * length s + 1 \<le> f \<Longrightarrow> f \<le> g \<Longrightarrow> parse_value g d s = parse_value f d s"
  "2 * length s + 2 \<le> f \<Longrightarrow> f \<le> g \<Longrightarrow> parse_members g d s = parse_members f d s"
  "2 * length s + 2 \<le> f \<Longrightarrow> f \<le> g \<Longrightarrow> parse_elements g d s = parse_elements f d s"
proof (induction f arbitrary: d s g)
  case (Suc f)
  note IH = Suc.IH
  { case 1 then obtain g' where g: "g = Suc g'" "f \<le> g'" by (cases g) auto
    have "2 * length s \<le> f" using 1(1) by simp
    with IH(2,3) [OF _ g(2)] show ?case unfolding g(1) by (rule parse_value_fuel_step)
  next case 2 then obtain g' where g: "g = Suc g'" "f \<le> g'" by (cases g) auto
    have "2 * length s + 1 \<le> f" using 2(1) by simp
    with IH(1,2) [OF _ g(2)] show ?case unfolding g(1) by (rule parse_members_fuel_step)
  next case 3 then obtain g' where g: "g = Suc g'" "f \<le> g'" by (cases g) auto
    have "2 * length s + 1 \<le> f" using 3(1) by simp
    with IH(1,3) [OF _ g(2)] show ?case unfolding g(1) by (rule parse_elements_fuel_step) }
qed auto

lemma parse_document_fuel:
  assumes "2 * length s + 2 \<le> f"
  shows "parse_document s =
     (case parse_value f 0 (skip_ws s) of None \<Rightarrow> None | Some (v, r) \<Rightarrow> if skip_ws r = [] then Some v else None)"
proof -
  have "2 * length (skip_ws s) + 1 \<le> 2 * length s + 2" using length_skip_ws [of s] by linarith
  from parse_fuel(1) [OF this assms] show ?thesis unfolding parse_document_def by (rule arg_cong [OF sym])
qed

text \<open>Unescaped text is valid UTF-8, whatever the document holds.\<close>

lemma utf8_valid_one: "utf8_width s = length s \<Longrightarrow> s \<noteq> [] \<Longrightarrow> utf8_valid s"
  using utf8_valid_rune [of s] by simp

lemma three_bytes:
  assumes "x < 16" "y < 64" "z < 64" "x = 0 \<Longrightarrow> 32 \<le> y" "x = 13 \<Longrightarrow> y < 32"
  shows "utf8_valid (bytes_str [224 + x, 128 + y, 128 + z])"
proof (rule utf8_valid_one)
  have "rune_len (224 + x) = 3" using assms(1) by (simp add: rune_len_def)
  moreover have "second_byte_ok (224 + x) (128 + y)" using assms by (auto simp: second_byte_ok_def)
  ultimately show "utf8_width (bytes_str [224 + x, 128 + y, 128 + z]) = length (bytes_str [224 + x, 128 + y, 128 + z])"
    using assms(1-3) by (simp add: bytes_str_def utf8_width.simps cont_byte_def)
qed (simp add: bytes_str_def)

lemma four_bytes:
  assumes "x < 5" "y < 64" "z < 64" "w < 64" "x = 0 \<Longrightarrow> 16 \<le> y" "x = 4 \<Longrightarrow> y < 16"
  shows "utf8_valid (bytes_str [240 + x, 128 + y, 128 + z, 128 + w])"
proof (rule utf8_valid_one)
  have "rune_len (240 + x) = 4" using assms(1) by (simp add: rune_len_def)
  moreover have "second_byte_ok (240 + x) (128 + y)" using assms by (auto simp: second_byte_ok_def)
  ultimately show "utf8_width (bytes_str [240 + x, 128 + y, 128 + z, 128 + w]) = length (bytes_str [240 + x, 128 + y, 128 + z, 128 + w])"
    using assms(1-4) by (simp add: bytes_str_def utf8_width.simps cont_byte_def)
qed (simp add: bytes_str_def)

lemma mod_64_eq: "(m::nat) div 64 = k \<Longrightarrow> m mod 64 = m - 64 * k"
  using minus_mult_div_eq_mod [of m 64] by simp

lemma encode_rune_valid: "utf8_valid (encode_rune r)"
proof -
  consider "r < 128" | "128 \<le> r" "r < 2048" | "(55296 \<le> r \<and> r < 57344) \<or> 1114111 < r"
    | "2048 \<le> r" "r < 55296 \<or> 57344 \<le> r" "r < 65536" | "65536 \<le> r" "r \<le> 1114111"
    by linarith
  then show ?thesis
  proof cases
    case 1
    then show ?thesis by (intro utf8_valid_ascii) (simp add: encode_rune_def bytes_str_def)
  next
    case 2
    then have "2 \<le> r div 64" "r div 64 < 32" by (simp_all add: div_less_iff_less_mult)
    with 2 show ?thesis
      by (intro utf8_valid_one) (simp_all add: encode_rune_def bytes_str_def utf8_width.simps rune_len_def cont_byte_def second_byte_ok_def)
  next
    case 3
    then have "encode_rune r = bytes_str [239, 191, 189]" by (auto simp: encode_rune_def)
    then show ?thesis
      by (intro utf8_valid_one) (simp_all add: bytes_str_def utf8_width.simps rune_len_def cont_byte_def second_byte_ok_def)
  next
    case 4
    then have a: "r div 4096 < 16" by (simp add: div_less_iff_less_mult)
    have q: "r div 4096 = r div 64 div 64" using div_mult2_eq [of r 64 64] by simp
    have b: "32 \<le> r div 64 mod 64" if "r div 4096 = 0"
    proof -
      have "32 \<le> r div 64" using 4(1) by (simp add: less_eq_div_iff_mult_less_eq)
      with that show ?thesis unfolding q by (simp add: mod_64_eq [of _ 0])
    qed
    have c: "r div 64 mod 64 < 32" if "r div 4096 = 13"
    proof -
      have "r < 55296" using that 4(2) div_le_mono [of 57344 r 4096] by auto
      then have "r div 64 < 864" by (simp add: div_less_iff_less_mult)
      with that show ?thesis unfolding q by (simp add: mod_64_eq [of _ 13])
    qed
    have "utf8_valid (bytes_str [224 + r div 4096, 128 + r div 64 mod 64, 128 + r mod 64])"
      by (rule three_bytes [OF a _ _ b c]) simp_all
    with 4 show ?thesis by (auto simp: encode_rune_def)
  next
    case 5
    then have a: "r div 262144 < 5" by (simp add: div_less_iff_less_mult)
    have q: "r div 262144 = r div 4096 div 64" using div_mult2_eq [of r 4096 64] by simp
    have lo: "16 \<le> r div 4096" using 5(1) by (simp add: less_eq_div_iff_mult_less_eq)
    have hi: "r div 4096 < 272" using 5(2) by (simp add: div_less_iff_less_mult)
    have b: "16 \<le> r div 4096 mod 64" if "r div 262144 = 0" using that lo unfolding q by (simp add: mod_64_eq [of _ 0])
    have c: "r div 4096 mod 64 < 16" if "r div 262144 = 4" using that hi unfolding q by (simp add: mod_64_eq [of _ 4])
    have "utf8_valid (bytes_str [240 + r div 262144, 128 + r div 4096 mod 64, 128 + r div 64 mod 64, 128 + r mod 64])"
      by (rule four_bytes [OF a _ _ _ b c]) simp_all
    with 5 show ?thesis by (auto simp: encode_rune_def)
  qed
qed

fun escapes_ok :: "string \<Rightarrow> bool" where
  "escapes_ok [] = True"
| "escapes_ok (c # s) = (if c = CHR 0x5C
     then (case s of [] \<Rightarrow> False | e # s' \<Rightarrow> ord_of e < (128::nat) \<and> (e = CHR ''u'' \<longrightarrow> hex4 s' \<noteq> None) \<and> escapes_ok s')
     else escapes_ok s)"

lemma hex4_prefix:
  assumes "hex4 s \<noteq> None" "scan_string s = Some (b, r)" shows "hex4 b \<noteq> None"
proof -
  obtain w x y z t where s: "s = w # x # y # z # t" and h: "hex_val w \<noteq> None" "hex_val x \<noteq> None" "hex_val y \<noteq> None" "hex_val z \<noteq> None"
    using assms(1) by (cases s rule: hex4.cases) (auto split: option.splits)
  have plain: "c \<noteq> CHR 0x22 \<and> c \<noteq> CHR 0x5C \<and> \<not> ord_of c < (32::nat)" if "hex_val c \<noteq> None" for c
    using that by (auto simp: hex_val_def Let_def split: if_splits)
  show ?thesis using assms(2) h plain [OF h(1)] plain [OF h(2)] plain [OF h(3)] plain [OF h(4)]
    by (auto simp: s)
qed

lemma scan_string_escapes: "scan_string s = Some (b, r) \<Longrightarrow> escapes_ok b"
proof (induction s arbitrary: b r rule: scan_string.induct)
  case (2 c s)
  consider "c = CHR 0x22" | "c \<noteq> CHR 0x22" "c = CHR 0x5C" | "c \<noteq> CHR 0x22" "c \<noteq> CHR 0x5C" by blast
  then show ?case
  proof cases
    case 2
    then obtain e s' where s: "s = e # s'" using "2.prems" by (cases s) auto
    then show ?thesis
      using "2.IH"(1,2) [OF \<open>c \<noteq> CHR 0x22\<close> _ \<open>c = CHR 0x5C\<close> s] "2.prems" 2 hex4_prefix [of s']
      by (auto split: if_splits)
  qed (use 2 in \<open>auto split: if_splits\<close>)
qed simp

lemma escapes_ok_drop: "(\<forall>c \<in> set p. c \<noteq> CHR 0x5C) \<Longrightarrow> escapes_ok (p @ s) = escapes_ok s"
  by (induction p) auto

lemma escapes_ok_hex: assumes "hex4 s \<noteq> None" "escapes_ok s" shows "escapes_ok (drop 4 s)"
proof -
  obtain w x y z t where s: "s = w # x # y # z # t" and h: "hex_val w \<noteq> None" "hex_val x \<noteq> None" "hex_val y \<noteq> None" "hex_val z \<noteq> None"
    using assms(1) by (cases s rule: hex4.cases) (auto split: option.splits)
  have "c \<noteq> CHR 0x5C" if "hex_val c \<noteq> None" for c using that by (auto simp: hex_val_def)
  then have "\<forall>c \<in> set [w, x, y, z]. c \<noteq> CHR 0x5C" using h by auto
  from escapes_ok_drop [OF this, of t] assms(2) show ?thesis by (simp add: s del: escapes_ok.simps)
qed

lemma escapes_ok_surrogate:
  assumes "escapes_ok s" "low_surrogate s \<noteq> None" shows "escapes_ok (drop 6 s)"
proof -
  obtain u where s: "s = CHR 0x5C # CHR ''u'' # u"
    using assms(2) by (auto simp: low_surrogate_def split: list.splits if_splits)
  have "hex4 u \<noteq> None" "escapes_ok u" using assms(1) by (auto simp: s)
  from escapes_ok_hex [OF this] show ?thesis by (simp add: s)
qed

lemma escaped_char_ascii: "ord_of c < (128::nat) \<Longrightarrow> ord_of (escaped_char c) < (128::nat)"
  by (simp add: escaped_char_def)

lemma utf8_valid_Cons: "ord_of c < (128::nat) \<Longrightarrow> utf8_valid s \<Longrightarrow> utf8_valid (c # s)"
  using utf8_valid_append [of "[c]" s] utf8_valid_ascii [of "[c]"] by simp

lemma rune_bytes:
  assumes "utf8_width s \<noteq> 0" "128 \<le> ord_of (hd s)"
  shows "\<forall>c \<in> set (take (utf8_width s) s). 128 \<le> ord_of c"
proof (cases s)
  case (Cons a u)
  define m where "m = utf8_width s - 1"
  have "list_all cont_byte (take m u)"
    using assms(1) Cons unfolding m_def
    by (cases "rune_len (ord_of a) \<le> 1") (auto simp: utf8_width.simps Let_def le_Suc_eq split: if_splits)
  moreover have "utf8_width s = Suc m" using assms(1) m_def by simp
  ultimately show ?thesis using assms(2) Cons by (auto simp: list_all_iff cont_byte_def)
qed (use assms in simp)

lemma unquote_valid: "escapes_ok s \<Longrightarrow> utf8_valid (unquote s)"
proof (induction s rule: unquote.induct)
  case (1 s)
  show ?case
  proof (cases s)
    case (Cons c s1)
    consider (esc) e s2 where "c = CHR 0x5C" "s1 = e # s2" | (plain) "c \<noteq> CHR 0x5C"
      using 1(7) Cons by (cases s1; cases "c = CHR 0x5C") auto
    then show ?thesis
    proof cases
      case esc
      note ok = 1(7) [unfolded Cons esc escapes_ok.simps, simplified]
      show ?thesis
      proof (cases "e = CHR ''u''")
        case True
        have d: "escapes_ok (drop 4 s2)" using ok True by (intro escapes_ok_hex) auto
        show ?thesis
          using 1(1,2) [OF Cons esc(1,2) True refl refl] d escapes_ok_surrogate [OF d]
          by (subst unquote.simps) (auto simp: Cons esc True Let_def intro!: utf8_valid_append encode_rune_valid)
      next
        case False
        then show ?thesis using 1(3) [OF Cons esc False] ok
          by (subst unquote.simps) (auto simp: Cons esc intro!: utf8_valid_Cons escaped_char_ascii)
      qed
    next
      case plain
      have ok: "escapes_ok s1" using 1(7) Cons plain by simp
      show ?thesis
      proof (cases "ord_of c < (128::nat)")
        case True
        then show ?thesis using 1(4) [OF Cons plain True ok] 
          by (subst unquote.simps) (simp add: Cons plain utf8_valid_Cons)
      next
        case False
        show ?thesis
        proof (cases "utf8_width s = 0")
          case True
          then show ?thesis using 1(5) [OF Cons plain False True ok] False
            by (subst unquote.simps) (auto simp: Cons plain intro!: utf8_valid_append encode_rune_valid)
        next
          case w: False
          have "\<forall>c \<in> set (take (utf8_width s) s). c \<noteq> CHR 0x5C" using rune_bytes [OF w] False Cons by fastforce
          from escapes_ok_drop [OF this, of "drop (utf8_width s) s"] 1(7)
          have "utf8_valid (unquote (drop (utf8_width s) s))" using 1(6) [OF Cons plain False w] by simp
          then have "utf8_valid (take (utf8_width s) s @ unquote (drop (utf8_width s) s))"
            by (rule utf8_valid_append [OF utf8_valid_rune [OF w]])
          moreover have "unquote s = take (utf8_width s) s @ unquote (drop (utf8_width s) s)"
            using Cons plain False w by (subst unquote.simps) simp
          ultimately show ?thesis by simp
        qed
      qed
    qed
  qed (simp add: unquote.simps)
qed

end
