(* ===== verification/Meshcore_Decode.thy ===== *)
theory Meshcore_Decode
  imports Event_Types Go_Strings
begin

text \<open>
  The helpers over the MeshCore wire format (\<^verbatim>\<open>internal/meshcore/decode.go\<close>). The wire parser
  itself is the library \<^verbatim>\<open>meshcore-go\<close>, which is not part of the repository: its two parsing
  functions, with the fields of their results that the code reads, and its constants are the
  record \<open>mc_library\<close>, an argument of the definitions.
\<close>

section \<open>The library\<close>

record mc_Packet =
  mc_PayloadType :: nat
  mc_PayloadVer :: nat
  mc_Payload :: bytes
  mc_PathHashes :: "bytes list"
  mc_IsTransport :: bool
  mc_TransportCode1 :: "16 word"
  mc_TransportCode2 :: "16 word"
  mc_RouteTypeString :: string
  mc_PayloadTypeString :: string

record mc_Advert =
  mc_PublicKey :: bytes
  mc_Timestamp :: "32 word"
  mc_Flags :: "8 word"
  mc_Type :: string
  mc_Name :: string
  mc_Lat :: "32 word"
  mc_Lon :: "32 word"
  mc_Feat1 :: "16 word"
  mc_Feat2 :: "16 word"

record mc_library =
  mc_PacketFromBytes :: "bytes \<Rightarrow> mc_Packet option"
  mc_AdvertFromBytes :: "bytes \<Rightarrow> mc_Advert option"
  PayloadTypeReq :: nat
  PayloadTypeResponse :: nat
  PayloadTypeTxtMsg :: nat
  PayloadTypeAdvert :: nat
  PayloadTypeGrpTxt :: nat
  PayloadTypeGrpData :: nat
  PayloadTypeAnonReq :: nat
  PayloadTypePath :: nat
  AdvertLatLonMask :: "8 word"
  AdvertFeat1Mask :: "8 word"
  AdvertFeat2Mask :: "8 word"

section \<open>Model\<close>

datatype parse_err = ErrShort | ErrDoNotRetransmit | ErrLibrary

definition Parse :: "mc_library \<Rightarrow> bytes \<Rightarrow> parse_err + mc_Packet" where
  "Parse mc raw =
     (case raw of
        [] \<Rightarrow> Inl ErrShort
      | b # _ \<Rightarrow>
          if b = 0xFF then Inl ErrDoNotRetransmit
          else (case mc_PacketFromBytes mc raw of None \<Rightarrow> Inl ErrLibrary | Some pkt \<Rightarrow> Inr pkt))"

definition PayloadDstHash :: "mc_library \<Rightarrow> mc_Packet \<Rightarrow> bytes option" where
  "PayloadDstHash mc pkt =
     (let payload = mc_Payload pkt; t = mc_PayloadType pkt in
      if mc_PayloadVer pkt \<noteq> 0 then None
      else if t \<in> {PayloadTypeReq mc, PayloadTypeResponse mc, PayloadTypeTxtMsg mc, PayloadTypePath mc}
      then (if length payload \<ge> 2 then Some [payload ! 0] else None)
      else if t \<in> {PayloadTypeGrpTxt mc, PayloadTypeGrpData mc, PayloadTypeAnonReq mc}
      then (if length payload \<ge> 1 then Some [payload ! 0] else None)
      else None)"

definition payloadSrcHash :: "mc_library \<Rightarrow> mc_Packet \<Rightarrow> bytes option" where
  "payloadSrcHash mc pkt =
     (let payload = mc_Payload pkt; t = mc_PayloadType pkt in
      if mc_PayloadVer pkt \<noteq> 0 then None
      else if t \<in> {PayloadTypeReq mc, PayloadTypeResponse mc, PayloadTypeTxtMsg mc, PayloadTypePath mc}
      then (if length payload \<ge> 2 then Some [payload ! 1] else None)
      else if t = PayloadTypeAdvert mc
      then (if length payload \<ge> 4 then Some (take 4 payload) else None)
      else None)"

text \<open>The replacement character, in UTF-8.\<close>

definition replacement :: string where
  "replacement = bytes_str [239, 191, 189]"

definition DecodeAdvert :: "mc_library \<Rightarrow> bytes \<Rightarrow> AdvertInfo option" where
  "DecodeAdvert mc payload = map_option (\<lambda>a.
     let latlon = and (mc_Flags a) (AdvertLatLonMask mc) \<noteq> 0;
         feat1 = and (mc_Flags a) (AdvertFeat1Mask mc) \<noteq> 0;
         feat2 = and (mc_Flags a) (AdvertFeat2Mask mc) \<noteq> 0
     in \<lparr>adv_PublicKey = mc_PublicKey a, adv_Timestamp = unix_epoch + uint (mc_Timestamp a) * second,
         adv_NodeType = mc_Type a, adv_Name = strip_nul (ToValidUTF8 (mc_Name a) replacement),
         adv_HasLatLon = latlon, adv_LatE6 = (if latlon then sint (mc_Lat a) else 0),
         adv_LonE6 = (if latlon then sint (mc_Lon a) else 0),
         adv_HasFeat1 = feat1, adv_Feat1 = (if feat1 then uint (mc_Feat1 a) else 0),
         adv_HasFeat2 = feat2, adv_Feat2 = (if feat2 then uint (mc_Feat2 a) else 0)\<rparr>)
     (mc_AdvertFromBytes mc payload)"

text \<open>The last hop of the path, or else the originator in the payload. A copy of an empty slice is nil.\<close>

definition NeighborSource :: "mc_library \<Rightarrow> mc_Packet \<Rightarrow> bytes option" where
  "NeighborSource mc pkt =
     (if mc_PathHashes pkt \<noteq> []
      then (if last (mc_PathHashes pkt) = [] then None else Some (last (mc_PathHashes pkt)))
      else payloadSrcHash mc pkt)"

section \<open>Lemmas\<close>

lemma replacement_valid: "utf8_valid replacement" and replacement_no_nul: "CHR 0x00 \<notin> set replacement"
  by code_simp+

lemma DecodeAdvert_time: "DecodeAdvert mc p = Some a \<Longrightarrow> unix_epoch \<le> adv_Timestamp a"
  by (auto simp: DecodeAdvert_def Let_def second_def)

lemma payloadSrcHash_length: "payloadSrcHash mc pkt = Some h \<Longrightarrow> length h = 1 \<or> length h = 4"
  by (auto simp: payloadSrcHash_def Let_def split: if_splits)

lemma NeighborSource_nonempty: "NeighborSource mc pkt \<noteq> Some []"
  using payloadSrcHash_length [of mc pkt "[]"] by (auto simp: NeighborSource_def split: if_splits)

end
