(* ===== verification/Raw_Log.thy ===== *)
theory Raw_Log
  imports Prelude Go_Time
begin

text \<open>
  The append-only log of MQTT messages, \<^verbatim>\<open>raw_events\<close> of the \<^verbatim>\<open>ingest\<close> schema, and the queries of
  \<^verbatim>\<open>internal/store/queries.go\<close> over it: the batch insert with ids drawn from the sequence, the
  highest id, and the rows after a cursor in id order.
\<close>

section \<open>Model\<close>

record RawEventInput =
  ri_Broker :: string
  ri_Topic :: string
  ri_Payload :: string
  ri_ReceivedAt :: time

record RawEvent =
  re_ID :: int
  re_ReceivedAt :: time
  re_Broker :: string
  re_Topic :: string
  re_Payload :: string

text \<open>The table, in the order of insertion, and the value its id sequence gave last.\<close>

record raw_store =
  rs_events :: "RawEvent list"
  rs_seq :: int

text \<open>
  \<open>array_agg(nextval(...))\<close> over \<open>n\<close> rows; ids are drawn outside any transaction, so a failed
  copy leaves a gap.
\<close>

definition alloc_ids :: "nat \<Rightarrow> raw_store \<Rightarrow> int list \<times> raw_store" where
  "alloc_ids n d = (map (\<lambda>i. rs_seq d + int i + 1) [0..<n], d\<lparr>rs_seq := rs_seq d + int n\<rparr>)"

text \<open>
  A \<^verbatim>\<open>timestamptz\<close> column keeps whole microseconds: the driver drops the rest of the nanoseconds. The
  epoch is a whole microsecond, so the instants from the zero time on may be truncated.
\<close>

definition timestamptz :: "time \<Rightarrow> time" where
  "timestamptz t = truncate_time microsecond t"

definition raw_row :: "int \<Rightarrow> RawEventInput \<Rightarrow> RawEvent" where
  "raw_row i m = \<lparr>re_ID = i, re_ReceivedAt = timestamptz (ri_ReceivedAt m), re_Broker = ri_Broker m,
     re_Topic = ri_Topic m, re_Payload = ri_Payload m\<rparr>"

definition copy_in :: "int list \<Rightarrow> RawEventInput list \<Rightarrow> raw_store \<Rightarrow> raw_store" where
  "copy_in ids msgs d = d\<lparr>rs_events := rs_events d @ map2 raw_row ids msgs\<rparr>"

text \<open>
  The insert in one go; \<open>alloc\<close> and \<open>copy\<close> say whether the id query and the copy succeed. It
  returns the number of copied rows.
\<close>

definition InsertRawEvents :: "bool \<Rightarrow> bool \<Rightarrow> RawEventInput list \<Rightarrow> raw_store \<Rightarrow> raw_store \<times> (err + int)" where
  "InsertRawEvents alloc copy msgs d =
     (if msgs = [] then (d, Inr 0)
      else if \<not> alloc then (d, Inl ConnError)
      else let (ids, d1) = alloc_ids (length msgs) d in
        if \<not> copy then (d1, Inl ConnError)
        else (copy_in ids msgs d1, Inr (int (length msgs))))"

lemma timestamptz_bounds: "timestamptz t \<le> t" "t < timestamptz t + microsecond"
proof -
  have "0 < microsecond" by (simp add: microsecond_def)
  then show "timestamptz t \<le> t" "t < timestamptz t + microsecond"
    using truncate_time_le [of microsecond t] by (simp_all add: timestamptz_def)
qed

lemma timestamptz_id: "microsecond dvd t \<Longrightarrow> timestamptz t = t"
  by (simp add: timestamptz_def truncate_time_def)

definition MaxRawEventID :: "raw_store \<Rightarrow> int" where
  "MaxRawEventID d = (if rs_events d = [] then 0 else Max (re_ID ` set (rs_events d)))"

definition FetchRawEventsAfter :: "int \<Rightarrow> nat \<Rightarrow> raw_store \<Rightarrow> RawEvent list" where
  "FetchRawEventsAfter since limit d =
     take limit (sort_key re_ID (filter (\<lambda>e. since < re_ID e) (rs_events d)))"

section \<open>The log in id order\<close>

text \<open>
  The primary key of the log, and that ids come from the sequence. The log is read in the order
  of the ids, whatever the order of the rows in the table.
\<close>

definition raw_ok :: "raw_store \<Rightarrow> bool" where
  "raw_ok d \<longleftrightarrow> distinct (map re_ID (rs_events d)) \<and> 0 \<le> rs_seq d \<and>
     (\<forall>e \<in> set (rs_events d). 0 < re_ID e \<and> re_ID e \<le> rs_seq d)"

definition raw_log :: "raw_store \<Rightarrow> RawEvent list" where
  "raw_log d = sort_key re_ID (rs_events d)"

definition log_upto :: "int \<Rightarrow> raw_store \<Rightarrow> RawEvent list" where
  "log_upto c d = filter (\<lambda>e. re_ID e \<le> c) (raw_log d)"

definition log_after :: "int \<Rightarrow> raw_store \<Rightarrow> RawEvent list" where
  "log_after c d = filter (\<lambda>e. c < re_ID e) (raw_log d)"

lemma set_raw_log [simp]: "set (raw_log d) = set (rs_events d)"
  by (simp add: raw_log_def)

lemma sorted_raw_log [simp]: "sorted (map re_ID (raw_log d))"
  by (simp add: raw_log_def)

lemma Fetch_log_after: "FetchRawEventsAfter c n d = take n (log_after c d)"
  by (simp add: FetchRawEventsAfter_def log_after_def raw_log_def filter_sort)

lemma distinct_raw_log: "raw_ok d \<Longrightarrow> distinct (map re_ID (raw_log d))"
  by (simp add: raw_ok_def raw_log_def distinct_map)

lemma sorted_filter_split:
  "sorted (map f xs) \<Longrightarrow> filter (\<lambda>x. f x \<le> (c::int)) xs @ filter (\<lambda>x. c < f x) xs = xs"
proof (induction xs)
  case (Cons x xs)
  show ?case
  proof (cases "f x \<le> c")
    case False
    then have "filter (\<lambda>x. f x \<le> c) xs = []" "filter (\<lambda>x. c < f x) xs = xs"
      using Cons.prems by (auto simp: filter_empty_conv filter_id_conv)
    with False show ?thesis by simp
  qed (use Cons in simp)
qed simp

lemma log_split: "log_upto c d @ log_after c d = raw_log d"
  unfolding log_upto_def log_after_def by (rule sorted_filter_split) simp

text \<open>A prefix of the rows after a cursor, up to the id of its last row.\<close>

lemma log_upto_extend:
  assumes ok: "raw_ok d" and split: "log_after c d = xs @ ys" and ne: "xs \<noteq> []"
  shows "log_upto (re_ID (last xs)) d = log_upto c d @ xs" and "log_after (re_ID (last xs)) d = ys"
    and "c < re_ID (last xs)"
proof -
  let ?h = "re_ID (last xs)"
  have raw: "raw_log d = log_upto c d @ xs @ ys" using log_split [of c d] split by simp
  have s: "sorted (map re_ID (log_upto c d @ xs @ ys))" "distinct (map re_ID (log_upto c d @ xs @ ys))"
    using raw sorted_raw_log distinct_raw_log [OF ok] by metis+
  obtain zs l where xs: "xs = zs @ [l]" using ne by (metis rev_exhaust)
  have l: "?h = re_ID l" by (simp add: xs)
  have le: "\<forall>e \<in> set xs. re_ID e \<le> ?h" using s(1) unfolding l xs by (auto simp: sorted_append)
  have lt: "\<forall>e \<in> set ys. ?h < re_ID e" using s unfolding l xs
    by (auto simp: sorted_append le_less image_iff)
  have "last xs \<in> set (log_after c d)" using ne split by simp
  then show c: "c < ?h" by (simp add: log_after_def)
  have up: "\<forall>e \<in> set (log_upto c d). re_ID e \<le> ?h" using c by (auto simp: log_upto_def)
  have 1: "filter (\<lambda>e. re_ID e \<le> ?h) ys = []" "filter (\<lambda>e. re_ID e \<le> ?h) xs = xs"
    "filter (\<lambda>e. re_ID e \<le> ?h) (log_upto c d) = log_upto c d"
    "filter (\<lambda>e. ?h < re_ID e) ys = ys" "filter (\<lambda>e. ?h < re_ID e) xs = []"
    "filter (\<lambda>e. ?h < re_ID e) (log_upto c d) = []"
    using lt le up by (auto simp: filter_empty_conv filter_id_conv)
  show "log_upto ?h d = log_upto c d @ xs" "log_after ?h d = ys"
    by (simp_all only: log_upto_def [of ?h] log_after_def [of ?h] raw filter_append 1 append_Nil append_Nil2)
qed

lemma raw_ok_alloc: "raw_ok d \<Longrightarrow> raw_ok (snd (alloc_ids n d))"
  by (force simp: raw_ok_def alloc_ids_def)

text \<open>
  A later state of the log: rows with ids beyond the sequence of before. One writer that copies its
  batches in the order it draws their ids, as the ingest service does, makes the log grow so.
\<close>

definition raw_extends :: "raw_store \<Rightarrow> raw_store \<Rightarrow> bool" where
  "raw_extends d d' \<longleftrightarrow> raw_ok d \<and> raw_ok d' \<and> rs_seq d \<le> rs_seq d' \<and>
     (\<exists>ms. rs_events d' = rs_events d @ ms \<and> (\<forall>m \<in> set ms. rs_seq d < re_ID m))"

lemma raw_extends_refl [simp]: "raw_extends d d = raw_ok d"
  by (simp add: raw_extends_def)

lemma raw_extends_trans: "raw_extends a b \<Longrightarrow> raw_extends b c \<Longrightarrow> raw_extends a c"
  by (fastforce simp: raw_extends_def)

lemma log_upto_extends:
  assumes "raw_extends d d'" "c \<le> rs_seq d" shows "log_upto c d' = log_upto c d"
proof -
  obtain ms where ms: "rs_events d' = rs_events d @ ms" "\<forall>m \<in> set ms. rs_seq d < re_ID m"
    using assms(1) by (auto simp: raw_extends_def)
  then have "filter (\<lambda>e. re_ID e \<le> c) ms = []" using assms(2) by (auto simp: filter_empty_conv)
  then show ?thesis by (simp add: log_upto_def raw_log_def ms(1) filter_sort)
qed

text \<open>An insert extends the log by the batch, in order, with consecutive ids; only a failed copy leaves a gap.\<close>

lemma InsertRawEvents_extends:
  assumes "raw_ok d" "InsertRawEvents a c msgs d = (d', r)"
  shows "raw_ok d'" and "raw_extends d d'" and "\<forall>e \<in> set (rs_events d'). e \<in> set (rs_events d) \<or> (\<exists>i. \<exists>m \<in> set msgs. e = raw_row i m)"
proof -
  let ?ids = "map (\<lambda>i. rs_seq d + int i + 1) [0..<length msgs]"
  have ids: "map re_ID (map2 raw_row ids msgs) = ids" if "length ids = length msgs" for ids
    using that by (intro nth_equalityI) (auto simp: raw_row_def)
  have new: "map re_ID (map2 raw_row ?ids msgs) = ?ids" by (rule ids) simp
  then have mem: "re_ID ` set (map2 raw_row ?ids msgs) = set ?ids" by (metis set_map)
  have range: "rs_seq d < re_ID e \<and> re_ID e \<le> rs_seq d + int (length msgs)" if "e \<in> set (map2 raw_row ?ids msgs)" for e
  proof -
    have "re_ID e \<in> set ?ids" using that mem by blast
    then show ?thesis by auto
  qed
  consider "d' = d" | "d' = d\<lparr>rs_seq := rs_seq d + int (length msgs)\<rparr>"
    | "d' = d\<lparr>rs_seq := rs_seq d + int (length msgs), rs_events := rs_events d @ map2 raw_row ?ids msgs\<rparr>"
    using assms(2) by (auto simp: InsertRawEvents_def alloc_ids_def copy_in_def Let_def split: if_splits)
  note cases = this
  have "distinct ?ids" by (simp add: distinct_map inj_on_def)
  moreover have "set (map re_ID (rs_events d)) \<inter> set ?ids = {}" using assms(1) by (force simp: raw_ok_def)
  ultimately have dist: "distinct (map re_ID (rs_events d @ map2 raw_row ?ids msgs))"
    using assms(1) unfolding map_append new by (simp add: raw_ok_def)
  show "raw_ok d'"
  proof (cases rule: cases)
    case 3
    have "\<forall>e \<in> set (rs_events d @ map2 raw_row ?ids msgs). 0 < re_ID e \<and> re_ID e \<le> rs_seq d + int (length msgs)"
      using assms(1) range by (fastforce simp: raw_ok_def)
    with 3 dist assms(1) show ?thesis by (simp add: raw_ok_def del: map_append set_append)
  qed (use assms(1) in \<open>force simp: raw_ok_def\<close>)+
  show "raw_extends d d'" using range \<open>raw_ok d'\<close> assms(1) by (cases rule: cases) (auto simp: raw_extends_def)
  show "\<forall>e \<in> set (rs_events d'). e \<in> set (rs_events d) \<or> (\<exists>i. \<exists>m \<in> set msgs. e = raw_row i m)"
  proof (cases rule: cases)
    case 3
    then show ?thesis by (auto dest: set_zip_rightD)
  qed simp_all
qed

end
