(* ===== verification/Event_Decoder.thy ===== *)
theory Event_Decoder
  imports Go_JSON Meshcore_Decode Raw_Log
begin

text \<open>
  The decoder of the projector (\<^verbatim>\<open>internal/project/decoder.go\<close> and \<^verbatim>\<open>parse.go\<close>): from a row of
  the raw log, that is an MQTT topic and a JSON payload, to an event of the pipeline. Every
  failure drops the row; the log lines are left out.
\<close>

section \<open>Messages\<close>

record statsMessage =
  sm_UptimeSecs :: "int option"
  sm_BatteryMV :: "int option"
  sm_DebugFlags :: "int option"
  sm_QueueLen :: "int option"
  sm_NoiseFloor :: "int option"
  sm_TxAirSecs :: "int option"
  sm_RxAirSecs :: "int option"
  sm_RecvErrors :: "int option"
  sm_LastRSSI :: "int option"
  sm_LastSNR :: "f64 option"
  sm_Errors :: "int option"

record statusMessage =
  sm_Status :: string
  sm_Timestamp :: string
  sm_Origin :: string
  sm_OriginID :: string
  sm_Source :: string
  sm_ClientVersion :: string
  sm_Radio :: string
  sm_Model :: string
  sm_FirmwareVersion :: string
  sm_Stats :: statsMessage

record packetMessage =
  pm_Timestamp :: string
  pm_Origin :: string
  pm_OriginID :: string
  pm_Type :: string
  pm_Direction :: string
  pm_Len :: string
  pm_PacketType :: string
  pm_Route :: string
  pm_PayloadLen :: string
  pm_Raw :: string
  pm_SNR :: string
  pm_RSSI :: string
  pm_Score :: string
  pm_Duration :: string
  pm_Hash :: string
  pm_Path :: string

definition no_stats :: statsMessage where
  "no_stats = \<lparr>sm_UptimeSecs = None, sm_BatteryMV = None, sm_DebugFlags = None, sm_QueueLen = None,
     sm_NoiseFloor = None, sm_TxAirSecs = None, sm_RxAirSecs = None, sm_RecvErrors = None,
     sm_LastRSSI = None, sm_LastSNR = None, sm_Errors = None\<rparr>"

definition no_status :: statusMessage where
  "no_status = \<lparr>sm_Status = [], sm_Timestamp = [], sm_Origin = [], sm_OriginID = [], sm_Source = [],
     sm_ClientVersion = [], sm_Radio = [], sm_Model = [], sm_FirmwareVersion = [], sm_Stats = no_stats\<rparr>"

definition no_packet :: packetMessage where
  "no_packet = \<lparr>pm_Timestamp = [], pm_Origin = [], pm_OriginID = [], pm_Type = [], pm_Direction = [],
     pm_Len = [], pm_PacketType = [], pm_Route = [], pm_PayloadLen = [], pm_Raw = [], pm_SNR = [],
     pm_RSSI = [], pm_Score = [], pm_Duration = [], pm_Hash = [], pm_Path = []\<rparr>"

text \<open>
  A number field behind a pointer: \<^verbatim>\<open>null\<close> is a nil pointer, any other value goes by its text
  (\<^verbatim>\<open>flexInt64.UnmarshalJSON\<close>; \<^verbatim>\<open>int\<close> has 64 bits, so \<^verbatim>\<open>flexInt\<close> is the same).
\<close>

definition flexInt64 :: "string \<Rightarrow> json \<Rightarrow> int option option" where
  "flexInt64 txt v =
     (if v = JNull then Some None
      else let s = TrimSpace txt in
        case atoi s of Some i \<Rightarrow> Some (Some i)
        | None \<Rightarrow> map_option (\<lambda>x. Some (f64_to_int64 x)) (ParseFloat s))"

definition flexInt :: "string \<Rightarrow> json \<Rightarrow> int option option" where
  "flexInt txt v =
     (if v = JNull then Some None
      else let s = TrimSpace txt in
        case atoi s of Some i \<Rightarrow> Some (Some i)
        | None \<Rightarrow> map_option (\<lambda>x. Some (f64_to_int64 x)) (ParseFloat s))"

text \<open>A string field that also takes a number, a boolean or any other value, by its text.\<close>

definition flexStr :: "string \<Rightarrow> json \<Rightarrow> string \<Rightarrow> string" where
  "flexStr txt v old = (case v of JNull \<Rightarrow> old | JStr s \<Rightarrow> s | _ \<Rightarrow> TrimSpace txt)"

definition set_stat :: "string \<Rightarrow> string \<Rightarrow> json \<Rightarrow> statsMessage \<Rightarrow> statsMessage option" where
  "set_stat k txt v m =
     (if field_matches ''uptime_secs'' k then map_option (\<lambda>x. m\<lparr>sm_UptimeSecs := x\<rparr>) (flexInt64 txt v)
      else if field_matches ''battery_mv'' k then map_option (\<lambda>x. m\<lparr>sm_BatteryMV := x\<rparr>) (flexInt txt v)
      else if field_matches ''debug_flags'' k then map_option (\<lambda>x. m\<lparr>sm_DebugFlags := x\<rparr>) (flexInt64 txt v)
      else if field_matches ''queue_len'' k then map_option (\<lambda>x. m\<lparr>sm_QueueLen := x\<rparr>) (flexInt txt v)
      else if field_matches ''noise_floor'' k then map_option (\<lambda>x. m\<lparr>sm_NoiseFloor := x\<rparr>) (flexInt txt v)
      else if field_matches ''tx_air_secs'' k then map_option (\<lambda>x. m\<lparr>sm_TxAirSecs := x\<rparr>) (flexInt64 txt v)
      else if field_matches ''rx_air_secs'' k then map_option (\<lambda>x. m\<lparr>sm_RxAirSecs := x\<rparr>) (flexInt64 txt v)
      else if field_matches ''recv_errors'' k then map_option (\<lambda>x. m\<lparr>sm_RecvErrors := x\<rparr>) (flexInt64 txt v)
      else if field_matches ''last_rssi'' k then map_option (\<lambda>x. m\<lparr>sm_LastRSSI := x\<rparr>) (flexInt txt v)
      else if field_matches ''last_snr'' k then map_option (\<lambda>x. m\<lparr>sm_LastSNR := x\<rparr>) (set_float v)
      else if field_matches ''errors'' k then map_option (\<lambda>x. m\<lparr>sm_Errors := x\<rparr>) (flexInt64 txt v)
      else Some m)"

definition set_stats :: "json \<Rightarrow> statsMessage \<Rightarrow> statsMessage option" where
  "set_stats v m = (case v of JNull \<Rightarrow> Some m | JObj ms \<Rightarrow> set_members set_stat ms m | _ \<Rightarrow> None)"

definition set_status :: "string \<Rightarrow> string \<Rightarrow> json \<Rightarrow> statusMessage \<Rightarrow> statusMessage option" where
  "set_status k txt v m =
     (if field_matches ''status'' k then map_option (\<lambda>x. m\<lparr>sm_Status := x\<rparr>) (set_text v (sm_Status m))
      else if field_matches ''timestamp'' k then map_option (\<lambda>x. m\<lparr>sm_Timestamp := x\<rparr>) (set_text v (sm_Timestamp m))
      else if field_matches ''origin'' k then map_option (\<lambda>x. m\<lparr>sm_Origin := x\<rparr>) (set_text v (sm_Origin m))
      else if field_matches ''origin_id'' k then map_option (\<lambda>x. m\<lparr>sm_OriginID := x\<rparr>) (set_text v (sm_OriginID m))
      else if field_matches ''source'' k then map_option (\<lambda>x. m\<lparr>sm_Source := x\<rparr>) (set_text v (sm_Source m))
      else if field_matches ''client_version'' k then map_option (\<lambda>x. m\<lparr>sm_ClientVersion := x\<rparr>) (set_text v (sm_ClientVersion m))
      else if field_matches ''radio'' k then map_option (\<lambda>x. m\<lparr>sm_Radio := x\<rparr>) (set_text v (sm_Radio m))
      else if field_matches ''model'' k then map_option (\<lambda>x. m\<lparr>sm_Model := x\<rparr>) (set_text v (sm_Model m))
      else if field_matches ''firmware_version'' k then map_option (\<lambda>x. m\<lparr>sm_FirmwareVersion := x\<rparr>) (set_text v (sm_FirmwareVersion m))
      else if field_matches ''stats'' k then map_option (\<lambda>x. m\<lparr>sm_Stats := x\<rparr>) (set_stats v (sm_Stats m))
      else Some m)"

definition set_packet :: "string \<Rightarrow> string \<Rightarrow> json \<Rightarrow> packetMessage \<Rightarrow> packetMessage option" where
  "set_packet k txt v m =
     (if field_matches ''timestamp'' k then map_option (\<lambda>x. m\<lparr>pm_Timestamp := x\<rparr>) (set_text v (pm_Timestamp m))
      else if field_matches ''origin'' k then map_option (\<lambda>x. m\<lparr>pm_Origin := x\<rparr>) (set_text v (pm_Origin m))
      else if field_matches ''origin_id'' k then map_option (\<lambda>x. m\<lparr>pm_OriginID := x\<rparr>) (set_text v (pm_OriginID m))
      else if field_matches ''type'' k then map_option (\<lambda>x. m\<lparr>pm_Type := x\<rparr>) (set_text v (pm_Type m))
      else if field_matches ''direction'' k then map_option (\<lambda>x. m\<lparr>pm_Direction := x\<rparr>) (set_text v (pm_Direction m))
      else if field_matches ''len'' k then Some (m\<lparr>pm_Len := flexStr txt v (pm_Len m)\<rparr>)
      else if field_matches ''packet_type'' k then Some (m\<lparr>pm_PacketType := flexStr txt v (pm_PacketType m)\<rparr>)
      else if field_matches ''route'' k then map_option (\<lambda>x. m\<lparr>pm_Route := x\<rparr>) (set_text v (pm_Route m))
      else if field_matches ''payload_len'' k then Some (m\<lparr>pm_PayloadLen := flexStr txt v (pm_PayloadLen m)\<rparr>)
      else if field_matches ''raw'' k then map_option (\<lambda>x. m\<lparr>pm_Raw := x\<rparr>) (set_text v (pm_Raw m))
      else if field_matches ''SNR'' k then Some (m\<lparr>pm_SNR := flexStr txt v (pm_SNR m)\<rparr>)
      else if field_matches ''RSSI'' k then Some (m\<lparr>pm_RSSI := flexStr txt v (pm_RSSI m)\<rparr>)
      else if field_matches ''score'' k then Some (m\<lparr>pm_Score := flexStr txt v (pm_Score m)\<rparr>)
      else if field_matches ''duration'' k then Some (m\<lparr>pm_Duration := flexStr txt v (pm_Duration m)\<rparr>)
      else if field_matches ''hash'' k then map_option (\<lambda>x. m\<lparr>pm_Hash := x\<rparr>) (set_text v (pm_Hash m))
      else if field_matches ''path'' k then map_option (\<lambda>x. m\<lparr>pm_Path := x\<rparr>) (set_text v (pm_Path m))
      else Some m)"

definition unmarshalStatus :: "string \<Rightarrow> statusMessage option" where
  "unmarshalStatus payload = (case parse_document payload of
     Some JNull \<Rightarrow> Some no_status
   | Some (JObj ms) \<Rightarrow> set_members set_status ms no_status
   | _ \<Rightarrow> None)"

definition unmarshalPacket :: "string \<Rightarrow> packetMessage option" where
  "unmarshalPacket payload = (case parse_document payload of
     Some JNull \<Rightarrow> Some no_packet
   | Some (JObj ms) \<Rightarrow> set_members set_packet ms no_packet
   | _ \<Rightarrow> None)"

section \<open>Fields\<close>

text \<open>The observer hash, the region and the last segment of a topic.\<close>

definition parseTopicHash :: "string \<Rightarrow> string \<Rightarrow> (bytes \<times> string \<times> string) option" where
  "parseTopicHash prefix topic =
     (let parts = split_on CHR ''/'' (trim_prefix topic prefix) in
      if length parts < 3 then None
      else let (i, ok) = hex_decode (parts ! 1) in
        if \<not> ok \<or> length i \<noteq> 32 then None
        else Some (i, parts ! 0, last parts))"

definition atoiPtr :: "string \<Rightarrow> int option" where
  "atoiPtr s = (let s = TrimSpace s in if s = [] then None else atoi s)"

definition atofPtr :: "string \<Rightarrow> f64 option" where
  "atofPtr s = (let s = TrimSpace s in if s = [] then None else ParseFloat s)"

definition parseRadio :: "string \<Rightarrow> int option \<times> f64 option \<times> int option \<times> int option" where
  "parseRadio s =
     (let parts = split_on CHR '','' s
      in (if length parts \<ge> 1 then map_option (\<lambda>mhz. f64_to_int64 (f64_mul mhz (Fin 1000))) (ParseFloat (TrimSpace (parts ! 0))) else None,
          if length parts \<ge> 2 then ParseFloat (TrimSpace (parts ! 1)) else None,
          if length parts \<ge> 3 then atoi (TrimSpace (parts ! 2)) else None,
          if length parts \<ge> 4 then atoi (TrimSpace (parts ! 3)) else None))"

definition pickErrors :: "int option \<Rightarrow> int option \<Rightarrow> int option" where
  "pickErrors a b = (if a \<noteq> None then a else b)"

text \<open>\<^verbatim>\<open>binary.LittleEndian.PutUint16\<close>.\<close>

definition le16 :: "16 word \<Rightarrow> bytes" where
  "le16 w = [ucast w, ucast (drop_bit 8 w)]"

section \<open>Decoding\<close>

definition decodeStatus :: "RawEvent \<Rightarrow> StatusPayload option" where
  "decodeStatus raw = map_option (\<lambda>m.
     let (freq, bw, sf, cr) = parseRadio (sm_Radio m); st = sm_Stats m
     in \<lparr>sp_Status = sm_Status m, sp_Origin = sm_Origin m, sp_Model = sm_Model m,
         sp_FirmwareVersion = sm_FirmwareVersion m, sp_ClientVersion = sm_ClientVersion m,
         sp_Source = sm_Source m, sp_RadioFreqKHz = freq, sp_RadioBWKHz = bw, sp_RadioSF = sf,
         sp_RadioCR = cr, sp_UptimeSecs = sm_UptimeSecs st, sp_BatteryMV = sm_BatteryMV st,
         sp_QueueLen = sm_QueueLen st, sp_NoiseFloor = sm_NoiseFloor st, sp_TxAirSecs = sm_TxAirSecs st,
         sp_RxAirSecs = sm_RxAirSecs st, sp_RecvErrors = pickErrors (sm_RecvErrors st) (sm_Errors st),
         sp_LastRSSI = sm_LastRSSI st, sp_LastSNR = sm_LastSNR st, sp_DebugFlags = sm_DebugFlags st\<rparr>)
     (unmarshalStatus (re_Payload raw))"

text \<open>A hex field; a malformed one gives the bytes before the error.\<close>

definition hex_field :: "string \<Rightarrow> bytes option" where
  "hex_field s = (if s \<noteq> [] then Some (fst (hex_decode (TrimSpace s))) else None)"

text \<open>What the wire packet adds to the payload.\<close>

definition add_wire :: "mc_library \<Rightarrow> mc_Packet \<Rightarrow> PacketPayload \<Rightarrow> PacketPayload" where
  "add_wire mc pkt p =
     p\<lparr>pp_DecodedType := Some (sint (word_of_nat (mc_PayloadType pkt) :: 16 word)),
       pp_SourcePrefix := NeighborSource mc pkt,
       pp_DestPrefix := PayloadDstHash mc pkt,
       pp_TransportCodes := (if mc_IsTransport pkt then Some (le16 (mc_TransportCode1 pkt) @ le16 (mc_TransportCode2 pkt))
         else pp_TransportCodes p),
       pp_Route := (if pp_Route p = [] then mc_RouteTypeString pkt else pp_Route p),
       pp_PacketType := (if pp_PacketType p = [] then mc_PayloadTypeString pkt else pp_PacketType p),
       pp_Advert := (if mc_PayloadType pkt = PayloadTypeAdvert mc then DecodeAdvert mc (mc_Payload pkt) else pp_Advert p)\<rparr>"

definition decodePacket :: "mc_library \<Rightarrow> RawEvent \<Rightarrow> PacketPayload option" where
  "decodePacket mc raw = map_option (\<lambda>m.
     let rawBytes = hex_field (pm_Raw m); packetHash = hex_field (pm_Hash m);
         p = \<lparr>pp_PacketHash = packetHash, pp_Direction = pm_Direction m, pp_PacketType = pm_PacketType m,
              pp_Route = pm_Route m, pp_Len = atoiPtr (pm_Len m), pp_PayloadLen = atoiPtr (pm_PayloadLen m),
              pp_RSSI = atoiPtr (pm_RSSI m), pp_SNR = atofPtr (pm_SNR m), pp_Score = atoiPtr (pm_Score m),
              pp_DurationMS = atoiPtr (pm_Duration m), pp_Raw = rawBytes, pp_DecodedType = None,
              pp_SourcePrefix = None, pp_DestPrefix = None, pp_TransportCodes = None, pp_Advert = None\<rparr>
     in if slice_len rawBytes = 0 then p
        else case Parse mc (slice_key rawBytes) of
          Inr pkt \<Rightarrow> add_wire mc pkt p
        | Inl ErrDoNotRetransmit \<Rightarrow> p
        | Inl _ \<Rightarrow> p)
     (unmarshalPacket (re_Payload raw))"

definition Decode :: "mc_library \<Rightarrow> RawEvent \<Rightarrow> Event option" where
  "Decode mc raw =
     (case parseTopicHash ''meshcore/'' (re_Topic raw) of
        None \<Rightarrow> None
      | Some (obsID, region, kind) \<Rightarrow>
          (let base = (\<lambda>payload. \<lparr>ev_RawID = re_ID raw, ev_TS = re_ReceivedAt raw, ev_ObserverID = obsID,
                 ev_Topic = re_Topic raw, ev_Region = region, ev_Payload = payload\<rparr>)
           in if kind = ''status'' then map_option (\<lambda>p. base (KindStatus p)) (decodeStatus raw)
              else if kind = ''packets'' then map_option (\<lambda>p. base (KindPacket p)) (decodePacket mc raw)
              else None))"

text \<open>The events of a stretch of the log, in its order.\<close>

definition decode_all :: "mc_library \<Rightarrow> RawEvent list \<Rightarrow> Event list" where
  "decode_all mc raws = List.map_filter (Decode mc) raws"

section \<open>Texts\<close>

text \<open>The string values of a parsed document, at any depth, are valid UTF-8.\<close>

inductive json_text_ok :: "json \<Rightarrow> bool" where
  "json_text_ok JNull"
| "json_text_ok (JBool b)"
| "json_text_ok (JNum s)"
| "utf8_valid s \<Longrightarrow> json_text_ok (JStr s)"
| "(\<And>x. x \<in> set xs \<Longrightarrow> json_text_ok x) \<Longrightarrow> json_text_ok (JArr xs)"
| "(\<And>k t v. (k, t, v) \<in> set ms \<Longrightarrow> json_text_ok v) \<Longrightarrow> json_text_ok (JObj ms)"

inductive_simps json_text_ok_simps: "json_text_ok (JStr s)" "json_text_ok (JObj ms)"

lemma unquote_scanned: "scan_string s = Some (b, r) \<Longrightarrow> utf8_valid (unquote b)"
  by (rule unquote_valid [OF scan_string_escapes])

lemma parse_text_ok:
  "parse_value f d s = Some (v, r) \<Longrightarrow> json_text_ok v"
  "parse_members f d s = Some (ms, r) \<Longrightarrow> (k, t, x) \<in> set ms \<Longrightarrow> json_text_ok x"
  "parse_elements f d s = Some (xs, r) \<Longrightarrow> y \<in> set xs \<Longrightarrow> json_text_ok y"
proof (induction f arbitrary: d s v r ms xs k t x y)
  case 0
  { case 1 then show ?case by simp next case 2 then show ?case by simp next case 3 then show ?case by simp }
next
  case (Suc f)
  { case 1
    then show ?case
      using Suc.IH(2,3) by (fastforce simp: Let_def intro: json_text_ok.intros unquote_scanned split: list.splits if_splits)
  next
    case 2
    then show ?case
      using Suc.IH(1,2) by (fastforce simp: Let_def split: option.splits if_splits prod.splits)
  next
    case 3
    then show ?case
      using Suc.IH(1,3) by (fastforce simp: Let_def split: option.splits if_splits prod.splits) }
qed

lemma parse_document_text_ok: "parse_document s = Some v \<Longrightarrow> json_text_ok v"
  using parse_text_ok(1) [of "2 * length s + 2" 0 "skip_ws s"]
  by (auto simp: parse_document_def simp del: parse_value.simps split: option.splits if_splits)

lemma set_members_rule:
  "set_members f ms m = Some m' \<Longrightarrow> I m \<Longrightarrow>
    (\<And>k t v m m'. (k, t, v) \<in> set ms \<Longrightarrow> I m \<Longrightarrow> f k t v m = Some m' \<Longrightarrow> I m') \<Longrightarrow> I m'"
proof (induction f ms m rule: set_members.induct)
  case (2 f k t v ms m)
  then obtain m1 where m1: "f k t v m = Some m1" "set_members f ms m1 = Some m'" by (auto simp: bind_eq_Some_conv)
  have "I m1" using 2(4)[OF _ 2(3) m1(1)] by simp
  then show ?case using 2(1) [OF m1] 2(4) by (meson list.set_intros(2))
qed simp

lemma set_text_ok: "set_text v old = Some s \<Longrightarrow> json_text_ok v \<Longrightarrow> utf8_valid old \<Longrightarrow> utf8_valid s"
  by (auto simp: set_text_def json_text_ok_simps split: json.splits)

definition status_texts :: "statusMessage \<Rightarrow> string list" where
  "status_texts m = [sm_Status m, sm_Origin m, sm_Source m, sm_ClientVersion m, sm_Model m, sm_FirmwareVersion m]"

lemma set_status_texts:
  assumes "list_all utf8_valid (status_texts m)" "json_text_ok v" "set_status k t v m = Some m'"
  shows "list_all utf8_valid (status_texts m')"
  using assms(1,3) unfolding set_status_def
  by (auto simp: status_texts_def split: if_split_asm intro: set_text_ok [OF _ assms(2)])

text \<open>An invariant of the zero message that every member keeps holds of what is unmarshalled.\<close>

lemma document_rule:
  assumes "parse_document payload = Some (JObj ms)" "set_members f ms z = Some m" "I z"
    and step: "\<And>k t v m m'. I m \<Longrightarrow> json_text_ok v \<Longrightarrow> f k t v m = Some m' \<Longrightarrow> I m'"
  shows "I m"
proof (rule set_members_rule [where I = I, OF assms(2,3)])
  fix k t v m m'
  assume "(k, t, v) \<in> set ms" "I m" "f k t v m = Some m'"
  moreover from this have "json_text_ok v" using parse_document_text_ok [OF assms(1)] unfolding json_text_ok_simps by metis
  ultimately show "I m'" by (metis step)
qed

lemma unmarshalStatus_rule:
  assumes "unmarshalStatus payload = Some m" "I no_status"
    and "\<And>k t v m m'. I m \<Longrightarrow> json_text_ok v \<Longrightarrow> set_status k t v m = Some m' \<Longrightarrow> I m'"
  shows "I m"
proof (cases "parse_document payload = Some JNull")
  case True
  then show ?thesis using assms(1,2) by (simp add: unmarshalStatus_def)
next
  case False
  then obtain ms where "parse_document payload = Some (JObj ms)" "set_members set_status ms no_status = Some m"
    using assms(1) by (auto simp: unmarshalStatus_def split: option.splits json.splits)
  then show ?thesis using assms(2,3) by (rule document_rule)
qed

lemma unmarshalPacket_rule:
  assumes "unmarshalPacket payload = Some m" "I no_packet"
    and "\<And>k t v m m'. I m \<Longrightarrow> json_text_ok v \<Longrightarrow> set_packet k t v m = Some m' \<Longrightarrow> I m'"
  shows "I m"
proof (cases "parse_document payload = Some JNull")
  case True
  then show ?thesis using assms(1,2) by (simp add: unmarshalPacket_def)
next
  case False
  then obtain ms where "parse_document payload = Some (JObj ms)" "set_members set_packet ms no_packet = Some m"
    using assms(1) by (auto simp: unmarshalPacket_def split: option.splits json.splits)
  then show ?thesis using assms(2,3) by (rule document_rule)
qed

lemma unmarshalStatus_texts: "unmarshalStatus payload = Some m \<Longrightarrow> list_all utf8_valid (status_texts m)"
  by (erule unmarshalStatus_rule [where I = "\<lambda>m. list_all utf8_valid (status_texts m)"])
    (simp add: status_texts_def no_status_def, rule set_status_texts)

definition packet_texts :: "packetMessage \<Rightarrow> string list" where
  "packet_texts m = [pm_Direction m, pm_Route m]"

lemma set_packet_texts:
  assumes "list_all utf8_valid (packet_texts m)" "json_text_ok v" "set_packet k t v m = Some m'"
  shows "list_all utf8_valid (packet_texts m')"
  using assms(1,3) unfolding set_packet_def
  by (auto simp: packet_texts_def split: if_split_asm intro: set_text_ok [OF _ assms(2)])

lemma unmarshalPacket_texts: "unmarshalPacket payload = Some m \<Longrightarrow> list_all utf8_valid (packet_texts m)"
  by (erule unmarshalPacket_rule [where I = "\<lambda>m. list_all utf8_valid (packet_texts m)"])
    (simp add: packet_texts_def no_packet_def, rule set_packet_texts)

section \<open>Members\<close>

text \<open>
  What a document gives for the name of a field, independently of the setters: the last member
  of the name, where names are compared as \<^verbatim>\<open>encoding/json\<close> compares them. For a text and a flexible
  text a \<^verbatim>\<open>null\<close> is as if it were not there; for a pointer it is nil.
\<close>

type_synonym members = "(string \<times> string \<times> json) list"

definition document_members :: "string \<Rightarrow> members" where
  "document_members payload = (case parse_document payload of Some (JObj ms) \<Rightarrow> ms | _ \<Rightarrow> [])"

definition last_member :: "string \<Rightarrow> members \<Rightarrow> (string \<times> json) option" where
  "last_member name ms = (let xs = filter (\<lambda>(k, t, v). field_matches name k) ms in
     if xs = [] then None else Some (snd (last xs)))"

definition last_value :: "string \<Rightarrow> members \<Rightarrow> (string \<times> json) option" where
  "last_value name ms = last_member name (filter (\<lambda>(k, t, v). v \<noteq> JNull) ms)"

definition member_text :: "string \<Rightarrow> members \<Rightarrow> string" where
  "member_text name ms = (case last_value name ms of Some (t, JStr s) \<Rightarrow> s | _ \<Rightarrow> [])"

definition member_flex :: "string \<Rightarrow> members \<Rightarrow> string" where
  "member_flex name ms = (case last_value name ms of
     None \<Rightarrow> [] | Some (t, v) \<Rightarrow> (case v of JStr s \<Rightarrow> s | _ \<Rightarrow> TrimSpace t))"

definition number_text :: "string \<Rightarrow> int option" where
  "number_text s = (case atoi s of Some i \<Rightarrow> Some i | None \<Rightarrow> map_option f64_to_int64 (ParseFloat s))"

definition member_int :: "string \<Rightarrow> members \<Rightarrow> int option" where
  "member_int name ms = (case last_member name ms of
     None \<Rightarrow> None | Some (t, v) \<Rightarrow> if v = JNull then None else number_text (TrimSpace t))"

definition member_float :: "string \<Rightarrow> members \<Rightarrow> f64 option" where
  "member_float name ms = (case last_member name ms of Some (t, JNum s) \<Rightarrow> ParseFloat s | _ \<Rightarrow> None)"

text \<open>A struct that is given several times is filled by the members of all its objects.\<close>

definition member_object :: "string \<Rightarrow> members \<Rightarrow> members" where
  "member_object name ms = concat (map (\<lambda>(k, t, v). case v of JObj xs \<Rightarrow> xs | _ \<Rightarrow> [])
     (filter (\<lambda>(k, t, v). field_matches name k) ms))"

lemma last_member_snoc [simp]:
  "last_member name [] = None"
  "last_member name (ms @ [(k, t, v)]) = (if field_matches name k then Some (t, v) else last_member name ms)"
  by (simp_all add: last_member_def Let_def)

lemma last_value_snoc [simp]:
  "last_value name [] = None"
  "last_value name (ms @ [(k, t, v)]) = (if field_matches name k \<and> v \<noteq> JNull then Some (t, v) else last_value name ms)"
  by (simp_all add: last_value_def)

abbreviation text_of :: "json \<Rightarrow> string \<Rightarrow> string" where
  "text_of v old \<equiv> (case v of JNull \<Rightarrow> old | JStr s \<Rightarrow> s | _ \<Rightarrow> [])"

lemma member_snoc:
  "member_text name (ms @ [(k, t, v)]) = (if field_matches name k then text_of v (member_text name ms) else member_text name ms)"
  "member_flex name (ms @ [(k, t, v)]) = (if field_matches name k then flexStr t v (member_flex name ms) else member_flex name ms)"
  "member_int name (ms @ [(k, t, v)]) = (if field_matches name k
     then (if v = JNull then None else number_text (TrimSpace t)) else member_int name ms)"
  "member_float name (ms @ [(k, t, v)]) = (if field_matches name k
     then (case v of JNum s \<Rightarrow> ParseFloat s | _ \<Rightarrow> None) else member_float name ms)"
  "member_object name (ms @ [(k, t, v)]) = member_object name ms @ (if field_matches name k
     then (case v of JObj xs \<Rightarrow> xs | _ \<Rightarrow> []) else [])"
  by (auto simp: member_text_def member_flex_def flexStr_def member_int_def member_float_def member_object_def split: json.splits)

lemma member_Nil:
  "member_text name [] = []" "member_flex name [] = []" "member_int name [] = None" "member_float name [] = None"
  "member_object name [] = []"
  by (simp_all add: member_text_def member_flex_def member_int_def member_float_def member_object_def)

lemma set_members_append:
  "set_members f (xs @ ys) m = Option.bind (set_members f xs m) (set_members f ys)"
  by (induction f xs m rule: set_members.induct) (auto split: bind_splits)

lemma set_members_snoc:
  "set_members f (xs @ [(k, t, v)]) m = Some m' \<longleftrightarrow> (\<exists>m1. set_members f xs m = Some m1 \<and> f k t v m1 = Some m')"
  by (auto simp: set_members_append bind_eq_Some_conv)

text \<open>A name matches at most one of several fields whose names fold to different names.\<close>

lemma field_matches_fold: "field_matches f k \<longleftrightarrow> fold_name k = fold_name f"
  by (auto simp: field_matches_def)

lemma fold_name_Cons:
  "ord_of c < 128 \<Longrightarrow> fold_name (c # s) =
    (if 97 \<le> ord_of c \<and> ord_of c \<le> 122 then chr_of (ord_of c - 32) else c) # fold_name s"
proof -
  assume c: "ord_of c < (128 :: nat)"
  have "c \<noteq> chr_of n" if "128 \<le> n" "n < 256" for n :: nat
    using c that by (metis linorder_not_less mod_less of_char_of)
  then have "\<not> has_prefix (c # s) (bytes_str [197, 191])" "\<not> has_prefix (c # s) (bytes_str [226, 132, 170])"
    by (auto simp: has_prefix_def bytes_str_def)
  then show ?thesis by (subst fold_name.simps) simp
qed

lemma fold_letters: "fold_name [] = []"
  "fold_name (CHR ''I'' # s) = CHR ''I'' # fold_name s" "fold_name (CHR ''N'' # s) = CHR ''N'' # fold_name s"
  "fold_name (CHR ''R'' # s) = CHR ''R'' # fold_name s" "fold_name (CHR ''S'' # s) = CHR ''S'' # fold_name s"
  "fold_name (CHR ''_'' # s) = CHR ''_'' # fold_name s" "fold_name (CHR ''a'' # s) = CHR ''A'' # fold_name s"
  "fold_name (CHR ''b'' # s) = CHR ''B'' # fold_name s" "fold_name (CHR ''c'' # s) = CHR ''C'' # fold_name s"
  "fold_name (CHR ''d'' # s) = CHR ''D'' # fold_name s" "fold_name (CHR ''e'' # s) = CHR ''E'' # fold_name s"
  "fold_name (CHR ''f'' # s) = CHR ''F'' # fold_name s" "fold_name (CHR ''g'' # s) = CHR ''G'' # fold_name s"
  "fold_name (CHR ''h'' # s) = CHR ''H'' # fold_name s" "fold_name (CHR ''i'' # s) = CHR ''I'' # fold_name s"
  "fold_name (CHR ''k'' # s) = CHR ''K'' # fold_name s" "fold_name (CHR ''l'' # s) = CHR ''L'' # fold_name s"
  "fold_name (CHR ''m'' # s) = CHR ''M'' # fold_name s" "fold_name (CHR ''n'' # s) = CHR ''N'' # fold_name s"
  "fold_name (CHR ''o'' # s) = CHR ''O'' # fold_name s" "fold_name (CHR ''p'' # s) = CHR ''P'' # fold_name s"
  "fold_name (CHR ''q'' # s) = CHR ''Q'' # fold_name s" "fold_name (CHR ''r'' # s) = CHR ''R'' # fold_name s"
  "fold_name (CHR ''s'' # s) = CHR ''S'' # fold_name s" "fold_name (CHR ''t'' # s) = CHR ''T'' # fold_name s"
  "fold_name (CHR ''u'' # s) = CHR ''U'' # fold_name s" "fold_name (CHR ''v'' # s) = CHR ''V'' # fold_name s"
  "fold_name (CHR ''w'' # s) = CHR ''W'' # fold_name s" "fold_name (CHR ''x'' # s) = CHR ''X'' # fold_name s"
  "fold_name (CHR ''y'' # s) = CHR ''Y'' # fold_name s"
  by (simp_all add: fold_name.simps [of "[]"] fold_name_Cons char_of_def bit_Suc_0_iff)

lemma fold_packet_names:
  "fold_name ''timestamp'' = ''TIMESTAMP''" "fold_name ''origin'' = ''ORIGIN''" "fold_name ''origin_id'' = ''ORIGIN_ID''"
  "fold_name ''type'' = ''TYPE''" "fold_name ''direction'' = ''DIRECTION''" "fold_name ''len'' = ''LEN''"
  "fold_name ''packet_type'' = ''PACKET_TYPE''" "fold_name ''route'' = ''ROUTE''" "fold_name ''payload_len'' = ''PAYLOAD_LEN''"
  "fold_name ''raw'' = ''RAW''" "fold_name ''SNR'' = ''SNR''" "fold_name ''RSSI'' = ''RSSI''" "fold_name ''score'' = ''SCORE''"
  "fold_name ''duration'' = ''DURATION''" "fold_name ''hash'' = ''HASH''" "fold_name ''path'' = ''PATH''"
  by (simp_all only: fold_letters)

lemma set_text_iff: "set_text v old = Some s \<longleftrightarrow> (v = JNull \<or> (\<exists>x. v = JStr x)) \<and> s = text_of v old"
  by (auto simp: set_text_def split: json.splits)

lemma set_packet_effect:
  assumes "set_packet k t v m = Some m'"
  shows "pm_Direction m' = (if field_matches ''direction'' k then text_of v (pm_Direction m) else pm_Direction m)"
    and "pm_Route m' = (if field_matches ''route'' k then text_of v (pm_Route m) else pm_Route m)"
    and "pm_Raw m' = (if field_matches ''raw'' k then text_of v (pm_Raw m) else pm_Raw m)"
    and "pm_Hash m' = (if field_matches ''hash'' k then text_of v (pm_Hash m) else pm_Hash m)"
    and "pm_Len m' = (if field_matches ''len'' k then flexStr t v (pm_Len m) else pm_Len m)"
    and "pm_PacketType m' = (if field_matches ''packet_type'' k then flexStr t v (pm_PacketType m) else pm_PacketType m)"
    and "pm_PayloadLen m' = (if field_matches ''payload_len'' k then flexStr t v (pm_PayloadLen m) else pm_PayloadLen m)"
    and "pm_SNR m' = (if field_matches ''SNR'' k then flexStr t v (pm_SNR m) else pm_SNR m)"
    and "pm_RSSI m' = (if field_matches ''RSSI'' k then flexStr t v (pm_RSSI m) else pm_RSSI m)"
    and "pm_Score m' = (if field_matches ''score'' k then flexStr t v (pm_Score m) else pm_Score m)"
    and "pm_Duration m' = (if field_matches ''duration'' k then flexStr t v (pm_Duration m) else pm_Duration m)"
  using assms unfolding set_packet_def field_matches_fold fold_packet_names
  by (auto simp: set_text_iff split: if_split_asm)

lemma unmarshalPacket_members:
  assumes "unmarshalPacket payload = Some m" and "ms = document_members payload"
  shows "pm_Direction m = member_text ''direction'' ms" "pm_Route m = member_text ''route'' ms"
    "pm_Raw m = member_text ''raw'' ms" "pm_Hash m = member_text ''hash'' ms" "pm_Len m = member_flex ''len'' ms"
    "pm_PacketType m = member_flex ''packet_type'' ms" "pm_PayloadLen m = member_flex ''payload_len'' ms"
    "pm_SNR m = member_flex ''SNR'' ms" "pm_RSSI m = member_flex ''RSSI'' ms" "pm_Score m = member_flex ''score'' ms"
    "pm_Duration m = member_flex ''duration'' ms"
proof -
  have "set_members set_packet ms no_packet = Some m"
    using assms by (auto simp: unmarshalPacket_def document_members_def split: option.splits json.splits)
  then have "pm_Direction m = member_text ''direction'' ms \<and> pm_Route m = member_text ''route'' ms \<and>
      pm_Raw m = member_text ''raw'' ms \<and> pm_Hash m = member_text ''hash'' ms \<and> pm_Len m = member_flex ''len'' ms \<and>
      pm_PacketType m = member_flex ''packet_type'' ms \<and> pm_PayloadLen m = member_flex ''payload_len'' ms \<and>
      pm_SNR m = member_flex ''SNR'' ms \<and> pm_RSSI m = member_flex ''RSSI'' ms \<and> pm_Score m = member_flex ''score'' ms \<and>
      pm_Duration m = member_flex ''duration'' ms"
  proof (induction ms arbitrary: m rule: rev_induct)
    case Nil
    then show ?case by (auto simp: no_packet_def member_Nil)
  next
    case (snoc x ms)
    obtain k t v where x: "x = (k, t, v)" by (rule prod_cases3)
    obtain m1 where m1: "set_members set_packet ms no_packet = Some m1" "set_packet k t v m1 = Some m"
      using snoc.prems unfolding x set_members_snoc by blast
    show ?case unfolding x member_snoc set_packet_effect [OF m1(2)] using snoc.IH [OF m1(1)] by (simp only: simp_thms)
  qed
  then show "pm_Direction m = member_text ''direction'' ms" "pm_Route m = member_text ''route'' ms"
    "pm_Raw m = member_text ''raw'' ms" "pm_Hash m = member_text ''hash'' ms" "pm_Len m = member_flex ''len'' ms"
    "pm_PacketType m = member_flex ''packet_type'' ms" "pm_PayloadLen m = member_flex ''payload_len'' ms"
    "pm_SNR m = member_flex ''SNR'' ms" "pm_RSSI m = member_flex ''RSSI'' ms" "pm_Score m = member_flex ''score'' ms"
    "pm_Duration m = member_flex ''duration'' ms" by blast+
qed

lemma fold_status_names:
  "fold_name ''status'' = ''STATUS''" "fold_name ''source'' = ''SOURCE''" "fold_name ''client_version'' = ''CLIENT_VERSION''"
  "fold_name ''radio'' = ''RADIO''" "fold_name ''model'' = ''MODEL''" "fold_name ''firmware_version'' = ''FIRMWARE_VERSION''"
  "fold_name ''stats'' = ''STATS''"
  by (simp_all only: fold_letters)

lemma fold_stat_names:
  "fold_name ''uptime_secs'' = ''UPTIME_SECS''" "fold_name ''battery_mv'' = ''BATTERY_MV''" "fold_name ''debug_flags'' = ''DEBUG_FLAGS''"
  "fold_name ''queue_len'' = ''QUEUE_LEN''" "fold_name ''noise_floor'' = ''NOISE_FLOOR''" "fold_name ''tx_air_secs'' = ''TX_AIR_SECS''"
  "fold_name ''rx_air_secs'' = ''RX_AIR_SECS''" "fold_name ''recv_errors'' = ''RECV_ERRORS''" "fold_name ''last_rssi'' = ''LAST_RSSI''"
  "fold_name ''last_snr'' = ''LAST_SNR''" "fold_name ''errors'' = ''ERRORS''"
  by (simp_all only: fold_letters)

lemma flexInt_number: "flexInt t v = Some x \<Longrightarrow> x = (if v = JNull then None else number_text (TrimSpace t))"
  and flexInt64_number: "flexInt64 t v = Some x \<Longrightarrow> x = (if v = JNull then None else number_text (TrimSpace t))"
  by (auto simp: flexInt_def flexInt64_def number_text_def Let_def split: if_splits option.splits)

lemma set_float_number: "set_float v = Some x \<Longrightarrow> x = (case v of JNum s \<Rightarrow> ParseFloat s | _ \<Rightarrow> None)"
  by (auto simp: set_float_def split: json.splits)

abbreviation int_of :: "string \<Rightarrow> json \<Rightarrow> int option" where
  "int_of t v \<equiv> (if v = JNull then None else number_text (TrimSpace t))"

abbreviation float_of :: "json \<Rightarrow> f64 option" where
  "float_of v \<equiv> (case v of JNum s \<Rightarrow> ParseFloat s | _ \<Rightarrow> None)"

lemma set_stat_effect:
  assumes "set_stat k t v m = Some m'"
  shows "sm_UptimeSecs m' = (if field_matches ''uptime_secs'' k then int_of t v else sm_UptimeSecs m)"
    and "sm_BatteryMV m' = (if field_matches ''battery_mv'' k then int_of t v else sm_BatteryMV m)"
    and "sm_DebugFlags m' = (if field_matches ''debug_flags'' k then int_of t v else sm_DebugFlags m)"
    and "sm_QueueLen m' = (if field_matches ''queue_len'' k then int_of t v else sm_QueueLen m)"
    and "sm_NoiseFloor m' = (if field_matches ''noise_floor'' k then int_of t v else sm_NoiseFloor m)"
    and "sm_TxAirSecs m' = (if field_matches ''tx_air_secs'' k then int_of t v else sm_TxAirSecs m)"
    and "sm_RxAirSecs m' = (if field_matches ''rx_air_secs'' k then int_of t v else sm_RxAirSecs m)"
    and "sm_RecvErrors m' = (if field_matches ''recv_errors'' k then int_of t v else sm_RecvErrors m)"
    and "sm_LastRSSI m' = (if field_matches ''last_rssi'' k then int_of t v else sm_LastRSSI m)"
    and "sm_LastSNR m' = (if field_matches ''last_snr'' k then float_of v else sm_LastSNR m)"
    and "sm_Errors m' = (if field_matches ''errors'' k then int_of t v else sm_Errors m)"
  using assms unfolding set_stat_def field_matches_fold fold_stat_names
  by (auto dest!: flexInt_number flexInt64_number set_float_number split: if_split_asm)

text \<open>What a struct of the statistics holds after members \<open>xs\<close> filled it from the zero value.\<close>

definition stats_read :: "members \<Rightarrow> statsMessage \<Rightarrow> bool" where
  "stats_read xs m \<longleftrightarrow> sm_UptimeSecs m = member_int ''uptime_secs'' xs \<and> sm_BatteryMV m = member_int ''battery_mv'' xs \<and>
     sm_DebugFlags m = member_int ''debug_flags'' xs \<and> sm_QueueLen m = member_int ''queue_len'' xs \<and>
     sm_NoiseFloor m = member_int ''noise_floor'' xs \<and> sm_TxAirSecs m = member_int ''tx_air_secs'' xs \<and>
     sm_RxAirSecs m = member_int ''rx_air_secs'' xs \<and> sm_RecvErrors m = member_int ''recv_errors'' xs \<and>
     sm_LastRSSI m = member_int ''last_rssi'' xs \<and> sm_LastSNR m = member_float ''last_snr'' xs \<and>
     sm_Errors m = member_int ''errors'' xs"

lemma stats_read_none: "stats_read [] no_stats"
  by (simp add: stats_read_def no_stats_def member_Nil)

lemma set_stat_read: "stats_read xs m \<Longrightarrow> set_stat k t v m = Some m' \<Longrightarrow> stats_read (xs @ [(k, t, v)]) m'"
  unfolding stats_read_def member_snoc by (simp only: set_stat_effect simp_thms)

lemma set_stats_read:
  assumes "stats_read xs m" "set_stats v m = Some m'"
  shows "stats_read (xs @ (case v of JObj ys \<Rightarrow> ys | _ \<Rightarrow> [])) m'"
proof (cases v)
  case (JObj ys)
  have "set_members set_stat ys m = Some m' \<Longrightarrow> stats_read (xs @ ys) m'" for ys m'
  proof (induction ys arbitrary: m' rule: rev_induct)
    case Nil
    then show ?case using assms(1) by simp
  next
    case (snoc y ys)
    obtain k t u where y: "y = (k, t, u)" by (rule prod_cases3)
    obtain m1 where m1: "set_members set_stat ys m = Some m1" "set_stat k t u m1 = Some m'"
      using snoc.prems unfolding y set_members_snoc by blast
    from set_stat_read [OF snoc.IH [OF m1(1)] m1(2)] show ?case by (simp add: y)
  qed
  then show ?thesis using assms(2) by (simp add: JObj set_stats_def)
qed (use assms in \<open>auto simp: set_stats_def\<close>)

lemma set_status_effect:
  assumes "set_status k t v m = Some m'"
  shows "sm_Status m' = (if field_matches ''status'' k then text_of v (sm_Status m) else sm_Status m)"
    and "sm_Origin m' = (if field_matches ''origin'' k then text_of v (sm_Origin m) else sm_Origin m)"
    and "sm_Source m' = (if field_matches ''source'' k then text_of v (sm_Source m) else sm_Source m)"
    and "sm_ClientVersion m' = (if field_matches ''client_version'' k then text_of v (sm_ClientVersion m) else sm_ClientVersion m)"
    and "sm_Radio m' = (if field_matches ''radio'' k then text_of v (sm_Radio m) else sm_Radio m)"
    and "sm_Model m' = (if field_matches ''model'' k then text_of v (sm_Model m) else sm_Model m)"
    and "sm_FirmwareVersion m' = (if field_matches ''firmware_version'' k then text_of v (sm_FirmwareVersion m) else sm_FirmwareVersion m)"
    and "if field_matches ''stats'' k then set_stats v (sm_Stats m) = Some (sm_Stats m') else sm_Stats m' = sm_Stats m"
  using assms unfolding set_status_def field_matches_fold fold_packet_names fold_status_names
  by (auto simp: set_text_iff split: if_split_asm)

lemma unmarshalStatus_members:
  assumes "unmarshalStatus payload = Some m" and "ms = document_members payload"
  shows "sm_Status m = member_text ''status'' ms" "sm_Origin m = member_text ''origin'' ms" "sm_Source m = member_text ''source'' ms"
    "sm_ClientVersion m = member_text ''client_version'' ms" "sm_Radio m = member_text ''radio'' ms"
    "sm_Model m = member_text ''model'' ms" "sm_FirmwareVersion m = member_text ''firmware_version'' ms"
    "stats_read (member_object ''stats'' ms) (sm_Stats m)"
proof -
  have "set_members set_status ms no_status = Some m"
    using assms by (auto simp: unmarshalStatus_def document_members_def split: option.splits json.splits)
  then have "sm_Status m = member_text ''status'' ms \<and> sm_Origin m = member_text ''origin'' ms \<and> sm_Source m = member_text ''source'' ms \<and>
      sm_ClientVersion m = member_text ''client_version'' ms \<and> sm_Radio m = member_text ''radio'' ms \<and>
      sm_Model m = member_text ''model'' ms \<and> sm_FirmwareVersion m = member_text ''firmware_version'' ms \<and>
      stats_read (member_object ''stats'' ms) (sm_Stats m)"
  proof (induction ms arbitrary: m rule: rev_induct)
    case Nil
    then show ?case using stats_read_none by (auto simp: no_status_def member_Nil)
  next
    case (snoc x ms)
    obtain k t v where x: "x = (k, t, v)" by (rule prod_cases3)
    obtain m1 where m1: "set_members set_status ms no_status = Some m1" "set_status k t v m1 = Some m"
      using snoc.prems unfolding x set_members_snoc by blast
    note IH = snoc.IH [OF m1(1)]
    have "stats_read (member_object ''stats'' (ms @ [x])) (sm_Stats m)"
      using set_status_effect(8) [OF m1(2)] set_stats_read IH unfolding x member_snoc by (auto split: if_splits)
    then show ?case using IH unfolding x by (simp only: member_snoc set_status_effect(1-7) [OF m1(2)] simp_thms)
  qed
  then show "sm_Status m = member_text ''status'' ms" "sm_Origin m = member_text ''origin'' ms" "sm_Source m = member_text ''source'' ms"
    "sm_ClientVersion m = member_text ''client_version'' ms" "sm_Radio m = member_text ''radio'' ms"
    "sm_Model m = member_text ''model'' ms" "sm_FirmwareVersion m = member_text ''firmware_version'' ms"
    "stats_read (member_object ''stats'' ms) (sm_Stats m)" by blast+
qed

section \<open>Topics\<close>

definition make_topic :: "string \<Rightarrow> bytes \<Rightarrow> string \<Rightarrow> string" where
  "make_topic region h kind = ''meshcore/'' @ join_on CHR ''/'' [region, hex_encode h, kind]"

lemma hex_encode_no_slash: "CHR ''/'' \<notin> set (hex_encode h)"
proof
  assume "CHR ''/'' \<in> set (hex_encode h)"
  then obtain b :: "8 word" and n :: nat where "CHR ''/'' = hex_digit n" "n = unat b div 16 \<or> n = unat b mod 16"
    by (auto simp: hex_encode_def)
  moreover have "unat b div 16 < 16" using unsigned_less [of b, where 'a = nat] by simp
  ultimately have "hex_val CHR ''/'' = Some n" by (metis hex_val_digit mod_less_divisor zero_less_numeral)
  then show False by (simp add: hex_val_def)
qed

text \<open>C22 (roundtrip): the topic of a region, a 32-byte observer key and a kind parses back to the three.\<close>

theorem topic_roundtrip:
  assumes "CHR ''/'' \<notin> set region" "CHR ''/'' \<notin> set kind" "length h = 32"
  shows "parseTopicHash ''meshcore/'' (make_topic region h kind) = Some (h, region, kind)"
proof -
  have "split_on CHR ''/'' (join_on CHR ''/'' [region, hex_encode h, kind]) = [region, hex_encode h, kind]"
    using assms hex_encode_no_slash by (intro split_join_on) auto
  then show ?thesis using assms(3)
    by (simp only: parseTopicHash_def make_topic_def trim_prefix_append) simp
qed

lemma topic_roundtrip_witness:
  "parseTopicHash ''meshcore/'' (make_topic ''BUF'' (replicate 32 7) ''status'') = Some (replicate 32 7, ''BUF'', ''status'')"
  by (rule topic_roundtrip) simp_all

section \<open>Types of the decoded fields\<close>

definition int64_opt_ok :: "int option \<Rightarrow> bool" where
  "int64_opt_ok x \<longleftrightarrow> (\<forall>i \<in> set_option x. - (2 ^ 63) \<le> i \<and> i < 2 ^ 63)"

definition status_typed :: "StatusPayload \<Rightarrow> bool" where
  "status_typed p \<longleftrightarrow>
     list_all int64_opt_ok [sp_RadioFreqKHz p, sp_RadioSF p, sp_RadioCR p, sp_UptimeSecs p, sp_BatteryMV p, sp_QueueLen p,
       sp_NoiseFloor p, sp_TxAirSecs p, sp_RxAirSecs p, sp_RecvErrors p, sp_LastRSSI p, sp_DebugFlags p] \<and>
     list_all utf8_valid [sp_Status p, sp_Origin p, sp_Model p, sp_FirmwareVersion p, sp_ClientVersion p, sp_Source p]"

definition advert_typed :: "AdvertInfo \<Rightarrow> bool" where
  "advert_typed a \<longleftrightarrow> unix_epoch \<le> adv_Timestamp a \<and> adv_Timestamp a < unix_epoch + 2 ^ 32 * second \<and>
     utf8_valid (adv_Name a) \<and> CHR 0x00 \<notin> set (adv_Name a) \<and>
     - (2 ^ 31) \<le> adv_LatE6 a \<and> adv_LatE6 a < 2 ^ 31 \<and> - (2 ^ 31) \<le> adv_LonE6 a \<and> adv_LonE6 a < 2 ^ 31 \<and>
     (\<not> adv_HasLatLon a \<longrightarrow> adv_LatE6 a = 0 \<and> adv_LonE6 a = 0) \<and>
     0 \<le> adv_Feat1 a \<and> adv_Feat1 a < 2 ^ 16 \<and> (\<not> adv_HasFeat1 a \<longrightarrow> adv_Feat1 a = 0) \<and>
     0 \<le> adv_Feat2 a \<and> adv_Feat2 a < 2 ^ 16 \<and> (\<not> adv_HasFeat2 a \<longrightarrow> adv_Feat2 a = 0)"

text \<open>The route is the document's text, or else the parsed frame's; of the packet type see \<open>packet_read\<close>.\<close>

definition packet_typed :: "PacketPayload \<Rightarrow> bool" where
  "packet_typed p \<longleftrightarrow>
     list_all int64_opt_ok [pp_Len p, pp_PayloadLen p, pp_RSSI p, pp_Score p, pp_DurationMS p] \<and>
     utf8_valid (pp_Direction p) \<and> (pp_DecodedType p = None \<longrightarrow> utf8_valid (pp_Route p)) \<and>
     (\<forall>a \<in> set_option (pp_Advert p). advert_typed a) \<and>
     (\<forall>t \<in> set_option (pp_DecodedType p). - (2 ^ 15) \<le> t \<and> t < 2 ^ 15) \<and>
     (\<forall>h \<in> set_option (pp_DestPrefix p). length h = 1) \<and> pp_SourcePrefix p \<noteq> Some [] \<and>
     (\<forall>c \<in> set_option (pp_TransportCodes p). length c = 4) \<and>
     (pp_DecodedType p = None \<longrightarrow> pp_SourcePrefix p = None \<and> pp_DestPrefix p = None \<and> pp_TransportCodes p = None \<and> pp_Advert p = None)"

lemma f64_to_int64_range: "- (2 ^ 63) \<le> f64_to_int64 x \<and> f64_to_int64 x < 2 ^ 63"
  by (cases x) (simp_all add: Let_def)

lemma int64_opt_ok_simps [simp]: "int64_opt_ok None" "int64_opt_ok (atoi s)" "int64_opt_ok (atoiPtr s)"
  "int64_opt_ok (Some (f64_to_int64 x))" "int64_opt_ok (map_option (\<lambda>x. f64_to_int64 (g x)) y)"
  using atoi_range f64_to_int64_range
  by (auto simp: int64_opt_ok_def atoiPtr_def Let_def elim!: option.set_cases)

lemma flexInt_ok: "flexInt txt v = Some x \<Longrightarrow> int64_opt_ok x" and flexInt64_ok: "flexInt64 txt v = Some x \<Longrightarrow> int64_opt_ok x"
proof -
  have "int64_opt_ok (Some i)" if "atoi s = Some i" for s i using int64_opt_ok_simps(2) [of s] that by simp
  then show "flexInt txt v = Some x \<Longrightarrow> int64_opt_ok x" and "flexInt64 txt v = Some x \<Longrightarrow> int64_opt_ok x"
    by (auto simp: flexInt_def flexInt64_def Let_def split: if_splits option.splits)
qed

definition stat_ints :: "statsMessage \<Rightarrow> int option list" where
  "stat_ints m = [sm_UptimeSecs m, sm_BatteryMV m, sm_DebugFlags m, sm_QueueLen m, sm_NoiseFloor m, sm_TxAirSecs m,
     sm_RxAirSecs m, sm_RecvErrors m, sm_LastRSSI m, sm_Errors m]"

lemma set_stat_ints:
  "list_all int64_opt_ok (stat_ints m) \<Longrightarrow> set_stat k t v m = Some m' \<Longrightarrow> list_all int64_opt_ok (stat_ints m')"
  unfolding set_stat_def by (auto simp: stat_ints_def dest!: flexInt_ok flexInt64_ok split: if_split_asm)

lemma set_stats_ints:
  assumes "set_stats v m = Some m'" "list_all int64_opt_ok (stat_ints m)" shows "list_all int64_opt_ok (stat_ints m')"
proof (cases v)
  case (JObj ms)
  then have "set_members set_stat ms m = Some m'" using assms(1) by (simp add: set_stats_def)
  then show ?thesis using assms(2) set_stat_ints by (rule set_members_rule)
qed (use assms in \<open>simp_all add: set_stats_def\<close>)

lemma set_status_ints:
  "list_all int64_opt_ok (stat_ints (sm_Stats m)) \<Longrightarrow> set_status k t v m = Some m' \<Longrightarrow>
    list_all int64_opt_ok (stat_ints (sm_Stats m'))"
  unfolding set_status_def by (auto dest: set_stats_ints split: if_split_asm)

lemma unmarshalStatus_ints:
  assumes "unmarshalStatus payload = Some m" shows "list_all int64_opt_ok (stat_ints (sm_Stats m))"
  using assms
proof (rule unmarshalStatus_rule)
  show "list_all int64_opt_ok (stat_ints (sm_Stats no_status))" by (simp add: stat_ints_def no_status_def no_stats_def)
next
  fix k t v m m'
  assume "list_all int64_opt_ok (stat_ints (sm_Stats m))" "set_status k t v m = Some m'"
  then show "list_all int64_opt_ok (stat_ints (sm_Stats m'))" by (rule set_status_ints)
qed

lemma decodeStatus_typed: "decodeStatus raw = Some p \<Longrightarrow> status_typed p"
proof -
  assume "decodeStatus raw = Some p"
  then obtain m where m: "unmarshalStatus (re_Payload raw) = Some m" and p: "decodeStatus raw = Some p" by (auto simp: decodeStatus_def)
  note ok = unmarshalStatus_ints [OF m] unmarshalStatus_texts [OF m]
  obtain fr bw sf cr where r: "parseRadio (sm_Radio m) = (fr, bw, sf, cr)" by (metis prod_cases4)
  then have "int64_opt_ok fr \<and> int64_opt_ok sf \<and> int64_opt_ok cr" by (auto simp: parseRadio_def Let_def split: if_splits)
  then show ?thesis using p ok
    by (auto simp: decodeStatus_def Let_def m r status_typed_def stat_ints_def status_texts_def pickErrors_def)
qed

lemma DecodeAdvert_typed: "DecodeAdvert mc payload = Some a \<Longrightarrow> advert_typed a"
proof -
  have "0 \<le> uint (w :: 32 word)" "uint (w :: 32 word) * second < 2 ^ 32 * second" for w
    using uint_bounded [of w] by (simp_all add: second_def)
  moreover have "- (2 ^ 31) \<le> sint (w :: 32 word) \<and> sint w < 2 ^ 31" for w
    using sint_ge [of w] sint_lt [of w] by simp
  moreover have "uint (w :: 16 word) < 2 ^ 16" for w using uint_bounded [of w] by simp
  moreover have "utf8_valid (strip_nul (ToValidUTF8 s replacement))" "CHR 0x00 \<notin> set (strip_nul s)" for s
    using utf8_valid_strip_nul ToValidUTF8_valid replacement_valid by (simp_all add: strip_nul_def)
  ultimately show "DecodeAdvert mc payload = Some a \<Longrightarrow> ?thesis"
    by (auto simp: DecodeAdvert_def Let_def advert_typed_def second_def)
qed

lemma PayloadDstHash_length: "PayloadDstHash mc pkt = Some h \<Longrightarrow> length h = 1"
  by (auto simp: PayloadDstHash_def Let_def split: if_splits)

lemma sint16_range: "- (2 ^ 15) \<le> sint (w :: 16 word) \<and> sint w < 2 ^ 15"
  using sint_ge [of w] sint_lt [of w] by simp

lemma add_wire_typed:
  "packet_typed p \<Longrightarrow> packet_typed (add_wire mc pkt p)"
  using PayloadDstHash_length [of mc pkt] NeighborSource_nonempty [of mc pkt] DecodeAdvert_typed [of mc "mc_Payload pkt"]
    sint16_range [of "word_of_nat (mc_PayloadType pkt)"]
  by (auto simp: packet_typed_def add_wire_def le16_def)

lemma decodePacket_typed: "decodePacket mc raw = Some p \<Longrightarrow> packet_typed p"
proof -
  assume "decodePacket mc raw = Some p"
  then obtain m where m: "unmarshalPacket (re_Payload raw) = Some m" and p: "decodePacket mc raw = Some p" by (auto simp: decodePacket_def)
  let ?p = "\<lparr>pp_PacketHash = hex_field (pm_Hash m), pp_Direction = pm_Direction m, pp_PacketType = pm_PacketType m,
              pp_Route = pm_Route m, pp_Len = atoiPtr (pm_Len m), pp_PayloadLen = atoiPtr (pm_PayloadLen m),
              pp_RSSI = atoiPtr (pm_RSSI m), pp_SNR = atofPtr (pm_SNR m), pp_Score = atoiPtr (pm_Score m),
              pp_DurationMS = atoiPtr (pm_Duration m), pp_Raw = hex_field (pm_Raw m), pp_DecodedType = None,
              pp_SourcePrefix = None, pp_DestPrefix = None, pp_TransportCodes = None, pp_Advert = None\<rparr>"
  have "packet_typed ?p" using unmarshalPacket_texts [OF m] by (simp add: packet_typed_def packet_texts_def)
  then show ?thesis using p add_wire_typed [of ?p mc]
    by (auto simp: decodePacket_def Let_def m split: if_splits sum.splits parse_err.splits)
qed

lemma topic_kind:
  assumes "parseTopicHash ''meshcore/'' topic = Some (h, region, kind)"
  shows "length h = 32" and "kind = last (split_on CHR ''/'' topic)"
proof -
  have split: "split_on CHR ''/'' (''meshcore/'' @ s) = ''meshcore'' # split_on CHR ''/'' s" for s
    using split_on_append [of "CHR ''/''" "''meshcore''" s] by simp
  show "length h = 32" using assms by (auto simp: parseTopicHash_def Let_def split: if_splits prod.splits)
  have k: "kind = last (split_on CHR ''/'' (trim_prefix topic ''meshcore/''))"
    using assms by (auto simp: parseTopicHash_def Let_def split: if_splits prod.splits)
  show "kind = last (split_on CHR ''/'' topic)"
  proof (cases "has_prefix topic ''meshcore/''")
    case True
    then obtain s where s: "topic = ''meshcore/'' @ s" unfolding has_prefix_def by (metis append_take_drop_id)
    have "trim_prefix topic ''meshcore/'' = s" unfolding s by (rule trim_prefix_append)
    then show ?thesis using k split [of s] unfolding s by (simp only: last_ConsR split_on_nonempty simp_thms)
  qed (use k in \<open>simp add: trim_prefix_def\<close>)
qed

text \<open>
  The payloads that a document stands for: every field is read from the members of its own name, and
  what the frame adds is there exactly when the raw bytes parse.
\<close>

definition status_read :: "members \<Rightarrow> StatusPayload \<Rightarrow> bool" where
  "status_read ms p \<longleftrightarrow>
     sp_Status p = member_text ''status'' ms \<and> sp_Origin p = member_text ''origin'' ms \<and> sp_Model p = member_text ''model'' ms \<and>
     sp_FirmwareVersion p = member_text ''firmware_version'' ms \<and> sp_ClientVersion p = member_text ''client_version'' ms \<and>
     sp_Source p = member_text ''source'' ms \<and>
     (sp_RadioFreqKHz p, sp_RadioBWKHz p, sp_RadioSF p, sp_RadioCR p) = parseRadio (member_text ''radio'' ms) \<and>
     (let xs = member_object ''stats'' ms in
      sp_UptimeSecs p = member_int ''uptime_secs'' xs \<and> sp_BatteryMV p = member_int ''battery_mv'' xs \<and>
      sp_QueueLen p = member_int ''queue_len'' xs \<and> sp_NoiseFloor p = member_int ''noise_floor'' xs \<and>
      sp_TxAirSecs p = member_int ''tx_air_secs'' xs \<and> sp_RxAirSecs p = member_int ''rx_air_secs'' xs \<and>
      sp_RecvErrors p = (if member_int ''recv_errors'' xs \<noteq> None then member_int ''recv_errors'' xs else member_int ''errors'' xs) \<and>
      sp_LastRSSI p = member_int ''last_rssi'' xs \<and> sp_LastSNR p = member_float ''last_snr'' xs \<and>
      sp_DebugFlags p = member_int ''debug_flags'' xs)"

definition wire_packet :: "mc_library \<Rightarrow> bytes option \<Rightarrow> mc_Packet option" where
  "wire_packet mc b = (case b of
     Some (x # xs) \<Rightarrow> if x = 0xFF then None else mc_PacketFromBytes mc (x # xs) | _ \<Rightarrow> None)"

definition packet_read :: "mc_library \<Rightarrow> members \<Rightarrow> PacketPayload \<Rightarrow> bool" where
  "packet_read mc ms p \<longleftrightarrow>
     pp_PacketHash p = hex_field (member_text ''hash'' ms) \<and> pp_Raw p = hex_field (member_text ''raw'' ms) \<and>
     pp_Direction p = member_text ''direction'' ms \<and>
     pp_Len p = atoiPtr (member_flex ''len'' ms) \<and> pp_PayloadLen p = atoiPtr (member_flex ''payload_len'' ms) \<and>
     pp_RSSI p = atoiPtr (member_flex ''RSSI'' ms) \<and> pp_SNR p = atofPtr (member_flex ''SNR'' ms) \<and>
     pp_Score p = atoiPtr (member_flex ''score'' ms) \<and> pp_DurationMS p = atoiPtr (member_flex ''duration'' ms) \<and>
     (case wire_packet mc (pp_Raw p) of
        None \<Rightarrow> pp_Route p = member_text ''route'' ms \<and> pp_PacketType p = member_flex ''packet_type'' ms \<and>
          pp_DecodedType p = None \<and> pp_SourcePrefix p = None \<and> pp_DestPrefix p = None \<and>
          pp_TransportCodes p = None \<and> pp_Advert p = None
      | Some pkt \<Rightarrow>
          pp_Route p = (if member_text ''route'' ms = [] then mc_RouteTypeString pkt else member_text ''route'' ms) \<and>
          pp_PacketType p = (if member_flex ''packet_type'' ms = [] then mc_PayloadTypeString pkt
            else member_flex ''packet_type'' ms) \<and>
          pp_DecodedType p = Some (sint (word_of_nat (mc_PayloadType pkt) :: 16 word)) \<and>
          pp_SourcePrefix p = NeighborSource mc pkt \<and> pp_DestPrefix p = PayloadDstHash mc pkt \<and>
          pp_TransportCodes p = (if mc_IsTransport pkt then
            Some (map word_of_int [uint (mc_TransportCode1 pkt) mod 256, uint (mc_TransportCode1 pkt) div 256,
              uint (mc_TransportCode2 pkt) mod 256, uint (mc_TransportCode2 pkt) div 256]) else None) \<and>
          pp_Advert p = (if mc_PayloadType pkt = PayloadTypeAdvert mc then DecodeAdvert mc (mc_Payload pkt) else None))"

lemma decodeStatus_read:
  assumes "decodeStatus raw = Some p" shows "status_read (document_members (re_Payload raw)) p"
proof -
  obtain m where m: "unmarshalStatus (re_Payload raw) = Some m" using assms by (auto simp: decodeStatus_def)
  obtain fr bw sf cr where r: "parseRadio (sm_Radio m) = (fr, bw, sf, cr)" by (metis prod_cases4)
  note u = unmarshalStatus_members [OF m refl]
  note st = u(8) [unfolded stats_read_def]
  have p: "p = \<lparr>sp_Status = sm_Status m, sp_Origin = sm_Origin m, sp_Model = sm_Model m,
         sp_FirmwareVersion = sm_FirmwareVersion m, sp_ClientVersion = sm_ClientVersion m,
         sp_Source = sm_Source m, sp_RadioFreqKHz = fr, sp_RadioBWKHz = bw, sp_RadioSF = sf, sp_RadioCR = cr,
         sp_UptimeSecs = sm_UptimeSecs (sm_Stats m), sp_BatteryMV = sm_BatteryMV (sm_Stats m),
         sp_QueueLen = sm_QueueLen (sm_Stats m), sp_NoiseFloor = sm_NoiseFloor (sm_Stats m),
         sp_TxAirSecs = sm_TxAirSecs (sm_Stats m), sp_RxAirSecs = sm_RxAirSecs (sm_Stats m),
         sp_RecvErrors = pickErrors (sm_RecvErrors (sm_Stats m)) (sm_Errors (sm_Stats m)),
         sp_LastRSSI = sm_LastRSSI (sm_Stats m), sp_LastSNR = sm_LastSNR (sm_Stats m),
         sp_DebugFlags = sm_DebugFlags (sm_Stats m)\<rparr>"
    using assms by (simp add: decodeStatus_def m Let_def r)
  show ?thesis
    unfolding status_read_def Let_def p
    by (simp only: StatusPayload.select_convs u(1-7) st r [unfolded u(5)] pickErrors_def simp_thms)
qed

lemma le16_bytes: "le16 w = map word_of_int [uint w mod 256, uint w div 256]"
proof -
  have "ucast w = (word_of_int (uint w mod 256) :: 8 word)"
    by (rule word_uint_eqI) (simp add: uint_word_of_int unsigned_ucast_eq take_bit_eq_mod)
  moreover have "ucast (drop_bit 8 w) = (word_of_int (uint w div 256) :: 8 word)"
    by (rule word_uint_eqI) (simp add: uint_word_of_int unsigned_ucast_eq unsigned_drop_bit_eq drop_bit_eq_div take_bit_eq_mod uint_div)
  ultimately show ?thesis by (simp add: le16_def)
qed

lemma le16_pair: "le16 a @ le16 b =
    map word_of_int [uint a mod 256, uint a div 256, uint b mod 256, uint b div 256]"
  by (simp add: le16_bytes)

lemma Parse_wire:
  "(if slice_len b = 0 then x else case Parse mc (slice_key b) of
      Inr pkt \<Rightarrow> f pkt | Inl ErrDoNotRetransmit \<Rightarrow> x | Inl _ \<Rightarrow> x) =
    (case wire_packet mc b of None \<Rightarrow> x | Some pkt \<Rightarrow> f pkt)"
  by (cases b rule: option.exhaust; cases "slice_key b") (simp_all add: Parse_def wire_packet_def split: option.split)

lemma decodePacket_read:
  assumes "decodePacket mc raw = Some p" shows "packet_read mc (document_members (re_Payload raw)) p"
proof -
  obtain m where m: "unmarshalPacket (re_Payload raw) = Some m" using assms by (auto simp: decodePacket_def)
  note u = unmarshalPacket_members [OF m refl]
  let ?b = "hex_field (pm_Raw m)"
  let ?p = "\<lparr>pp_PacketHash = hex_field (pm_Hash m), pp_Direction = pm_Direction m, pp_PacketType = pm_PacketType m,
              pp_Route = pm_Route m, pp_Len = atoiPtr (pm_Len m), pp_PayloadLen = atoiPtr (pm_PayloadLen m),
              pp_RSSI = atoiPtr (pm_RSSI m), pp_SNR = atofPtr (pm_SNR m), pp_Score = atoiPtr (pm_Score m),
              pp_DurationMS = atoiPtr (pm_Duration m), pp_Raw = ?b, pp_DecodedType = None,
              pp_SourcePrefix = None, pp_DestPrefix = None, pp_TransportCodes = None, pp_Advert = None\<rparr>"
  have p: "p = (case wire_packet mc ?b of None \<Rightarrow> ?p | Some pkt \<Rightarrow> add_wire mc pkt ?p)"
    using assms unfolding decodePacket_def m Let_def option.map option.inject Parse_wire by (rule sym)
  show ?thesis
    unfolding p packet_read_def
    by (cases "wire_packet mc ?b") (simp_all only: option.case PacketPayload.select_convs PacketPayload.update_convs
      add_wire_def u le16_pair simp_thms)
qed

text \<open>C21 (functional): whatever row of the log is decoded, the event carries the id, time and topic of the row, a
  32-byte observer key and the kind that the topic ends with. Every field of its payload is read from
  the last member of the document with the field's own name, and what the wire frame adds (decoded type,
  prefixes, transport codes, advert, and the route and packet type a document leaves empty) is there
  exactly when the raw bytes parse. Integers are 64-bit, the decoded type an \<^verbatim>\<open>int16\<close>, the parts of an
  advert in their 16 or 32 bits; the texts of a status, the direction, the document's route and the
  advert's name are valid UTF-8. The packet type is not always: of a member that is no string the
  text is kept as it stands.\<close>

theorem Decode_reads_document:
  assumes "Decode mc raw = Some e" and "ms = document_members (re_Payload raw)"
  shows "ev_RawID e = re_ID raw \<and> ev_TS e = re_ReceivedAt raw \<and> ev_Topic e = re_Topic raw \<and> length (ev_ObserverID e) = 32 \<and>
    (case ev_Payload e of
       KindStatus p \<Rightarrow> last (split_on CHR ''/'' (re_Topic raw)) = ''status'' \<and> status_read ms p \<and> status_typed p
     | KindPacket p \<Rightarrow> last (split_on CHR ''/'' (re_Topic raw)) = ''packets'' \<and> packet_read mc ms p \<and> packet_typed p)"
proof -
  obtain h region kind where t: "parseTopicHash ''meshcore/'' (re_Topic raw) = Some (h, region, kind)"
    using assms by (auto simp: Decode_def split: option.splits)
  show ?thesis
    using assms topic_kind [OF t] decodeStatus_typed [of raw] decodePacket_typed [of mc raw]
      decodeStatus_read [of raw] decodePacket_read [of mc raw]
    by (auto simp: Decode_def t Let_def split: if_splits)
qed

section \<open>A sample row\<close>

text \<open>A library that parses every frame to an advert with a fixed payload.\<close>

definition sample_mc :: mc_library where
  "sample_mc = \<lparr>mc_PacketFromBytes = (\<lambda>bs. Some \<lparr>mc_PayloadType = 4, mc_PayloadVer = 0, mc_Payload = bs,
       mc_PathHashes = [[7]], mc_IsTransport = False, mc_TransportCode1 = 0, mc_TransportCode2 = 0,
       mc_RouteTypeString = ''FLOOD'', mc_PayloadTypeString = ''ADVERT''\<rparr>),
     mc_AdvertFromBytes = (\<lambda>bs. None), PayloadTypeReq = 0, PayloadTypeResponse = 1, PayloadTypeTxtMsg = 2,
     PayloadTypeAdvert = 4, PayloadTypeGrpTxt = 5, PayloadTypeGrpData = 6, PayloadTypeAnonReq = 7, PayloadTypePath = 8,
     AdvertLatLonMask = 16, AdvertFeat1Mask = 32, AdvertFeat2Mask = 64\<rparr>"

definition quoted :: "string \<Rightarrow> string" where
  "quoted s = CHR 0x22 # s @ [CHR 0x22]"

definition sample_topic :: "string \<Rightarrow> string" where
  "sample_topic kind = ''meshcore/BUF/'' @ replicate 64 CHR ''0'' @ CHR ''/'' # kind"

definition sample_raw :: RawEvent where
  "sample_raw = \<lparr>re_ID = 5, re_ReceivedAt = unix_epoch + 1700000000 * second, re_Broker = [], re_Topic = sample_topic ''packets'',
     re_Payload = ''{}''\<rparr>"

definition status_raw :: RawEvent where
  "status_raw = \<lparr>re_ID = 6, re_ReceivedAt = unix_epoch + 1700000001 * second, re_Broker = [], re_Topic = sample_topic ''status'',
     re_Payload = ''{'' @ quoted ''status'' @ '':'' @ quoted ''online'' @ ''}''\<rparr>"

lemma status_raw_decodes: "case Decode sample_mc status_raw of None \<Rightarrow> False | Some e \<Rightarrow> True"
  by code_simp

lemma Decode_reads_document_witness:
  "\<exists>e p. Decode sample_mc status_raw = Some e \<and> ev_RawID e = 6 \<and> length (ev_ObserverID e) = 32 \<and>
    ev_Payload e = KindStatus p \<and> sp_Status p = ''online'' \<and> status_typed p"
proof -
  obtain e where e: "Decode sample_mc status_raw = Some e" using status_raw_decodes by (auto split: option.splits)
  have k: "last (split_on CHR ''/'' (re_Topic status_raw)) = ''status''" by code_simp
  have t: "member_text ''status'' (document_members (re_Payload status_raw)) = ''online''" by code_simp
  show ?thesis
    using e Decode_reads_document [OF e refl] k t by (cases "ev_Payload e") (auto simp: status_raw_def status_read_def)
qed

text \<open>A hash that is not hexadecimal gives an empty slice that is not nil.\<close>

lemma hash_field_not_hex: "hex_field ''zz'' = Some []"
  by code_simp

end
