(* ===== verification/Projector.thy ===== *)
theory Projector
  imports Project_Store Event_Decoder
begin

text \<open>
  The projector (\<^verbatim>\<open>internal/project/project.go\<close>): the catch-up loop that reads the raw log in
  batches after its cursor, decodes them and runs the pipeline, and the life of the process around
  it, with restarts and resets. The environment answers every round: \<open>rd_events\<close> is the log as the
  fetch of the round finds it (none if the fetch fails) and \<open>rd_io\<close> what the other database does
  with the batch; the rounds that an execution meets are a list.
\<close>

section \<open>Model\<close>

definition batchSize :: nat where "batchSize = 500"

record round =
  rd_events :: "raw_store option"
  rd_io :: io

datatype outcome = CaughtUp | CatchUpFailed err | StillRunning

type_synonym projection = "int \<times> world"

definition batch_events :: "mc_library \<Rightarrow> RawEvent list \<Rightarrow> Event list \<times> int" where
  "batch_events mc raw = fold (\<lambda>r (events, highest).
     (case Decode mc r of None \<Rightarrow> events | Some e \<Rightarrow> events @ [e], re_ID r)) raw ([], 0)"

fun catchUp_loop :: "env \<Rightarrow> mc_library \<Rightarrow> round list \<Rightarrow> projection \<Rightarrow> projection \<times> outcome" where
  "catchUp_loop E mc [] (cursor, w) = ((cursor, w), StillRunning)"
| "catchUp_loop E mc (r # rs) (cursor, w) =
     (case rd_events r of
        None \<Rightarrow> ((cursor, w), CatchUpFailed ConnError)
      | Some d \<Rightarrow>
          (let raw = FetchRawEventsAfter cursor batchSize d in
           if length raw = 0 then ((cursor, w), CaughtUp)
           else let (events, highest) = batch_events mc raw in
             case ProcessBatch E (rd_io r) events projectorName highest w of
               (w', Inl e) \<Rightarrow> ((cursor, w'), CatchUpFailed e)
             | (w', Inr _) \<Rightarrow>
                 if length raw < batchSize then ((highest, w'), CaughtUp)
                 else catchUp_loop E mc rs (highest, w')))"

text \<open>The first query, for the highest id, serves the progress log only, but its failure ends the catch-up.\<close>

definition catchUp :: "env \<Rightarrow> mc_library \<Rightarrow> bool \<Rightarrow> round list \<Rightarrow> projection \<Rightarrow> projection \<times> outcome" where
  "catchUp E mc max_ok rounds p =
     (if \<not> max_ok then (p, CatchUpFailed ConnError) else catchUp_loop E mc rounds p)"

text \<open>
  \<^verbatim>\<open>Run\<close>: the catch-up at the start and one per notification; their errors are logged only. The
  cursor lives in memory from the start on.
\<close>

record wake =
  wk_max :: bool
  wk_rounds :: "round list"

definition Run :: "env \<Rightarrow> mc_library \<Rightarrow> bool \<Rightarrow> wake list \<Rightarrow> world \<Rightarrow> (err + int) \<times> world" where
  "Run E mc load_ok wakes w =
     (case LoadProjectorCursor load_ok projectorName (snd (snd w)) of
        Inl e \<Rightarrow> (Inl e, w)
      | Inr cursor \<Rightarrow>
          (let (cursor', w') = fold (\<lambda>k p. fst (catchUp E mc (wk_max k) (wk_rounds k) p)) wakes (cursor, w)
           in (Inr cursor', w')))"

text \<open>\<^verbatim>\<open>Reset\<close> clears the stages only if the database was reset.\<close>

definition Reset :: "io \<Rightarrow> world \<Rightarrow> world \<times> (err + unit)" where
  "Reset io = (\<lambda>(stages, pl, d).
     case ResetDerivedState io projectorName d of
       (d', Inl e) \<Rightarrow> ((stages, pl, d'), Inl e)
     | (d', Inr _) \<Rightarrow> ((Pipeline_Clear stages, pl, d'), Inr ()))"

section \<open>The log the tables stand for\<close>

text \<open>Messages with a stored receive time in the range of \<^verbatim>\<open>UnixNano\<close>, as server clocks have.\<close>

definition raw_wf :: "RawEvent \<Rightarrow> bool" where
  "raw_wf r \<longleftrightarrow> wf_time (re_ReceivedAt r)"

lemma decodePacket_advert:
  assumes "decodePacket mc raw = Some p" "pp_Advert p = Some a" shows "unix_epoch \<le> adv_Timestamp a"
  using decodePacket_typed [OF assms(1)] assms(2) by (simp add: packet_typed_def advert_typed_def)

lemma Decode_cases:
  assumes "Decode mc raw = Some e"
  shows "ev_TS e = re_ReceivedAt raw"
    and "ev_Payload e = KindPacket p \<Longrightarrow> decodePacket mc raw = Some p \<and> last (split_on CHR ''/'' (re_Topic raw)) = ''packets''"
proof -
  obtain h region kind where t: "parseTopicHash ''meshcore/'' (re_Topic raw) = Some (h, region, kind)"
    using assms by (auto simp: Decode_def split: option.splits)
  show "ev_TS e = re_ReceivedAt raw" using assms by (auto simp: Decode_def t Let_def split: if_splits)
  show "ev_Payload e = KindPacket p \<Longrightarrow> decodePacket mc raw = Some p \<and> last (split_on CHR ''/'' (re_Topic raw)) = ''packets''"
    using assms topic_kind(2) [OF t] by (auto simp: Decode_def t Let_def split: if_splits)
qed

lemma Decode_wf:
  assumes "Decode mc raw = Some e" and "raw_wf raw" shows "event_wf e"
proof -
  have t: "wf_time (ev_TS e)" "0 < ev_TS e"
    using assms Decode_cases(1) [OF assms(1)] wf_time_pos by (auto simp: raw_wf_def)
  have u: "0 < unix_epoch" by (simp add: unix_epoch_def second_def)
  show ?thesis
  proof (cases "ev_Payload e")
    case (KindPacket p)
    note d = Decode_cases(2) [OF assms(1) KindPacket]
    then show ?thesis using t u decodePacket_advert [of mc raw p] d KindPacket
      by (fastforce simp: event_wf_def nodes_wf_def rollup_wf_def advert_of_def)
  qed (use t in \<open>simp add: event_wf_def nodes_wf_def rollup_wf_def advert_of_def\<close>)
qed

lemma decode_all_append: "decode_all mc (xs @ ys) = decode_all mc xs @ decode_all mc ys"
  by (simp add: decode_all_def List.map_filter_def)

lemma decode_all_wf: "list_all raw_wf xs \<Longrightarrow> list_all event_wf (decode_all mc xs)"
  by (induction xs) (auto simp: decode_all_def List.map_filter_simps dest: Decode_wf split: option.splits)

lemma batch_events_eq: "raw \<noteq> [] \<Longrightarrow> batch_events mc raw = (decode_all mc raw, re_ID (last raw))"
proof -
  have "fold (\<lambda>r (events, highest). (case Decode mc r of None \<Rightarrow> events | Some e \<Rightarrow> events @ [e], re_ID r)) xs (es, h) =
    (es @ decode_all mc xs, if xs = [] then h else re_ID (last xs))" for xs es h
    by (induction xs arbitrary: es h) (auto simp: decode_all_def List.map_filter_simps split: option.splits)
  then show "raw \<noteq> [] \<Longrightarrow> ?thesis" by (simp add: batch_events_def)
qed

text \<open>
  The tables and the memory stand for the decoded log up to the cursor, and the cursor row agrees.
\<close>

definition projected :: "env \<Rightarrow> mc_library \<Rightarrow> raw_store \<Rightarrow> int \<Rightarrow> db \<Rightarrow> bool" where
  "projected E mc raw c d \<longleftrightarrow> 0 \<le> c \<and> c \<le> rs_seq raw \<and> map_of (t_projector_state d) projectorName = Some c \<and>
     tables_ok E (decode_all mc (log_upto c raw)) d"

definition in_step :: "env \<Rightarrow> mc_library \<Rightarrow> raw_store \<Rightarrow> int \<Rightarrow> Stage list \<Rightarrow> db \<Rightarrow> bool" where
  "in_step E mc raw c ss d \<longleftrightarrow> projected E mc raw c d \<and> projector_sync E (decode_all mc (log_upto c raw)) [] ss d"

definition log_ok :: "raw_store \<Rightarrow> bool" where
  "log_ok raw \<longleftrightarrow> raw_ok raw \<and> list_all raw_wf (rs_events raw)"

lemma fresh_in_step: "projected E mc raw c d \<Longrightarrow> in_step E mc raw c projector_stages d"
  by (simp add: in_step_def projected_def fresh_stages_sync)

lemma projected_rollback: "projected E mc raw c d \<Longrightarrow> projected E mc raw c (rollback b d)"
  using tables_ok_rollback [of E _ d b] by (simp add: projected_def rollback_def)

text \<open>One committed batch of the loop.\<close>

lemma batch_in_step:
  assumes s: "in_step E mc raw c ss d" and ok: "log_ok raw" "range_order (range_of E)"
    and f: "rows = FetchRawEventsAfter c batchSize raw" "rows \<noteq> []"
    and run: "ProcessBatch E io (decode_all mc rows) projectorName (re_ID (last rows)) (ss, pl, d) = ((ss', pl', d'), Inr ())"
  shows "in_step E mc raw (re_ID (last rows)) ss' d'"
    and "log_after (re_ID (last rows)) raw = drop batchSize (log_after c raw)"
proof -
  let ?h = "re_ID (last rows)"
  have split: "log_after c raw = rows @ drop batchSize (log_after c raw)" by (simp add: f(1) Fetch_log_after)
  have r: "raw_ok raw" using ok(1) by (simp add: log_ok_def)
  note x = log_upto_extend [OF r split f(2)]
  show "log_after ?h raw = drop batchSize (log_after c raw)" by (rule x(2))
  have c: "0 \<le> c" using s by (simp add: in_step_def projected_def)
  have "last rows \<in> set (log_after c raw)" using f(2) split by (metis UnI1 last_in_set set_append)
  then have h: "?h \<le> rs_seq raw" using r by (simp add: log_after_def raw_ok_def)
  have up: "decode_all mc (log_upto ?h raw) = decode_all mc (log_upto c raw) @ decode_all mc rows"
    by (simp add: x(1) decode_all_append)
  have "list_all raw_wf (log_upto ?h raw)" using ok(1) by (auto simp: log_ok_def log_upto_def list_all_iff)
  then have wf: "list_all event_wf (decode_all mc (log_upto c raw) @ [] @ decode_all mc rows)"
    using decode_all_wf up by (metis append_Nil)
  have sync: "projector_sync E (decode_all mc (log_upto c raw)) [] ss d" using s by (simp add: in_step_def)
  have pos: "0 < ?h" using c x(3) by simp
  note b = ProcessBatch_sync [OF run pos ok(2) wf sync refl]
  show "in_step E mc raw ?h ss' d'"
    using b h pos projector_sync_ok [of E _ ss' d'] by (simp add: in_step_def projected_def up update_conv')
qed

section \<open>Catching up\<close>

text \<open>The rounds find the log growing from \<open>raw\<close> on, within \<open>bound\<close>.\<close>

fun rounds_grow :: "raw_store \<Rightarrow> round list \<Rightarrow> raw_store \<Rightarrow> bool" where
  "rounds_grow raw [] bound = raw_extends raw bound"
| "rounds_grow raw (r # rs) bound = (case rd_events r of
     None \<Rightarrow> rounds_grow raw rs bound
   | Some d \<Rightarrow> raw_extends raw d \<and> rounds_grow d rs bound)"

lemma rounds_grow_bound: "rounds_grow raw rs bound \<Longrightarrow> raw_extends raw bound"
  by (induction raw rs bound rule: rounds_grow.induct) (auto split: option.splits dest: raw_extends_trans)

lemma projected_extends:
  assumes "raw_extends a b" "projected E mc a c d" shows "projected E mc b c d"
proof -
  have "c \<le> rs_seq a" "rs_seq a \<le> rs_seq b" using assms by (auto simp: projected_def raw_extends_def)
  with assms(2) log_upto_extends [OF assms(1), of c] show ?thesis by (simp add: projected_def)
qed

lemma in_step_extends:
  assumes "raw_extends a b" "in_step E mc a c ss d" shows "in_step E mc b c ss d"
proof -
  have "c \<le> rs_seq a" using assms(2) by (simp add: in_step_def projected_def)
  with assms projected_extends [OF assms(1), of E mc c d] log_upto_extends [OF assms(1), of c] show ?thesis
    by (simp add: in_step_def)
qed

lemma log_ok_extends: "raw_extends a b \<Longrightarrow> log_ok b \<Longrightarrow> log_ok a"
  by (fastforce simp: raw_extends_def log_ok_def raw_ok_def)

text \<open>Everything the tables hold was committed; a commit that is not acknowledged is committed all the same.\<close>

lemma ProcessBatch_db:
  assumes "ProcessBatch E io es name n (ss, pl, d) = ((ss', pl', d'), r)"
  obtains (kept) "d' = d" "r \<noteq> Inr () \<or> n \<le> 0" | (rolled) "d' = rollback (io_burnt io) d" "r \<noteq> Inr ()"
  | (committed) ss2 pl2 where "ProcessBatch E (io\<lparr>io_commit := Committed\<rparr>) es name n (ss, pl, d) = ((ss2, pl2, d'), Inr ())" "0 < n"
proof -
  have "(d' = d \<and> (r \<noteq> Inr () \<or> n \<le> 0)) \<or> (d' = rollback (io_burnt io) d \<and> r \<noteq> Inr ()) \<or>
    (\<exists>ss2 pl2. ProcessBatch E (io\<lparr>io_commit := Committed\<rparr>) es name n (ss, pl, d) = ((ss2, pl2, d'), Inr ()) \<and> 0 < n)"
    using assms by (auto simp: ProcessBatch_def Let_def split: if_splits prod.splits sum.splits commit.splits)
  then show thesis using that by blast
qed

lemma ProcessBatch_unacknowledged:
  "ProcessBatch E io es name n (ss, pl, d) = ((ss', pl', d'), Inr ()) \<Longrightarrow> 0 < n \<Longrightarrow>
    \<exists>ss2. ProcessBatch E (io\<lparr>io_commit := CommitUnacknowledged\<rparr>) es name n (ss, pl, d) = ((ss2, pl, d'), Inl ConnError)"
  by (auto simp: ProcessBatch_def Let_def split: if_splits prod.splits sum.splits commit.splits)

text \<open>Whatever happens to a batch, the tables stand for a prefix of the log, at the old or the new cursor.\<close>

lemma batch_projected:
  assumes s: "in_step E mc raw c ss d" and ok: "log_ok raw" "range_order (range_of E)"
    and f: "rows = FetchRawEventsAfter c batchSize raw" "rows \<noteq> []"
    and run: "ProcessBatch E io (decode_all mc rows) projectorName (re_ID (last rows)) (ss, pl, d) = ((ss', pl', d'), r)"
  shows "projected E mc raw c d' \<or> projected E mc raw (re_ID (last rows)) d'"
  using run
proof (cases rule: ProcessBatch_db)
  case committed
  from batch_in_step(1) [OF s ok f committed(1)] show ?thesis by (simp add: in_step_def)
qed (use s projected_rollback in \<open>auto simp: in_step_def\<close>)

lemma catchUp_loop_in_step:
  assumes "catchUp_loop E mc rounds (c, ss, pl, d) = ((c', ss', pl', d'), out)"
    and "rounds_grow raw rounds bound" and "log_ok bound" and "range_order (range_of E)" and "in_step E mc raw c ss d"
  shows "(\<exists>n. projected E mc bound n d') \<and>
    ((\<forall>e. out \<noteq> CatchUpFailed e) \<longrightarrow> in_step E mc bound c' ss' d') \<and>
    (out = CaughtUp \<longrightarrow> (\<exists>seen \<in> set (raw # List.map_filter rd_events rounds). log_after c' seen = [] \<and> in_step E mc seen c' ss' d'))"
  using assms
proof (induction rounds arbitrary: raw c ss pl d)
  case Nil
  then have "in_step E mc bound c ss d" using in_step_extends [of raw bound] by simp
  with Nil show ?case by (auto simp: in_step_def)
next
  case (Cons r rs)
  have step: "in_step E mc bound c ss d" by (rule in_step_extends [OF rounds_grow_bound [OF Cons.prems(2)] Cons.prems(5)])
  show ?case
  proof (cases "rd_events r")
    case None
    then show ?thesis using Cons.prems(1) step by (auto simp: in_step_def)
  next
    case (Some seen)
    define rows where "rows = FetchRawEventsAfter c batchSize seen"
    have g: "raw_extends raw seen" "rounds_grow seen rs bound" using Cons.prems(2) Some by auto
    have ok: "log_ok seen" by (rule log_ok_extends [OF rounds_grow_bound [OF g(2)] Cons.prems(3)])
    have s: "in_step E mc seen c ss d" by (rule in_step_extends [OF g(1) Cons.prems(5)])
    have sub: "seen \<in> set (raw # List.map_filter rd_events (r # rs))" by (simp add: Some List.map_filter_simps)
    show ?thesis
    proof (cases "rows = []")
      case True
      then have "log_after c seen = []" by (auto simp: rows_def Fetch_log_after batchSize_def)
      then show ?thesis using Cons.prems(1) True step s sub by (auto simp: Some rows_def in_step_def)
    next
      case False
      let ?h = "re_ID (last rows)"
      obtain ss1 pl1 d1 x where p: "ProcessBatch E (rd_io r) (decode_all mc rows) projectorName ?h (ss, pl, d) = ((ss1, pl1, d1), x)"
        by (metis surj_pair)
      have run: "catchUp_loop E mc (r # rs) (c, ss, pl, d) =
        (case x of Inl e \<Rightarrow> ((c, ss1, pl1, d1), CatchUpFailed e)
         | Inr _ \<Rightarrow> if length rows < batchSize then ((?h, ss1, pl1, d1), CaughtUp) else catchUp_loop E mc rs (?h, ss1, pl1, d1))"
        using False by (simp add: Some batch_events_eq p flip: rows_def split: sum.split)
      show ?thesis
      proof (cases x)
        case (Inl e)
        then have "d' = d1" "out = CatchUpFailed e" using run Cons.prems(1) by simp_all
        then show ?thesis using batch_projected [OF s ok Cons.prems(4) rows_def False p]
            projected_extends [OF rounds_grow_bound [OF g(2)]] by blast
      next
        case (Inr u)
        then have x: "x = Inr ()" by simp
        note b = batch_in_step [OF s ok Cons.prems(4) rows_def False p [unfolded x]]
        show ?thesis
        proof (cases "length rows < batchSize")
          case True
          then have "out = CaughtUp" "c' = ?h" "ss' = ss1" "d' = d1" using run Cons.prems(1) by (simp_all add: x)
          moreover have "log_after ?h seen = []" using True b(2) by (simp add: rows_def Fetch_log_after)
          moreover have "in_step E mc bound ?h ss1 d1" by (rule in_step_extends [OF rounds_grow_bound [OF g(2)] b(1)])
          ultimately show ?thesis using b(1) sub by (auto simp: in_step_def)
        next
          case more: False
          then have "catchUp_loop E mc rs (?h, ss1, pl1, d1) = ((c', ss', pl', d'), out)" using run Cons.prems(1) by (simp add: x)
          from Cons.IH [OF this g(2) Cons.prems(3,4) b(1)]
          show ?thesis by (auto simp: Some List.map_filter_simps)
        qed
      qed
    qed
  qed
qed

text \<open>A full round takes \<open>batchSize\<close> rows off what is left of the log.\<close>

lemma full_round:
  assumes e: "raw_extends seen bound" and f: "rows = FetchRawEventsAfter c batchSize seen" "length rows = batchSize"
  shows "batchSize + length (log_after (re_ID (last rows)) bound) \<le> length (log_after c bound)"
proof -
  let ?h = "re_ID (last rows)"
  have ok: "raw_ok seen" "raw_ok bound" using e by (simp_all add: raw_extends_def)
  have ne: "rows \<noteq> []" using f(2) by (auto simp: batchSize_def)
  have split: "log_after c seen = rows @ drop batchSize (log_after c seen)" by (simp add: f(1) Fetch_log_after)
  note x = log_upto_extend [OF ok(1) split ne]
  have upto: "set rows \<subseteq> set (log_upto ?h seen)" by (simp add: x(1))
  have after: "set rows \<subseteq> set (log_after c seen)" using split by (metis Un_upper1 set_append)
  have "set (rs_events seen) \<subseteq> set (rs_events bound)" using e by (auto simp: raw_extends_def)
  then have "set rows \<subseteq> set (filter (\<lambda>e. re_ID e \<le> ?h) (log_after c bound))"
    using upto after by (auto simp: log_upto_def log_after_def)
  moreover have "distinct (raw_log bound)" using distinct_raw_log [OF ok(2)] by (simp add: distinct_map)
  then have "distinct (filter (\<lambda>e. re_ID e \<le> ?h) (log_after c bound))" by (simp add: log_after_def)
  moreover have "distinct rows"
    using distinct_raw_log [OF ok(1)] by (simp add: f(1) Fetch_log_after log_after_def distinct_map)
  ultimately have "length rows \<le> length (filter (\<lambda>e. re_ID e \<le> ?h) (log_after c bound))"
    by (metis List.finite_set card_mono distinct_card)
  moreover have "log_after ?h bound = filter (\<lambda>e. \<not> re_ID e \<le> ?h) (log_after c bound)"
    unfolding log_after_def filter_filter by (rule filter_cong) (use x(3) in auto)
  ultimately show ?thesis using f(2) sum_length_filter_compl [of "\<lambda>e. re_ID e \<le> ?h" "log_after c bound"] by simp
qed

lemma catchUp_loop_ends:
  "rounds_grow raw rounds bound \<Longrightarrow> length (log_after c bound) < batchSize * length rounds \<Longrightarrow>
    snd (catchUp_loop E mc rounds (c, w)) \<noteq> StillRunning"
proof (induction rounds arbitrary: raw c w)
  case (Cons r rs)
  show ?case
  proof (cases "rd_events r")
    case (Some seen)
    define rows where "rows = FetchRawEventsAfter c batchSize seen"
    have g: "rounds_grow seen rs bound" using Cons.prems(1) Some by auto
    show ?thesis
    proof (cases "length rows = batchSize")
      case True
      then have ne: "rows \<noteq> []" by (auto simp: batchSize_def)
      have "length (log_after (re_ID (last rows)) bound) < batchSize * length rs"
        using full_round [OF rounds_grow_bound [OF g] rows_def True] Cons.prems(2) by simp
      note IH = Cons.IH [OF g this]
      show ?thesis using True ne IH
        by (simp add: Some batch_events_eq flip: rows_def split: prod.split sum.split)
    next
      case False
      have "length rows \<le> batchSize" by (simp add: rows_def FetchRawEventsAfter_def)
      with False have "length rows < batchSize" by simp
      then show ?thesis by (simp add: Some Let_def flip: rows_def split: prod.split sum.split)
    qed
  qed simp
qed simp

text \<open>What was in reach of a fetch stays in reach of it while the log grows.\<close>

lemma fetch_extends:
  assumes "raw_extends raw seen" "r \<in> set (FetchRawEventsAfter c n raw)" shows "r \<in> set (FetchRawEventsAfter c n seen)"
proof -
  let ?q = "rs_seq raw"
  have "log_upto ?q seen = log_upto ?q raw" by (rule log_upto_extends [OF assms(1)]) simp
  moreover have "log_upto ?q raw = raw_log raw"
    using assms(1) by (auto simp: log_upto_def raw_extends_def raw_ok_def filter_id_conv)
  ultimately have "raw_log seen = raw_log raw @ log_after ?q seen" using log_split [of ?q seen] by simp
  then have "log_after c seen = log_after c raw @ filter (\<lambda>e. c < re_ID e) (log_after ?q seen)"
    unfolding log_after_def [of c] by (metis filter_append)
  then show ?thesis using assms(2) by (auto simp: Fetch_log_after)
qed

section \<open>A message that cannot be stored\<close>

text \<open>The tables as they were, up to values drawn from the sequences.\<close>

definition same_but_seqs :: "db \<Rightarrow> db \<Rightarrow> bool" where
  "same_but_seqs d d' \<longleftrightarrow> (\<exists>x y. d' = d\<lparr>t_packet_observations_seq := x, t_anomalies_seq := y\<rparr>)"

lemma same_but_seqs_simps:
  "same_but_seqs d d" "same_but_seqs d d' \<Longrightarrow> same_but_seqs d (rollback b d')"
proof -
  have "d = d\<lparr>t_packet_observations_seq := t_packet_observations_seq d, t_anomalies_seq := t_anomalies_seq d\<rparr>" by simp
  then show "same_but_seqs d d" unfolding same_but_seqs_def by blast
  assume "same_but_seqs d d'"
  then obtain x y where "d' = d\<lparr>t_packet_observations_seq := x, t_anomalies_seq := y\<rparr>" unfolding same_but_seqs_def by blast
  then have "rollback b d' = d\<lparr>t_packet_observations_seq := x + int (fst b), t_anomalies_seq := y + int (snd b)\<rparr>"
    by (simp add: rollback_def)
  then show "same_but_seqs d (rollback b d')" unfolding same_but_seqs_def by blast
qed

definition poisoned :: "mc_library \<Rightarrow> int \<Rightarrow> raw_store \<Rightarrow> bool" where
  "poisoned mc c raw \<longleftrightarrow> (\<exists>r \<in> set (FetchRawEventsAfter c batchSize raw). \<exists>e q. Decode mc r = Some e \<and>
     ev_Payload e = KindPacket q \<and> \<not> packet_row_ok (new_packetRow e q))"

lemma poisoned_batch:
  assumes "poisoned mc c raw" "raw_extends raw seen" "0 \<le> c" "rows = FetchRawEventsAfter c batchSize seen"
  shows "rows \<noteq> []" "0 < re_ID (last rows)"
    and "\<exists>e \<in> set (decode_all mc rows). \<exists>q. ev_Payload e = KindPacket q \<and> \<not> packet_row_ok (new_packetRow e q)"
proof -
  obtain r e q where r: "r \<in> set rows" "Decode mc r = Some e" "ev_Payload e = KindPacket q" "\<not> packet_row_ok (new_packetRow e q)"
    using assms(1,4) fetch_extends [OF assms(2)] unfolding poisoned_def by blast
  then show ne: "rows \<noteq> []" by auto
  have "last rows \<in> set (log_after c seen)"
    using last_in_set [OF ne] in_set_takeD unfolding assms(4) Fetch_log_after by metis
  then show "0 < re_ID (last rows)" using assms(3) by (simp add: log_after_def)
  have "e \<in> set (decode_all mc rows)" using r(1,2) by (force simp: decode_all_def List.map_filter_def)
  then show "\<exists>e \<in> set (decode_all mc rows). \<exists>q. ev_Payload e = KindPacket q \<and> \<not> packet_row_ok (new_packetRow e q)"
    using r(3,4) by blast
qed

lemma catchUp_poisoned:
  assumes "poisoned mc c raw" "0 \<le> c" "has_packets ss" "same_but_seqs d0 d"
    and "\<forall>x \<in> set rounds. \<forall>seen. rd_events x = Some seen \<longrightarrow> raw_extends raw seen"
    and "catchUp E mc max_ok rounds (c, ss, pl, d) = ((c', ss', pl', d'), out)"
  shows "c' = c \<and> pl' = pl \<and> has_packets ss' \<and> same_but_seqs d0 d' \<and> out \<noteq> CaughtUp"
proof (cases "\<not> max_ok \<or> rounds = [] \<or> rd_events (hd rounds) = None")
  case True
  then show ?thesis using assms(3,4,6) by (cases rounds) (auto simp: catchUp_def split: if_splits)
next
  case False
  then obtain x rs seen where x: "rounds = x # rs" "rd_events x = Some seen" "max_ok" by (cases rounds) auto
  define rows where "rows = FetchRawEventsAfter c batchSize seen"
  have "raw_extends raw seen" using assms(5) x by simp
  note b = poisoned_batch [OF assms(1) this assms(2) rows_def]
  obtain ss1 pl1 d1 r where p: "ProcessBatch E (rd_io x) (decode_all mc rows) projectorName (re_ID (last rows)) (ss, pl, d) = ((ss1, pl1, d1), r)"
    by (metis surj_pair)
  from b(3) obtain e q where e: "e \<in> set (decode_all mc rows)" "ev_Payload e = KindPacket q" "\<not> packet_row_ok (new_packetRow e q)" by blast
  from ProcessBatch_poison [OF p b(2) assms(3) e] obtain err where
    r: "r = Inl err" "pl1 = pl" "has_packets ss1" "d1 = d \<or> d1 = rollback (io_burnt (rd_io x)) d" by blast
  have "catchUp_loop E mc rounds (c, ss, pl, d) = ((c, ss1, pl1, d1), CatchUpFailed err)"
    using b(1) by (simp add: x batch_events_eq p r(1) flip: rows_def)
  moreover have "same_but_seqs d0 d1" using r(4) assms(4) same_but_seqs_simps(2) by blast
  ultimately show ?thesis using assms(6) r(1-3) x(3) by (auto simp: catchUp_def)
qed

lemma wakes_poisoned:
  assumes "poisoned mc c raw" "0 \<le> c"
    and "\<forall>k \<in> set wakes. \<forall>x \<in> set (wk_rounds k). \<forall>seen. rd_events x = Some seen \<longrightarrow> raw_extends raw seen"
    and "has_packets ss" "same_but_seqs d0 d"
    and "fold (\<lambda>k p. fst (catchUp E mc (wk_max k) (wk_rounds k) p)) wakes (c, ss, pl, d) = (c', ss', pl', d')"
  shows "c' = c \<and> pl' = pl \<and> same_but_seqs d0 d'"
  using assms(3-6)
proof (induction wakes arbitrary: ss d)
  case (Cons k wakes)
  obtain c1 ss1 pl1 d1 out where k: "catchUp E mc (wk_max k) (wk_rounds k) (c, ss, pl, d) = ((c1, ss1, pl1, d1), out)"
    by (metis surj_pair)
  have "c1 = c \<and> pl1 = pl \<and> has_packets ss1 \<and> same_but_seqs d0 d1"
    using catchUp_poisoned [OF assms(1,2) Cons.prems(2,3) _ k] Cons.prems(1) by auto
  with Cons.IH [of ss1 d1] Cons.prems(1,4) k show ?case by auto
qed simp

section \<open>A sample log\<close>

definition sample_store :: raw_store where
  "sample_store = \<lparr>rs_events = [sample_raw, status_raw], rs_seq = 6\<rparr>"

definition sample_round :: round where
  "sample_round = \<lparr>rd_events = Some sample_store, rd_io = sample_io\<rparr>"

definition caught_up :: "projection \<times> outcome \<Rightarrow> bool" where
  "caught_up r = (case snd r of CaughtUp \<Rightarrow> True | _ \<Rightarrow> False)"

lemma caught_upE: "caught_up r \<Longrightarrow> (\<And>c ss pl d. r = ((c, ss, pl, d), CaughtUp) \<Longrightarrow> thesis) \<Longrightarrow> thesis"
  by (cases r) (auto simp: caught_up_def split: outcome.splits)

definition plain_packet :: Event where
  "plain_packet = \<lparr>ev_RawID = 5, ev_TS = sample_time, ev_ObserverID = replicate 32 0, ev_Topic = sample_topic ''packets'',
     ev_Region = ''BUF'', ev_Payload = KindPacket \<lparr>pp_PacketHash = None, pp_Direction = [], pp_PacketType = [], pp_Route = [],
       pp_Len = None, pp_PayloadLen = None, pp_RSSI = None, pp_SNR = None, pp_Score = None, pp_DurationMS = None, pp_Raw = None,
       pp_DecodedType = None, pp_SourcePrefix = None, pp_DestPrefix = None, pp_TransportCodes = None, pp_Advert = None\<rparr>\<rparr>"

lemma Decode_sample_raw: "Decode sample_mc sample_raw = Some plain_packet"
  by code_simp

definition plain_status :: Event where
  "plain_status = \<lparr>ev_RawID = 6, ev_TS = sample_time + second, ev_ObserverID = replicate 32 0, ev_Topic = sample_topic ''status'',
     ev_Region = ''BUF'', ev_Payload = KindStatus \<lparr>sp_Status = ''online'', sp_Origin = [], sp_Model = [], sp_FirmwareVersion = [],
       sp_ClientVersion = [], sp_Source = [], sp_RadioFreqKHz = None, sp_RadioBWKHz = None, sp_RadioSF = None, sp_RadioCR = None,
       sp_UptimeSecs = None, sp_BatteryMV = None, sp_QueueLen = None, sp_NoiseFloor = None, sp_TxAirSecs = None,
       sp_RxAirSecs = None, sp_RecvErrors = None, sp_LastRSSI = None, sp_LastSNR = None, sp_DebugFlags = None\<rparr>\<rparr>"

lemma Decode_status_raw: "Decode sample_mc status_raw = Some plain_status"
  by code_simp

lemma sample_batch: "succeeds (ProcessBatch sample_env sample_io [plain_packet, plain_status] projectorName 6 sample_world)"
  by code_simp

lemma decode_sample: "decode_all sample_mc [sample_raw, status_raw] = [plain_packet, plain_status]"
  by (simp add: decode_all_def List.map_filter_simps Decode_sample_raw Decode_status_raw)

lemma sample_rows: "FetchRawEventsAfter 0 batchSize sample_store = [sample_raw, status_raw]"
  by (simp add: FetchRawEventsAfter_def sample_store_def sample_raw_def status_raw_def batchSize_def)

lemma sample_small: "2 < batchSize"
  by (simp add: batchSize_def)

lemma sample_catchUp: "caught_up (catchUp sample_env sample_mc True [sample_round] (0, sample_world))"
proof -
  obtain w where w: "ProcessBatch sample_env sample_io [plain_packet, plain_status] projectorName 6 sample_world = (w, Inr ())"
    using sample_batch by (auto elim: succeedsE)
  have id: "re_ID status_raw = 6" by (simp add: status_raw_def)
  have "catchUp sample_env sample_mc True [sample_round] (0, sample_world) = ((6, w), CaughtUp)"
    using sample_small by (simp add: catchUp_def sample_round_def sample_rows batch_events_eq decode_sample w id)
  then show ?thesis by (simp add: caught_up_def)
qed

lemma sample_times: "re_ReceivedAt sample_raw = sample_time" "re_ReceivedAt status_raw = sample_time + second"
  by (simp_all add: sample_raw_def status_raw_def sample_time_def second_def)

lemma sample_store_ok: "log_ok sample_store"
proof -
  have "wf_time sample_time" "wf_time (sample_time + second)"
    using sample_events_wf by (auto simp: event_wf_def rollup_wf_def status_event_def quiet_event_def packet_event_def)
  then have "raw_wf sample_raw" "raw_wf status_raw" by (simp_all add: raw_wf_def sample_times)
  then show ?thesis by (simp add: log_ok_def raw_ok_def sample_store_def) (simp add: sample_raw_def status_raw_def)
qed

lemma sample_in_step: "in_step sample_env sample_mc sample_store 0 projector_stages empty_db"
proof -
  have "log_upto 0 sample_store = []"
    using sample_store_ok by (auto simp: log_upto_def filter_empty_conv log_ok_def raw_ok_def)
  moreover have "map_of (t_projector_state empty_db) projectorName = Some 0" by (simp add: empty_db_def projectorName_def)
  ultimately show ?thesis
    by (intro fresh_in_step) (simp add: projected_def decode_all_def List.map_filter_simps empty_tables_ok, simp add: sample_store_def)
qed

section \<open>Properties of a catch-up\<close>

text \<open>C3 (refinement): a catch-up that reports success has projected the whole log as one of its rounds found
  it: the cursor row is the cursor of the memory, no row of that log is beyond it, and every table
  is what its stage promises of the decoded log, each event once.\<close>

theorem catchUp_projects_log:
  assumes "catchUp E mc max_ok rounds (c, ss, pl, d) = ((c', ss', pl', d'), CaughtUp)"
    and "in_step E mc raw c ss d" and "rounds_grow raw rounds bound" and "log_ok bound" and "range_order (range_of E)"
  shows "map_of (t_projector_state d') projectorName = Some c' \<and>
    (\<exists>seen \<in> set (raw # List.map_filter rd_events rounds). log_after c' seen = [] \<and> tables_ok E (decode_all mc (raw_log seen)) d')"
proof -
  have "catchUp_loop E mc rounds (c, ss, pl, d) = ((c', ss', pl', d'), CaughtUp)"
    using assms(1) by (simp add: catchUp_def split: if_splits)
  from catchUp_loop_in_step [OF this assms(3,4,5,2)]
  obtain seen where seen: "seen \<in> set (raw # List.map_filter rd_events rounds)" "log_after c' seen = []" "in_step E mc seen c' ss' d'"
    by blast
  have "raw_log seen = log_upto c' seen" using log_split [of c' seen] seen(2) by simp
  with seen show ?thesis by (auto simp: in_step_def projected_def)
qed


lemma catchUp_projects_log_witness:
  "\<exists>c ss pl d. catchUp sample_env sample_mc True [sample_round] (0, sample_world) = ((c, ss, pl, d), CaughtUp) \<and>
    map_of (t_projector_state d) projectorName = Some c \<and> tables_ok sample_env [plain_packet, plain_status] d"
proof -
  obtain c ss pl d where run: "catchUp sample_env sample_mc True [sample_round] (0, sample_world) = ((c, ss, pl, d), CaughtUp)"
    using sample_catchUp by (rule caught_upE)
  have g: "rounds_grow sample_store [sample_round] sample_store"
    using sample_store_ok by (simp add: sample_round_def log_ok_def)
  have "raw_log sample_store = [sample_raw, status_raw]"
    by (simp add: raw_log_def sample_store_def sample_raw_def status_raw_def)
  then show ?thesis
    using catchUp_projects_log [OF run [unfolded sample_world_def] sample_in_step g sample_store_ok sample_range] run
    by (simp add: List.map_filter_simps sample_round_def decode_sample)
qed

text \<open>C4 (safety): however a catch-up ends, by an error of any query, statement or commit included, and even
  with a commit whose acknowledgement was lost, the tables stand for exactly the log up to the
  cursor row: nothing is skipped and nothing is counted twice.\<close>

theorem catchUp_prefix:
  assumes "catchUp E mc max_ok rounds (c, ss, pl, d) = ((c', ss', pl', d'), out)"
    and "in_step E mc raw c ss d" and "rounds_grow raw rounds bound" and "log_ok bound" and "range_order (range_of E)"
  shows "\<exists>n. map_of (t_projector_state d') projectorName = Some n \<and> tables_ok E (decode_all mc (log_upto n bound)) d'"
proof (cases max_ok)
  case True
  then have "catchUp_loop E mc rounds (c, ss, pl, d) = ((c', ss', pl', d'), out)" using assms(1) by (simp add: catchUp_def)
  from catchUp_loop_in_step [OF this assms(3,4,5,2)] show ?thesis by (auto simp: projected_def)
next
  case False
  then have "d' = d" using assms(1) by (simp add: catchUp_def)
  moreover have "projected E mc bound c d"
    using in_step_extends [OF rounds_grow_bound [OF assms(3)] assms(2)] by (simp add: in_step_def)
  ultimately show ?thesis by (auto simp: projected_def)
qed


lemma catchUp_prefix_witness:
  "\<exists>p out n. catchUp sample_env sample_mc True [sample_round\<lparr>rd_io := sample_io\<lparr>io_commit := CommitUnacknowledged\<rparr>\<rparr>]
      (0, sample_world) = (p, out) \<and>
    map_of (t_projector_state (snd (snd (snd p)))) projectorName = Some n \<and>
    tables_ok sample_env (decode_all sample_mc (log_upto n sample_store)) (snd (snd (snd p)))"
proof -
  let ?rs = "[sample_round\<lparr>rd_io := sample_io\<lparr>io_commit := CommitUnacknowledged\<rparr>\<rparr>]"
  obtain c ss pl d out where run: "catchUp sample_env sample_mc True ?rs (0, projector_stages, \<lparr>pl_sent = [], pl_ok = []\<rparr>, empty_db) = ((c, ss, pl, d), out)"
    by (metis surj_pair)
  have g: "rounds_grow sample_store ?rs sample_store"
    using sample_store_ok by (simp add: sample_round_def log_ok_def)
  show ?thesis
    using catchUp_prefix [OF run sample_in_step g sample_store_ok sample_range] run unfolding sample_world_def by fastforce
qed

text \<open>C5 (termination): a catch-up ends within one round more than the full batches of what is left of the log,
  whatever the database answers, as long as the log stays within a bound.\<close>

theorem catchUp_terminates:
  assumes "rounds_grow raw rounds bound" and "length (log_after c bound) < batchSize * length rounds"
  shows "snd (catchUp E mc max_ok rounds (c, w)) \<noteq> StillRunning"
  using catchUp_loop_ends [OF assms] by (simp add: catchUp_def)


lemma catchUp_terminates_witness:
  "snd (catchUp sample_env sample_mc True [sample_round\<lparr>rd_io := sample_io\<lparr>io_fuse := Some 0\<rparr>\<rparr>] (0, sample_world)) \<noteq> StillRunning"
proof (rule catchUp_terminates [of sample_store _ sample_store])
  show "rounds_grow sample_store [sample_round\<lparr>rd_io := sample_io\<lparr>io_fuse := Some 0\<rparr>\<rparr>] sample_store"
    using sample_store_ok by (simp add: sample_round_def log_ok_def)
  show "length (log_after 0 sample_store) < batchSize * length [sample_round\<lparr>rd_io := sample_io\<lparr>io_fuse := Some 0\<rparr>\<rparr>]"
    by (simp add: log_after_def raw_log_def sample_store_def batchSize_def sample_raw_def status_raw_def)
qed

text \<open>C23 (error): one captured packet whose row violates a column blocks the projection for good, be it
  a text with a NUL, which JSON may escape, or a number beyond the column's 32 bits. As long as it is
  among the next 500 messages after the cursor, no run of the projector, with whatever number of
  wake-ups, growth of the log and answers of the database, and whatever its stages remember of earlier
  attempts, moves the cursor, changes a table or notifies anyone.\<close>

theorem poison_packet_blocks:
  assumes "r \<in> set (FetchRawEventsAfter c batchSize raw)" and "Decode mc r = Some e" and "ev_Payload e = KindPacket q"
    and "\<not> packet_row_ok (new_packetRow e q)"
    and "map_of (t_projector_state d) projectorName = Some c" and "0 \<le> c" and "StPackets p \<in> set ss"
    and "\<forall>k \<in> set wakes. \<forall>x \<in> set (wk_rounds k). \<forall>seen. rd_events x = Some seen \<longrightarrow> raw_extends raw seen"
    and "Run E mc True wakes (ss, pl, d) = (res, (ss', pl', d'))"
  shows "res = Inr c \<and> pl' = pl \<and> (\<exists>x y. d' = d\<lparr>t_packet_observations_seq := x, t_anomalies_seq := y\<rparr>)"
proof -
  have "poisoned mc c raw" using assms(1-4) unfolding poisoned_def by blast
  moreover have "has_packets ss" using assms(7) by (auto simp: has_packets_def)
  moreover obtain c1 ss1 pl1 d1 where f:
    "fold (\<lambda>k p. fst (catchUp E mc (wk_max k) (wk_rounds k) p)) wakes (c, ss, pl, d) = (c1, ss1, pl1, d1)" by (rule prod_cases4)
  ultimately have "c1 = c \<and> pl1 = pl \<and> same_but_seqs d d1"
    using wakes_poisoned [OF _ assms(6,8) _ same_but_seqs_simps(1)] by blast
  moreover have "Run E mc True wakes (ss, pl, d) = (Inr c1, ss1, pl1, d1)"
    by (simp only: Run_def LoadProjectorCursor_def assms(5) f snd_conv option.case sum.case if_True if_False not_True_eq_False Let_def prod.case)
  ultimately show ?thesis using assms(9) by (simp add: same_but_seqs_def)
qed

text \<open>A packet whose direction is the escaped NUL.\<close>

definition nul_raw :: RawEvent where
  "nul_raw = sample_raw\<lparr>re_Payload := ''{'' @ quoted ''direction'' @ '':'' @ quoted (CHR 0x5C # ''u0000'') @ ''}''\<rparr>"

lemma nul_document: "parse_document (re_Payload nul_raw) =
    Some (JObj [(''direction'', quoted (CHR 0x5C # ''u0000''), JStr [CHR 0x00])])"
  by code_simp

lemma nul_topic: "parseTopicHash ''meshcore/'' (re_Topic nul_raw) = Some (replicate 32 0, ''BUF'', ''packets'')"
  by code_simp

lemma nul_raw_decodes:
  obtains e q where "Decode sample_mc nul_raw = Some e" "ev_Payload e = KindPacket q" "\<not> packet_row_ok (new_packetRow e q)"
proof -
  let ?m = "no_packet\<lparr>pm_Direction := [CHR 0x00]\<rparr>"
  have "unmarshalPacket (re_Payload nul_raw) = Some ?m"
    by (simp add: unmarshalPacket_def nul_document set_packet_def field_matches_fold fold_packet_names set_text_def)
  moreover have "hex_field (pm_Raw ?m) = None" by (simp add: no_packet_def hex_field_def)
  ultimately obtain q where q: "decodePacket sample_mc nul_raw = Some q" "pp_Direction q = [CHR 0x00]"
    by (simp add: decodePacket_def Let_def)
  obtain e where e: "Decode sample_mc nul_raw = Some e" "ev_Payload e = KindPacket q"
    using q(1) by (simp add: Decode_def nul_topic)
  have "\<not> packet_row_ok (new_packetRow e q)" using q(2) by (simp add: packet_row_ok_def new_packetRow_def text_ok_def)
  with e show thesis by (rule that)
qed

lemma poison_packet_blocks_witness:
  "fst (Run sample_env sample_mc True [\<lparr>wk_max = True, wk_rounds = [\<lparr>rd_events = Some \<lparr>rs_events = [nul_raw, status_raw], rs_seq = 6\<rparr>,
      rd_io = sample_io\<rparr>]\<rparr>] sample_world) = Inr 0"
proof -
  let ?raw = "\<lparr>rs_events = [nul_raw, status_raw], rs_seq = 6\<rparr>"
  let ?w = "[\<lparr>wk_max = True, wk_rounds = [\<lparr>rd_events = Some ?raw, rd_io = sample_io\<rparr>]\<rparr>]"
  obtain e q where e: "Decode sample_mc nul_raw = Some e" "ev_Payload e = KindPacket q" "\<not> packet_row_ok (new_packetRow e q)"
    by (rule nul_raw_decodes)
  have f: "nul_raw \<in> set (FetchRawEventsAfter 0 batchSize ?raw)"
    by (simp add: FetchRawEventsAfter_def nul_raw_def sample_raw_def status_raw_def batchSize_def)
  have g: "raw_extends ?raw ?raw" by (simp add: raw_ok_def nul_raw_def sample_raw_def status_raw_def)
  obtain res ss' pl' d' where r: "Run sample_env sample_mc True ?w (projector_stages, \<lparr>pl_sent = [], pl_ok = []\<rparr>, empty_db) = (res, ss', pl', d')"
    by (metis surj_pair)
  have "map_of (t_projector_state empty_db) projectorName = Some 0" by (simp add: empty_db_def projectorName_def)
  moreover have "StPackets NewPacketObservations \<in> set projector_stages" by (simp add: projector_stages_def)
  ultimately have "res = Inr 0" using poison_packet_blocks [OF f e _ _ _ _ r] g by auto
  then show ?thesis using r by (simp add: sample_world_def)
qed

end
