(* ===== verification/Project_System.thy ===== *)
theory Project_System
  imports Projector
begin

text \<open>
  The ingest writer and the projector together, over the two databases they share: messages are
  captured, a projector process starts at the stored cursor, works batch by batch, and may be
  stopped or die at any moment, also inside a batch; between two lives of the process the derived
  state may be reset. The life of the process is that of \<^verbatim>\<open>Run\<close> and \<^verbatim>\<open>catchUp\<close>, one batch a step.
\<close>

section \<open>Model\<close>

record sys =
  sy_raw :: raw_store
  sy_db :: db
  sy_pool :: pool
  sy_proc :: "(int \<times> Stage list) option"

datatype action = Capture "RawEventInput list" | StartRun | ResetRun io | BatchDone io | BatchFailed io
  | CrashInBatch io | Stop

text \<open>The batch that the running process with cursor \<open>c\<close> would take next.\<close>

definition run_batch :: "env \<Rightarrow> mc_library \<Rightarrow> io \<Rightarrow> int \<Rightarrow> Stage list \<Rightarrow> sys \<Rightarrow> (int \<times> world \<times> (err + unit)) option" where
  "run_batch E mc io c ss s =
     (let rows = FetchRawEventsAfter c batchSize (sy_raw s) in
      if rows = [] then None
      else let (events, highest) = batch_events mc rows in
        Some (highest, ProcessBatch E io events projectorName highest (ss, sy_pool s, sy_db s)))"

inductive sys_step :: "env \<Rightarrow> mc_library \<Rightarrow> sys \<Rightarrow> action \<Rightarrow> sys \<Rightarrow> bool" for E mc where
  capture: "InsertRawEvents alloc copy msgs (sy_raw s) = (raw', r) \<Longrightarrow>
     sys_step E mc s (Capture msgs) (s\<lparr>sy_raw := raw'\<rparr>)"
| start_run: "sy_proc s = None \<Longrightarrow> LoadProjectorCursor True projectorName (sy_db s) = Inr c \<Longrightarrow>
     sys_step E mc s StartRun (s\<lparr>sy_proc := Some (c, projector_stages)\<rparr>)"
| reset_run: "sy_proc s = None \<Longrightarrow> ResetDerivedState io projectorName (sy_db s) = (db', r) \<Longrightarrow>
     sys_step E mc s (ResetRun io) (s\<lparr>sy_db := db'\<rparr>)"
| batch_done: "sy_proc s = Some (c, ss) \<Longrightarrow> run_batch E mc io c ss s = Some (h, (ss', pl', db'), Inr ()) \<Longrightarrow>
     sys_step E mc s (BatchDone io) (s\<lparr>sy_db := db', sy_pool := pl', sy_proc := Some (h, ss')\<rparr>)"
| batch_failed: "sy_proc s = Some (c, ss) \<Longrightarrow> run_batch E mc io c ss s = Some (h, (ss', pl', db'), Inl e) \<Longrightarrow>
     sys_step E mc s (BatchFailed io) (s\<lparr>sy_db := db', sy_pool := pl', sy_proc := Some (c, ss')\<rparr>)"
| crash_in_batch: "sy_proc s = Some (c, ss) \<Longrightarrow> run_batch E mc io c ss s = Some (h, (ss', pl', db'), r) \<Longrightarrow>
     sys_step E mc s (CrashInBatch io) (s\<lparr>sy_db := db', sy_pool := pl', sy_proc := None\<rparr>)"
| stop: "sys_step E mc s Stop (s\<lparr>sy_proc := None\<rparr>)"

inductive_cases sys_stepE: "sys_step E mc s a t"

definition init_sys :: sys where
  "init_sys = \<lparr>sy_raw = \<lparr>rs_events = [], rs_seq = 0\<rparr>, sy_db = empty_db, sy_pool = \<lparr>pl_sent = [], pl_ok = []\<rparr>, sy_proc = None\<rparr>"

text \<open>The states that actions from a set lead to.\<close>

inductive reaches :: "env \<Rightarrow> mc_library \<Rightarrow> (action \<Rightarrow> bool) \<Rightarrow> sys \<Rightarrow> bool" for E mc P where
  init: "reaches E mc P init_sys"
| step: "reaches E mc P s \<Longrightarrow> sys_step E mc s a t \<Longrightarrow> P a \<Longrightarrow> reaches E mc P t"

text \<open>
  The executions in which the process does not outlive a failed batch: one that goes on after a
  failure repeats the batch. And those whose messages are stamped by a clock whose instants, as the log
  stores them, are in the range of \<^verbatim>\<open>UnixNano\<close> (years 1678 to 2262), in which the stages key their buckets.
\<close>

fun fail_stop :: "action \<Rightarrow> bool" where
  "fail_stop (BatchFailed io) = False"
| "fail_stop _ = True"

fun server_clock :: "action \<Rightarrow> bool" where
  "server_clock (Capture msgs) = list_all (\<lambda>m. wf_time (timestamptz (ri_ReceivedAt m))) msgs"
| "server_clock _ = True"

abbreviation regular :: "action \<Rightarrow> bool" where
  "regular \<equiv> \<lambda>a. fail_stop a \<and> server_clock a"

section \<open>The invariant\<close>

definition sys_ok :: "env \<Rightarrow> mc_library \<Rightarrow> sys \<Rightarrow> bool" where
  "sys_ok E mc s \<longleftrightarrow> log_ok (sy_raw s) \<and>
     (case sy_proc s of
        None \<Rightarrow> \<exists>c. projected E mc (sy_raw s) c (sy_db s)
      | Some (c, ss) \<Rightarrow> in_step E mc (sy_raw s) c ss (sy_db s))"

lemma sys_ok_projected: "sys_ok E mc s \<Longrightarrow> \<exists>c. projected E mc (sy_raw s) c (sy_db s)"
  by (auto simp: sys_ok_def in_step_def split: option.splits prod.splits)

lemma projected_start: "log_ok raw \<Longrightarrow> tables_ok E [] d \<Longrightarrow> map_of (t_projector_state d) projectorName = Some 0 \<Longrightarrow>
    projected E mc raw 0 d"
proof -
  assume a: "log_ok raw" "tables_ok E [] d" "map_of (t_projector_state d) projectorName = Some 0"
  have "log_upto 0 raw = []" using a(1) by (auto simp: log_upto_def filter_empty_conv log_ok_def raw_ok_def)
  with a show ?thesis by (simp add: projected_def log_ok_def raw_ok_def decode_all_def List.map_filter_simps)
qed

lemma sys_ok_init: "sys_ok E mc init_sys"
proof -
  have "log_ok (sy_raw init_sys)" by (simp add: init_sys_def log_ok_def raw_ok_def)
  moreover have "map_of (t_projector_state empty_db) projectorName = Some 0" by (simp add: empty_db_def projectorName_def)
  ultimately show ?thesis
    using projected_start [OF _ empty_tables_ok] by (auto simp: sys_ok_def init_sys_def)
qed

lemma sys_ok_capture:
  assumes "sys_ok E mc s" "InsertRawEvents alloc copy msgs (sy_raw s) = (raw', r)" "server_clock (Capture msgs)"
  shows "sys_ok E mc (s\<lparr>sy_raw := raw'\<rparr>)"
proof -
  have ok: "raw_ok (sy_raw s)" "list_all raw_wf (rs_events (sy_raw s))" using assms(1) by (simp_all add: sys_ok_def log_ok_def)
  note i = InsertRawEvents_extends [OF ok(1) assms(2)]
  have "raw_wf (raw_row i m)" if "m \<in> set msgs" for i m
    using assms(3) that by (auto simp: list_all_iff raw_wf_def raw_row_def)
  then have "log_ok raw'" using i(1,3) ok(2) by (force simp: log_ok_def list_all_iff)
  moreover have "\<exists>c. projected E mc raw' c (sy_db s)" using sys_ok_projected [OF assms(1)] projected_extends [OF i(2)] by blast
  ultimately show ?thesis
    using assms(1) in_step_extends [OF i(2)] by (auto simp: sys_ok_def split: option.splits)
qed

lemma run_batch_Some:
  "run_batch E mc io c ss s = Some (h, w, r) \<longleftrightarrow>
    (\<exists>rows. rows = FetchRawEventsAfter c batchSize (sy_raw s) \<and> rows \<noteq> [] \<and> h = re_ID (last rows) \<and>
      ProcessBatch E io (decode_all mc rows) projectorName h (ss, sy_pool s, sy_db s) = (w, r))"
  by (auto simp: run_batch_def Let_def batch_events_eq)

lemma sys_ok_step:
  assumes "sys_step E mc s a t" "regular a" "range_order (range_of E)" "sys_ok E mc s" shows "sys_ok E mc t"
  using assms(1)
proof (cases rule: sys_step.cases)
  case capture
  then show ?thesis using assms(2,4) sys_ok_capture by simp
next
  case (start_run c)
  obtain c' where "projected E mc (sy_raw s) c' (sy_db s)" using sys_ok_projected [OF assms(4)] by blast
  then have "projected E mc (sy_raw s) c (sy_db s)"
    using start_run(4) by (auto simp: LoadProjectorCursor_def projected_def split: option.splits)
  then show ?thesis using assms(4) fresh_in_step start_run by (simp add: sys_ok_def)
next
  case (reset_run io db' r)
  obtain c where p: "projected E mc (sy_raw s) c (sy_db s)" using sys_ok_projected [OF assms(4)] by blast
  have "projected E mc (sy_raw s) 0 (reset_db projectorName (sy_db s))"
    using assms(4) p tables_ok_reset reset_cursor [of projectorName "sy_db s"]
    by (intro projected_start) (auto simp: sys_ok_def projected_def)
  then have "\<exists>c. projected E mc (sy_raw s) c db'" using ResetDerivedState_db [OF reset_run(4)] p by auto
  then show ?thesis using assms(4) reset_run by (simp add: sys_ok_def)
next
  case (batch_done c ss io h ss' pl' db')
  then have s: "in_step E mc (sy_raw s) c ss (sy_db s)" "log_ok (sy_raw s)" using assms(4) by (simp_all add: sys_ok_def)
  then show ?thesis
    using batch_in_step(1) [OF s assms(3) refl] batch_done by (auto simp: run_batch_Some sys_ok_def)
next
  case batch_failed
  then show ?thesis using assms(2) by simp
next
  case (crash_in_batch c ss io h ss' pl' db' r)
  then have s: "in_step E mc (sy_raw s) c ss (sy_db s)" "log_ok (sy_raw s)" using assms(4) by (simp_all add: sys_ok_def)
  have "projected E mc (sy_raw s) c db' \<or> projected E mc (sy_raw s) h db'"
    using batch_projected [OF s(1,2) assms(3) refl] crash_in_batch(4) unfolding run_batch_Some by metis
  then show ?thesis using s(2) crash_in_batch by (auto simp: sys_ok_def)
next
  case stop
  then show ?thesis using assms(4) sys_ok_projected [OF assms(4)] by (simp add: sys_ok_def)
qed

lemma reaches_ok: "reaches E mc regular s \<Longrightarrow> range_order (range_of E) \<Longrightarrow> sys_ok E mc s"
  by (induction rule: reaches.induct) (auto intro: sys_ok_init sys_ok_step)

section \<open>A sample execution\<close>

definition sample_inputs :: "RawEventInput list" where
  "sample_inputs = map (\<lambda>e. \<lparr>ri_Broker = re_Broker e, ri_Topic = re_Topic e, ri_Payload = re_Payload e,
     ri_ReceivedAt = re_ReceivedAt e\<rparr>) [sample_raw, status_raw]"

definition sample_sys :: sys where
  "sample_sys = init_sys\<lparr>sy_raw := sample_store\<rparr>"

lemma sample_row: "microsecond dvd re_ReceivedAt e \<Longrightarrow>
    raw_row (re_ID e) \<lparr>ri_Broker = re_Broker e, ri_Topic = re_Topic e, ri_Payload = re_Payload e, ri_ReceivedAt = re_ReceivedAt e\<rparr> = e"
  by (simp add: raw_row_def timestamptz_id)

lemma sample_whole: "microsecond dvd re_ReceivedAt sample_raw" "microsecond dvd re_ReceivedAt status_raw"
  by (simp_all add: sample_raw_def status_raw_def microsecond_def unix_epoch_def second_def)

lemma sample_raw_ok: "raw_wf sample_raw" "raw_wf status_raw"
  using sample_store_ok by (simp_all add: log_ok_def sample_store_def)

lemma capture_reached:
  "reaches E mc P s \<Longrightarrow> InsertRawEvents a c msgs (sy_raw s) = (raw', r) \<Longrightarrow> P (Capture msgs) \<Longrightarrow>
    reaches E mc P (s\<lparr>sy_raw := raw'\<rparr>)"
  by (rule reaches.step [OF _ sys_step.capture])

text \<open>Two captures that fail after their ids were drawn, and one that succeeds.\<close>

lemma sample_sys_reached: "reaches E mc regular sample_sys"
proof -
  have wf: "list_all (\<lambda>m. wf_time (timestamptz (ri_ReceivedAt m))) sample_inputs"
    using sample_raw_ok sample_whole by (simp add: sample_inputs_def raw_wf_def timestamptz_id)
  have len: "length sample_inputs = 2" "sample_inputs \<noteq> []" by (simp_all add: sample_inputs_def)
  have ids: "re_ID sample_raw = 5" "re_ID status_raw = 6" by (simp_all add: sample_raw_def status_raw_def)
  let ?raw = "\<lambda>n. \<lparr>rs_events = [], rs_seq = n\<rparr>"
  have fails: "InsertRawEvents True False sample_inputs (?raw n) = (?raw (n + 2), Inl ConnError)" for n
    by (simp add: InsertRawEvents_def alloc_ids_def len)
  have "map2 raw_row [5, 6] sample_inputs = [sample_raw, status_raw]"
    using sample_row [OF sample_whole(1)] sample_row [OF sample_whole(2)] unfolding ids by (simp add: sample_inputs_def)
  moreover have "map (\<lambda>i. 4 + int i + 1) [0..<2] = [5, 6]" by (simp add: upt_rec)
  ultimately have works: "InsertRawEvents True True sample_inputs (?raw 4) = (sample_store, Inr 2)"
    by (simp add: InsertRawEvents_def alloc_ids_def copy_in_def len sample_store_def)
  have cap: "regular (Capture sample_inputs)" using wf by simp
  have "reaches E mc regular (init_sys\<lparr>sy_raw := ?raw 2\<rparr>)"
    by (rule capture_reached [where P = regular, OF reaches.init _ cap]) (use fails [of 0] in \<open>simp add: init_sys_def\<close>)
  then have "reaches E mc regular (init_sys\<lparr>sy_raw := ?raw 2, sy_raw := ?raw 4\<rparr>)"
    by (rule capture_reached [where P = regular, OF _ _ cap]) (use fails [of 2] in simp)
  then have "reaches E mc regular (init_sys\<lparr>sy_raw := ?raw 2, sy_raw := ?raw 4, sy_raw := sample_store\<rparr>)"
    by (rule capture_reached [where P = regular, OF _ _ cap]) (use works in simp)
  then show ?thesis by (simp add: sample_sys_def)
qed

definition sample_done :: sys where
  "sample_done = (let (ss, pl, d) = fst (ProcessBatch sample_env sample_io [plain_packet, plain_status] projectorName 6 sample_world)
     in sample_sys\<lparr>sy_db := d, sy_pool := pl, sy_proc := Some (6, ss)\<rparr>)"

lemma sample_done_reached: "reaches sample_env sample_mc regular sample_done"
proof -
  obtain ss pl d where w: "ProcessBatch sample_env sample_io [plain_packet, plain_status] projectorName 6 sample_world = ((ss, pl, d), Inr ())"
    using sample_batch by (auto elim!: succeedsE)
  let ?s = "sample_sys\<lparr>sy_proc := Some (0, projector_stages)\<rparr>"
  have "reaches sample_env sample_mc regular ?s"
    using sample_sys_reached by (rule reaches.step [OF _ sys_step.start_run])
      (simp_all add: sample_sys_def init_sys_def LoadProjectorCursor_def empty_db_def projectorName_def)
  moreover have "run_batch sample_env sample_mc sample_io 0 projector_stages ?s = Some (6, (ss, pl, d), Inr ())"
    using w by (simp add: run_batch_Some sample_sys_def sample_rows decode_sample init_sys_def sample_world_def) (simp add: status_raw_def)
  ultimately have "reaches sample_env sample_mc regular (?s\<lparr>sy_db := d, sy_pool := pl, sy_proc := Some (6, ss)\<rparr>)"
    by (intro reaches.step [OF _ sys_step.batch_done]) auto
  then show ?thesis by (simp add: sample_done_def w)
qed

section \<open>Properties\<close>



section \<open>Rebuilding\<close>

text \<open>
  What the log determines: the rows of every table but the anomalies, and of them every column but
  the generated ids, the values of the averages and the noise floors, which depend on how the log was cut
  into batches and on what was evicted; the number of distinct packets of a bucket only where no
  packet of it has an empty hash.
\<close>

definition rollup_counts :: "rollup_row \<Rightarrow> int \<times> int \<times> int \<times> int option \<times> int option \<times> bool \<times> bool" where
  "rollup_counts r = (ro_packets r, ro_flood_pkts r, ro_direct_pkts r, ro_min_rssi r, ro_max_rssi r,
     ro_avg_rssi r = None, ro_avg_snr r = None)"

definition same_rollup :: "duration \<Rightarrow> Event list \<Rightarrow> (bytes \<times> time, rollup_row) pgtable \<Rightarrow> (bytes \<times> time, rollup_row) pgtable \<Rightarrow> bool" where
  "same_rollup dur hist t t' \<longleftrightarrow> map_option rollup_counts \<circ> map_of t = map_option rollup_counts \<circ> map_of t' \<and>
     (\<forall>k. \<not> empty_hash (bucket_packets dur hist k) \<longrightarrow>
        map_option ro_unique_pkts (map_of t k) = map_option ro_unique_pkts (map_of t' k))"

definition neighbor_counts :: "neighbor_row \<Rightarrow> int \<times> int option \<times> int option \<times> bool \<times> bool" where
  "neighbor_counts r = (rn_packets r, rn_min_rssi r, rn_max_rssi r, rn_avg_rssi r = None, rn_avg_snr r = None)"

definition agree_on_log :: "Event list \<Rightarrow> db \<Rightarrow> db \<Rightarrow> bool" where
  "agree_on_log hist d d' \<longleftrightarrow>
     map_of (t_observers d) = map_of (t_observers d') \<and> map_of (t_observer_status d) = map_of (t_observer_status d') \<and>
     map_of (t_nodes d) = map_of (t_nodes d') \<and> map_of (t_packets_unique d) = map_of (t_packets_unique d') \<and>
     map (po_id_update (\<lambda>_. 0)) (t_packet_observations d) = map (po_id_update (\<lambda>_. 0)) (t_packet_observations d') \<and>
     same_rollup minute hist (t_rollup_observer_1m d) (t_rollup_observer_1m d') \<and>
     same_rollup hour hist (t_rollup_observer_1h d) (t_rollup_observer_1h d') \<and>
     map_option neighbor_counts \<circ> map_of (t_rollup_neighbor_1m d) = map_option neighbor_counts \<circ> map_of (t_rollup_neighbor_1m d')"

lemma determined_rows:
  assumes "\<And>k. map_of t k \<noteq> None \<longleftrightarrow> map_of t' k \<noteq> None"
    and "\<And>k r r'. map_of t k = Some r \<Longrightarrow> map_of t' k = Some r' \<Longrightarrow> f r = f r'"
  shows "map_option f \<circ> map_of t = map_option f \<circ> map_of t'"
proof
  fix k
  show "(map_option f \<circ> map_of t) k = (map_option f \<circ> map_of t') k"
  proof (cases "map_of t k")
    case None
    then show ?thesis using assms(1) [of k] by simp
  next
    case (Some r)
    then obtain r' where "map_of t' k = Some r'" using assms(1) [of k] by (cases "map_of t' k") auto
    then show ?thesis using assms(2) [OF Some] Some by (simp del: map_of_eq_Some_iff)
  qed
qed

lemma rollup_determined:
  assumes "rollup_ok dur E hist t" "rollup_ok dur E hist t'" shows "same_rollup dur hist t t'"
proof -
  have dom: "map_of t k \<noteq> None \<longleftrightarrow> map_of t' k \<noteq> None" for k using assms unfolding rollup_ok_def by metis
  have spec: "rollup_row_spec (bucket_packets dur hist k) (bucket_noise dur hist k) r"
    "rollup_row_spec (bucket_packets dur hist k) (bucket_noise dur hist k) r'"
    if "map_of t k = Some r" "map_of t' k = Some r'" for k r r'
    using assms that unfolding rollup_ok_def by metis+
  have "map_option rollup_counts \<circ> map_of t = map_option rollup_counts \<circ> map_of t'"
  proof (rule determined_rows [OF dom])
    fix k r r' assume "map_of t k = Some r" "map_of t' k = Some r'"
    from spec [OF this] show "rollup_counts r = rollup_counts r'" by (simp add: rollup_row_spec_def rollup_counts_def)
  qed
  moreover have "map_option ro_unique_pkts (map_of t k) = map_option ro_unique_pkts (map_of t' k)"
    if "\<not> empty_hash (bucket_packets dur hist k)" for k
  proof (cases "map_of t k")
    case None
    then show ?thesis using dom [of k] by simp
  next
    case (Some r)
    then obtain r' where r': "map_of t' k = Some r'" using dom [of k] by (cases "map_of t' k") auto
    from spec [OF Some r'] that have "ro_unique_pkts r = ro_unique_pkts r'" by (simp add: rollup_row_spec_def unique_count_def)
    then show ?thesis by (simp only: Some r' option.map)
  qed
  ultimately show ?thesis unfolding same_rollup_def by blast
qed

lemma neighbor_determined:
  assumes "neighbor_ok E hist t" "neighbor_ok E hist t'"
  shows "map_option neighbor_counts \<circ> map_of t = map_option neighbor_counts \<circ> map_of t'"
proof (rule determined_rows)
  fix k show "map_of t k \<noteq> None \<longleftrightarrow> map_of t' k \<noteq> None" using assms unfolding neighbor_ok_def by metis
next
  fix k r r' assume "map_of t k = Some r" "map_of t' k = Some r'"
  then have "neighbor_row_spec (neighbor_packets hist k) r" "neighbor_row_spec (neighbor_packets hist k) r'"
    using assms unfolding neighbor_ok_def by metis+
  then show "neighbor_counts r = neighbor_counts r'" by (simp add: neighbor_row_spec_def neighbor_counts_def)
qed

lemma tables_determined:
  assumes "tables_ok E hist d" "tables_ok E hist d'" shows "agree_on_log hist d d'"
proof -
  note ok = assms [unfolded tables_ok_def]
  have "map_of (t_observers d) = map_of (t_observers d')" "map_of (t_observer_status d) = map_of (t_observer_status d')"
    "map_of (t_nodes d) = map_of (t_nodes d')" "map_of (t_packets_unique d) = map_of (t_packets_unique d')"
    using ok by (simp_all add: fun_eq_iff observers_ok_def status_ok_def nodes_ok_def unique_ok_def)
  moreover have "map (po_id_update (\<lambda>_. 0)) (t_packet_observations d) = map (po_id_update (\<lambda>_. 0)) (t_packet_observations d')"
    using ok by (simp add: packets_ok_def)
  ultimately show ?thesis
    using ok rollup_determined neighbor_determined unfolding agree_on_log_def by blast
qed



end
