(* ===== verification/Web_View.thy ===== *)
theory Web_View
  imports Stage_Anomalies "HOL-Library.List_Lexorder"
begin

text \<open>
  What the read queries of the web service (\<^verbatim>\<open>internal/web/queries.go\<close>) have in common: the snapshot
  a query reads, the rows that arrive, the order of a result, and scanning it row by row.
\<close>

section \<open>Snapshots\<close>

text \<open>
  One query of a page: the database and the server's \<^verbatim>\<open>now()\<close> at that moment, and after how many rows
  the connection breaks, if it does. A query that fails at once is \<open>None\<close>.
\<close>

record view =
  vw_now :: time
  vw_db :: db
  vw_reach :: "nat option"

text \<open>
  What the server decides: numbers as in \<open>env\<close>, whose \<open>range_of\<close> is also the order in which it meets
  the rows of a table; the rank of a text in the collation of the database, and \<^verbatim>\<open>lower\<close>. The
  driver decides whether a value that does not fit its variable ends the result.
\<close>

record web_env =
  we_env :: env
  we_rank :: "string \<Rightarrow> rat"
  we_lower :: "string \<Rightarrow> string"
  we_scan_fatal :: bool

definition arriving :: "nat option \<Rightarrow> 'a list \<Rightarrow> 'a list" where
  "arriving reach rows = (case reach of None \<Rightarrow> rows | Some n \<Rightarrow> take n rows)"

definition query_rows :: "(time \<Rightarrow> db \<Rightarrow> 'a list) \<Rightarrow> view option \<Rightarrow> 'a list option" where
  "query_rows sel v = map_option (\<lambda>v. arriving (vw_reach v) (sel (vw_now v) (vw_db v))) v"

text \<open>\<^verbatim>\<open>QueryRow\<close>: the first row, or an error when none arrives.\<close>

definition query_row :: "(time \<Rightarrow> db \<Rightarrow> 'a list) \<Rightarrow> view option \<Rightarrow> 'a option" where
  "query_row sel v = (case query_rows sel v of Some (r # _) \<Rightarrow> Some r | _ \<Rightarrow> None)"

text \<open>The loop over a result whose body keeps the rows that scan.\<close>

fun scan_rows :: "bool \<Rightarrow> ('a \<Rightarrow> 'b option) \<Rightarrow> 'a list \<Rightarrow> 'b list" where
  "scan_rows fatal f [] = []"
| "scan_rows fatal f (r # rs) = (case f r of
     Some x \<Rightarrow> x # scan_rows fatal f rs
   | None \<Rightarrow> if fatal then [] else scan_rows fatal f rs)"

lemma scan_rows_all: "(\<And>r. r \<in> set rows \<Longrightarrow> f r \<noteq> None) \<Longrightarrow> scan_rows fatal f rows = map (the \<circ> f) rows"
proof (induction rows)
  case (Cons r rows)
  obtain y where "f r = Some y" using Cons.prems [of r] by auto
  then show ?case using Cons by simp
qed simp

lemma scan_rows_skip: "scan_rows False f rows = List.map_filter f rows"
  by (induction rows) (simp_all add: List.map_filter_simps split: option.splits)

lemma set_scan_rows: "x \<in> set (scan_rows fatal f rows) \<Longrightarrow> \<exists>r \<in> set rows. f r = Some x"
  by (induction rows) (auto split: option.splits if_splits)

text \<open>Scanning keeps every relation between the rows that their values show.\<close>

lemma scan_rows_wrt:
  "sorted_wrt P rows \<Longrightarrow> (\<And>a b x y. P a b \<Longrightarrow> f a = Some x \<Longrightarrow> f b = Some y \<Longrightarrow> Q x y) \<Longrightarrow> sorted_wrt Q (scan_rows fatal f rows)"
proof (induction rows)
  case (Cons r rows)
  have "sorted_wrt Q (scan_rows fatal f rows)" using Cons by simp
  moreover have "Q x y" if "f r = Some x" "y \<in> set (scan_rows fatal f rows)" for x y
    using set_scan_rows [OF that(2)] Cons.prems that(1) by auto
  ultimately show ?case by (auto split: option.splits)
qed simp

lemma distinct_wrt: "distinct (map f xs) \<longleftrightarrow> sorted_wrt (\<lambda>a b. f a \<noteq> f b) xs"
  by (induction xs) auto

lemma sorted_wrt_conj: "sorted_wrt P xs \<Longrightarrow> sorted_wrt Q xs \<Longrightarrow> sorted_wrt (\<lambda>a b. P a b \<and> Q a b) xs"
  by (induction xs) auto

lemma length_scan_rows: "length (scan_rows fatal f rows) \<le> length rows"
  by (induction rows) (auto split: option.splits)

section \<open>Orders\<close>

definition scan_order :: "web_env \<Rightarrow> 'a list \<Rightarrow> 'a list" where
  "scan_order W xs = map (\<lambda>i. xs ! i) (range_of (we_env W) (length xs))"

definition web_ok :: "web_env \<Rightarrow> bool" where
  "web_ok W \<longleftrightarrow> range_order (range_of (we_env W))"

lemma mset_scan_order [simp]: "web_ok W \<Longrightarrow> mset (scan_order W xs) = mset xs"
proof -
  assume "web_ok W"
  then have "mset (scan_order W xs) = image_mset (\<lambda>i. xs ! i) (mset [0..<length xs])"
    unfolding scan_order_def web_ok_def range_order_def by (simp only: mset_map)
  also have "\<dots> = mset (map (\<lambda>i. xs ! i) [0..<length xs])" by (simp only: mset_map)
  finally show ?thesis by (simp only: map_nth)
qed

text \<open>\<^verbatim>\<open>ORDER BY key ASC\<close> or \<^verbatim>\<open>DESC\<close>: nulls count as larger than every value.\<close>

definition order_by :: "bool \<Rightarrow> ('a \<Rightarrow> rat option) \<Rightarrow> 'a list \<Rightarrow> 'a list" where
  "order_by desc key rows =
     sort_key (\<lambda>r. if key r = None then (if desc then 0 else 2) else (1 :: nat))
       (sort_key (\<lambda>r. case key r of None \<Rightarrow> 0 | Some v \<Rightarrow> if desc then - v else v) rows)"

lemma mset_order_by [simp]: "mset (order_by desc key rows) = mset rows"
  by (simp add: order_by_def)

lemma set_order_by [simp]: "set (order_by desc key rows) = set rows"
  by (simp add: order_by_def)

lemma set_scan_order [simp]: "web_ok W \<Longrightarrow> set (scan_order W xs) = set xs"
  by (metis mset_scan_order set_mset_mset)

text \<open>A server for examples.\<close>

definition sample_web :: web_env where
  "sample_web = \<lparr>we_env = sample_env, we_rank = (\<lambda>s. of_nat (length s)), we_lower = (\<lambda>s. s), we_scan_fatal = True\<rparr>"

lemma sample_web_ok: "web_ok sample_web"
  by (simp add: web_ok_def sample_web_def sample_env_def)

end
