(* ===== verification/SSE_Hub.thy ===== *)
theory SSE_Hub
  imports Prelude
begin

text \<open>
  The publish and subscribe hub of the web service (\<^verbatim>\<open>internal/sse/hub.go\<close>). A channel is a reference
  into a heap of buffers; the hub maps topics to the channels subscribed to them. An operation
  under the hub's lock is one step; \<^verbatim>\<open>unsubscribe\<close>, which closes the channel after it released the
  lock, is two, and between any two steps others may run. The channels are buffered (the web
  handlers ask for 64); a channel without a buffer would only take an event while a receiver waits.
\<close>

section \<open>Model\<close>

record 'p sse_Event =
  se_Topic :: string
  se_Payload :: "'p option"

record 'p chan =
  ch_cap :: nat
  ch_buf :: "'p sse_Event list"
  ch_open :: bool

type_synonym subs = "(string, (64 word, nat) gomap) gomap"

record 'p Hub =
  hb_nextID :: "64 word"
  hb_subs :: subs
  hb_chans :: "'p chan list"

definition NewHub :: "'p Hub" where
  "NewHub = \<lparr>hb_nextID = 0, hb_subs = [], hb_chans = []\<rparr>"

definition topic_subs :: "subs \<Rightarrow> string \<Rightarrow> (64 word, nat) gomap" where
  "topic_subs m t = (case map_of m t of None \<Rightarrow> [] | Some x \<Rightarrow> x)"

definition add_sub :: "64 word \<Rightarrow> nat \<Rightarrow> string \<Rightarrow> subs \<Rightarrow> subs" where
  "add_sub i c t m = AList.update t (AList.update i c (topic_subs m t)) m"

text \<open>The result is the channel and what \<^verbatim>\<open>unsubscribe\<close> has captured: the id, the channel, the topics.\<close>

definition Subscribe :: "nat \<Rightarrow> string list \<Rightarrow> 'p Hub \<Rightarrow> (nat \<times> 64 word) \<times> 'p Hub" where
  "Subscribe buffer topics h =
     (let c = length (hb_chans h); i = hb_nextID h + 1
      in ((c, i), h\<lparr>hb_nextID := i, hb_subs := fold (add_sub i c) topics (hb_subs h),
                     hb_chans := hb_chans h @ [\<lparr>ch_cap = buffer, ch_buf = [], ch_open = True\<rparr>]\<rparr>))"

definition del_sub :: "64 word \<Rightarrow> string \<Rightarrow> subs \<Rightarrow> subs" where
  "del_sub i t m =
     (case map_of m t of
        None \<Rightarrow> m
      | Some x \<Rightarrow> let x' = AList.delete i x in if x' = [] then AList.delete t m else AList.update t x' m)"

definition unsubscribe_locked :: "64 word \<Rightarrow> string list \<Rightarrow> 'p Hub \<Rightarrow> 'p Hub" where
  "unsubscribe_locked i topics h = h\<lparr>hb_subs := fold (del_sub i) topics (hb_subs h)\<rparr>"

text \<open>\<^verbatim>\<open>close\<close> and a send panic on a closed channel; \<open>None\<close> is the panic.\<close>

definition close_chan :: "nat \<Rightarrow> 'p Hub \<Rightarrow> 'p Hub option" where
  "close_chan c h = (if ch_open (hb_chans h ! c) then Some (h\<lparr>hb_chans := (hb_chans h)[c := (hb_chans h ! c)\<lparr>ch_open := False\<rparr>]\<rparr>) else None)"

text \<open>\<^verbatim>\<open>select { case ch <- e: default: }\<close>.\<close>

definition try_send :: "'p sse_Event \<Rightarrow> nat \<Rightarrow> 'p chan list \<Rightarrow> 'p chan list option" where
  "try_send e c chans =
     (let ch = chans ! c in
      if \<not> ch_open ch then None
      else Some (if length (ch_buf ch) < ch_cap ch then chans[c := ch\<lparr>ch_buf := ch_buf ch @ [e]\<rparr>] else chans))"

fun send_all :: "'p sse_Event \<Rightarrow> nat list \<Rightarrow> 'p chan list \<Rightarrow> 'p chan list option" where
  "send_all e [] chans = Some chans"
| "send_all e (c # cs) chans = Option.bind (try_send e c chans) (send_all e cs)"

definition Hub_Publish :: "(nat \<Rightarrow> nat list) \<Rightarrow> 'p sse_Event \<Rightarrow> 'p Hub \<Rightarrow> 'p Hub option" where
  "Hub_Publish it e h =
     map_option (\<lambda>chans. h\<lparr>hb_chans := chans\<rparr>)
       (send_all e (map snd (go_range it (topic_subs (hb_subs h) (se_Topic e)))) (hb_chans h))"

section \<open>Executions\<close>

text \<open>
  A subscription lives from \<^verbatim>\<open>Subscribe\<close> to the deferred \<^verbatim>\<open>unsubscribe\<close>: \<open>live\<close> are those whose owner
  has not begun to unsubscribe, \<open>closing\<close> those removed from the hub whose channel is still open.
\<close>

record 'p hub_state =
  hs_hub :: "'p Hub"
  hs_live :: "(nat \<times> 64 word \<times> string list) list"
  hs_closing :: "nat list"
  hs_panicked :: bool

inductive hub_step :: "'p hub_state \<Rightarrow> 'p hub_state \<Rightarrow> bool" where
  subscribe: "Subscribe b topics (hs_hub s) = ((c, i), h) \<Longrightarrow> unat (hb_nextID (hs_hub s)) < 2 ^ 64 - 1 \<Longrightarrow>
     hub_step s (s\<lparr>hs_hub := h, hs_live := (c, i, topics) # hs_live s\<rparr>)"
| unsubscribe: "(c, i, topics) \<in> set (hs_live s) \<Longrightarrow>
     hub_step s (s\<lparr>hs_hub := unsubscribe_locked i topics (hs_hub s),
       hs_live := filter (\<lambda>x. fst (snd x) \<noteq> i) (hs_live s), hs_closing := c # hs_closing s\<rparr>)"
| close: "c \<in> set (hs_closing s) \<Longrightarrow> close_chan c (hs_hub s) = Some h \<Longrightarrow>
     hub_step s (s\<lparr>hs_hub := h, hs_closing := filter (\<lambda>x. x \<noteq> c) (hs_closing s)\<rparr>)"
| close_panic: "c \<in> set (hs_closing s) \<Longrightarrow> close_chan c (hs_hub s) = None \<Longrightarrow> hub_step s (s\<lparr>hs_panicked := True\<rparr>)"
| publish: "range_order it \<Longrightarrow> Hub_Publish it e (hs_hub s) = Some h \<Longrightarrow> hub_step s (s\<lparr>hs_hub := h\<rparr>)"
| publish_panic: "range_order it \<Longrightarrow> Hub_Publish it e (hs_hub s) = None \<Longrightarrow> hub_step s (s\<lparr>hs_panicked := True\<rparr>)"
| receive: "c < length (hb_chans (hs_hub s)) \<Longrightarrow> ch_buf (hb_chans (hs_hub s) ! c) = e # es \<Longrightarrow>
     hub_step s (s\<lparr>hs_hub := (hs_hub s)\<lparr>hb_chans := (hb_chans (hs_hub s))[c := (hb_chans (hs_hub s) ! c)\<lparr>ch_buf := es\<rparr>]\<rparr>\<rparr>)"

inductive hub_reaches :: "'p hub_state \<Rightarrow> bool" where
  start: "hub_reaches \<lparr>hs_hub = NewHub, hs_live = [], hs_closing = [], hs_panicked = False\<rparr>"
| step: "hub_reaches s \<Longrightarrow> hub_step s t \<Longrightarrow> hub_reaches t"

section \<open>The invariant\<close>

text \<open>
  The hub knows exactly the live subscriptions, under their topics, and no topic without one; their
  channels, and those about to be closed, are open; no channel holds more than its capacity.
\<close>

definition registered :: "subs \<Rightarrow> string \<Rightarrow> 64 word \<Rightarrow> nat \<Rightarrow> bool" where
  "registered m t i c \<longleftrightarrow> map_of (topic_subs m t) i = Some c"

definition subs_ok :: "subs \<Rightarrow> bool" where
  "subs_ok m \<longleftrightarrow> distinct (map fst m) \<and> (\<forall>t x. map_of m t = Some x \<longrightarrow> x \<noteq> [] \<and> distinct (map fst x))"

definition hub_ok :: "'p hub_state \<Rightarrow> bool" where
  "hub_ok s \<longleftrightarrow> \<not> hs_panicked s \<and> subs_ok (hb_subs (hs_hub s)) \<and>
     (\<forall>t i c. registered (hb_subs (hs_hub s)) t i c \<longleftrightarrow> (\<exists>topics. (c, i, topics) \<in> set (hs_live s) \<and> t \<in> set topics)) \<and>
     distinct (map (fst \<circ> snd) (hs_live s)) \<and> distinct (map fst (hs_live s) @ hs_closing s) \<and>
     (\<forall>x \<in> set (hs_live s). unat (fst (snd x)) \<le> unat (hb_nextID (hs_hub s))) \<and>
     (\<forall>c \<in> set (map fst (hs_live s) @ hs_closing s). c < length (hb_chans (hs_hub s)) \<and> ch_open (hb_chans (hs_hub s) ! c)) \<and>
     (\<forall>c < length (hb_chans (hs_hub s)). length (ch_buf (hb_chans (hs_hub s) ! c)) \<le> ch_cap (hb_chans (hs_hub s) ! c))"

lemma topic_subs_update: "topic_subs (AList.update t x m) u = (if u = t then x else topic_subs m u)"
  by (simp add: topic_subs_def update_conv')

lemma topic_subs_delete: "topic_subs (AList.delete t m) u = (if u = t then [] else topic_subs m u)"
  by (simp add: topic_subs_def delete_conv')

lemma registered_add: "registered (add_sub i c t m) u j d \<longleftrightarrow> (if u = t \<and> j = i then d = c else registered m u j d)"
  by (auto simp: registered_def add_sub_def topic_subs_update update_conv' simp del: map_of_eq_Some_iff)

lemma registered_adds:
  "registered (fold (add_sub i c) topics m) u j d \<longleftrightarrow>
    (if u \<in> set topics \<and> j = i then d = c else registered m u j d)"
  by (induction topics arbitrary: m) (auto simp: registered_add)

lemma registered_del: "registered (del_sub i t m) u j d \<longleftrightarrow> registered m u j d \<and> \<not> (u = t \<and> j = i)"
proof (cases "map_of m t")
  case None
  then have "topic_subs m t = []" by (simp add: topic_subs_def)
  then show ?thesis using None by (auto simp: registered_def del_sub_def simp del: map_of_eq_Some_iff)
next
  case (Some x)
  then have x: "topic_subs m t = x" by (simp add: topic_subs_def)
  have "map_of x j = None" if "AList.delete i x = []" "j \<noteq> i" for j
  proof -
    have "map_of (AList.delete i x) j = map_of x j" using that(2) by (simp add: delete_conv')
    then show ?thesis using that(1) by simp
  qed
  then show ?thesis
    using Some x by (auto simp: registered_def del_sub_def Let_def topic_subs_update topic_subs_delete delete_conv'
        simp del: map_of_eq_Some_iff)
qed

lemma registered_dels:
  "registered (fold (del_sub i) topics m) u j d \<longleftrightarrow> registered m u j d \<and> \<not> (u \<in> set topics \<and> j = i)"
  by (induction topics arbitrary: m) (auto simp: registered_del)

lemma subs_ok_topic: "subs_ok m \<Longrightarrow> distinct (map fst (topic_subs m t))"
  by (auto simp: subs_ok_def topic_subs_def simp del: map_of_eq_Some_iff split: option.splits)

lemma subs_ok_update: "subs_ok m \<Longrightarrow> x \<noteq> [] \<Longrightarrow> distinct (map fst x) \<Longrightarrow> subs_ok (AList.update t x m)"
  by (auto simp: subs_ok_def distinct_update update_conv' simp del: map_of_eq_Some_iff)

lemma subs_ok_delete: "subs_ok m \<Longrightarrow> subs_ok (AList.delete t m)"
  by (auto simp: subs_ok_def distinct_delete delete_conv' simp del: map_of_eq_Some_iff)

lemma subs_ok_add: "subs_ok m \<Longrightarrow> subs_ok (add_sub i c t m)"
  unfolding add_sub_def by (intro subs_ok_update) (simp_all add: distinct_update subs_ok_topic)

lemma subs_ok_adds: "subs_ok m \<Longrightarrow> subs_ok (fold (add_sub i c) topics m)"
  by (induction topics arbitrary: m) (simp_all add: subs_ok_add)

lemma subs_ok_del: "subs_ok m \<Longrightarrow> subs_ok (del_sub i t m)"
proof (cases "map_of m t")
  case (Some x)
  assume ok: "subs_ok m"
  then have "distinct (map fst x)" using Some by (simp add: subs_ok_def del: map_of_eq_Some_iff)
  then show ?thesis using ok Some
    by (simp add: del_sub_def Let_def subs_ok_delete subs_ok_update distinct_delete del: map_of_eq_Some_iff)
qed (simp add: del_sub_def)

lemma subs_ok_dels: "subs_ok m \<Longrightarrow> subs_ok (fold (del_sub i) topics m)"
  by (induction topics arbitrary: m) (simp_all add: subs_ok_del)

text \<open>What a publication does to the heap.\<close>

definition sent_to :: "'p sse_Event \<Rightarrow> 'p chan \<Rightarrow> 'p chan" where
  "sent_to e ch = (if length (ch_buf ch) < ch_cap ch then ch\<lparr>ch_buf := ch_buf ch @ [e]\<rparr> else ch)"

lemma send_all_spec:
  "distinct cs \<Longrightarrow> \<forall>c \<in> set cs. c < length chans \<and> ch_open (chans ! c) \<Longrightarrow>
    \<exists>chans'. send_all e cs chans = Some chans' \<and> length chans' = length chans \<and>
      (\<forall>d < length chans. chans' ! d = (if d \<in> set cs then sent_to e (chans ! d) else chans ! d))"
proof (induction cs arbitrary: chans)
  case (Cons c cs)
  let ?chans = "chans[c := sent_to e (chans ! c)]"
  have t: "try_send e c chans = Some ?chans"
    using Cons.prems by (auto simp: try_send_def Let_def sent_to_def)
  have "\<forall>d \<in> set cs. d < length ?chans \<and> ch_open (?chans ! d)"
    using Cons.prems by (auto simp: nth_list_update)
  from Cons.IH [OF _ this] Cons.prems(1) obtain chans' where
    "send_all e cs ?chans = Some chans'" "length chans' = length chans"
    "\<forall>d < length chans. chans' ! d = (if d \<in> set cs then sent_to e (?chans ! d) else ?chans ! d)" by auto
  then show ?case using t Cons.prems by (intro exI [of _ chans']) (auto simp: nth_list_update)
qed simp

definition subscribed :: "'p hub_state \<Rightarrow> string \<Rightarrow> nat set" where
  "subscribed s t = {c. \<exists>i topics. (c, i, topics) \<in> set (hs_live s) \<and> t \<in> set topics}"

lemma publish_targets:
  assumes "hub_ok s" "range_order it"
  shows "set (map snd (go_range it (topic_subs (hb_subs (hs_hub s)) t))) = subscribed s t"
    and "distinct (map snd (go_range it (topic_subs (hb_subs (hs_hub s)) t)))"
proof -
  let ?m = "topic_subs (hb_subs (hs_hub s)) t"
  have d: "distinct (map fst ?m)" using assms(1) subs_ok_topic by (auto simp: hub_ok_def)
  have reg: "(i, c) \<in> set ?m \<longleftrightarrow> (\<exists>topics. (c, i, topics) \<in> set (hs_live s) \<and> t \<in> set topics)" for i c
    using assms(1) d unfolding hub_ok_def registered_def by (metis map_of_eq_Some_iff)
  then show "set (map snd (go_range it ?m)) = subscribed s t"
    using assms(2) by (force simp: subscribed_def)
  have "distinct (map fst (hs_live s))" using assms(1) by (simp add: hub_ok_def)
  then have "inj_on snd (set ?m)"
    using reg by (auto simp: inj_on_def) (metis (no_types, opaque_lifting) eq_key_imp_eq_value prod.inject)
  moreover have "distinct (go_range it ?m)" using distinct_keys_go_range [OF assms(2) d] by (simp add: distinct_map)
  ultimately show "distinct (map snd (go_range it ?m))" using assms(2) by (simp add: distinct_map)
qed

lemma hub_ok_owned:
  "hub_ok s \<Longrightarrow> c \<in> set (map fst (hs_live s) @ hs_closing s) \<Longrightarrow> c < length (hb_chans (hs_hub s)) \<and> ch_open (hb_chans (hs_hub s) ! c)"
  unfolding hub_ok_def by blast

lemma hub_ok_live:
  assumes "hub_ok s" "(c, i, ts) \<in> set (hs_live s)"
  shows "unat i \<le> unat (hb_nextID (hs_hub s)) \<and> c < length (hb_chans (hs_hub s)) \<and> ch_open (hb_chans (hs_hub s) ! c)"
proof -
  have "\<forall>x \<in> set (hs_live s). unat (fst (snd x)) \<le> unat (hb_nextID (hs_hub s))" using assms(1) unfolding hub_ok_def by blast
  then have "unat i \<le> unat (hb_nextID (hs_hub s))" using assms(2) by fastforce
  moreover have "c \<in> set (map fst (hs_live s) @ hs_closing s)" using assms(2) by force
  ultimately show ?thesis using hub_ok_owned [OF assms(1)] by blast
qed

lemma hub_ok_closing:
  "hub_ok s \<Longrightarrow> c \<in> set (hs_closing s) \<Longrightarrow> c < length (hb_chans (hs_hub s)) \<and> ch_open (hb_chans (hs_hub s) ! c)"
  using hub_ok_owned [of s c] by simp

lemma hub_ok_room:
  "hub_ok s \<Longrightarrow> c < length (hb_chans (hs_hub s)) \<Longrightarrow>
    length (ch_buf (hb_chans (hs_hub s) ! c)) \<le> ch_cap (hb_chans (hs_hub s) ! c)"
  unfolding hub_ok_def by blast

lemma hub_ok_reg:
  "hub_ok s \<Longrightarrow> registered (hb_subs (hs_hub s)) t i c \<longleftrightarrow> (\<exists>topics. (c, i, topics) \<in> set (hs_live s) \<and> t \<in> set topics)"
  unfolding hub_ok_def by blast

lemma hub_ok_misc:
  assumes "hub_ok s"
  shows "\<not> hs_panicked s" "subs_ok (hb_subs (hs_hub s))" "distinct (map (fst \<circ> snd) (hs_live s))"
    "distinct (map fst (hs_live s) @ hs_closing s)"
  using assms unfolding hub_ok_def by blast+

lemma hub_okI:
  assumes "\<not> hs_panicked s" "subs_ok (hb_subs (hs_hub s))" "distinct (map (fst \<circ> snd) (hs_live s))"
    "distinct (map fst (hs_live s) @ hs_closing s)"
    "\<And>t i c. registered (hb_subs (hs_hub s)) t i c \<longleftrightarrow> (\<exists>topics. (c, i, topics) \<in> set (hs_live s) \<and> t \<in> set topics)"
    "\<And>c i ts. (c, i, ts) \<in> set (hs_live s) \<Longrightarrow>
      unat i \<le> unat (hb_nextID (hs_hub s)) \<and> c < length (hb_chans (hs_hub s)) \<and> ch_open (hb_chans (hs_hub s) ! c)"
    "\<And>c. c \<in> set (hs_closing s) \<Longrightarrow> c < length (hb_chans (hs_hub s)) \<and> ch_open (hb_chans (hs_hub s) ! c)"
    "\<And>c. c < length (hb_chans (hs_hub s)) \<Longrightarrow> length (ch_buf (hb_chans (hs_hub s) ! c)) \<le> ch_cap (hb_chans (hs_hub s) ! c)"
  shows "hub_ok s"
proof -
  have "\<forall>x \<in> set (hs_live s). unat (fst (snd x)) \<le> unat (hb_nextID (hs_hub s))" using assms(6) by auto
  moreover have "\<forall>c \<in> set (map fst (hs_live s) @ hs_closing s). c < length (hb_chans (hs_hub s)) \<and> ch_open (hb_chans (hs_hub s) ! c)"
    using assms(6,7) by auto
  ultimately show ?thesis using assms(1-5,8) unfolding hub_ok_def by blast
qed

lemma Hub_Publish_ok:
  assumes "hub_ok s" "range_order it"
  obtains chans where "Hub_Publish it e (hs_hub s) = Some ((hs_hub s)\<lparr>hb_chans := chans\<rparr>)" "length chans = length (hb_chans (hs_hub s))"
    "\<And>d. d < length chans \<Longrightarrow> chans ! d = (if d \<in> subscribed s (se_Topic e) then sent_to e (hb_chans (hs_hub s) ! d) else hb_chans (hs_hub s) ! d)"
proof -
  let ?cs = "map snd (go_range it (topic_subs (hb_subs (hs_hub s)) (se_Topic e)))"
  note p = publish_targets [OF assms, of "se_Topic e"]
  have "\<forall>c \<in> set ?cs. c < length (hb_chans (hs_hub s)) \<and> ch_open (hb_chans (hs_hub s) ! c)"
    unfolding p(1) subscribed_def using hub_ok_live [OF assms(1)] by blast
  from send_all_spec [OF p(2) this, of e, unfolded p(1)] obtain chans where c:
    "send_all e ?cs (hb_chans (hs_hub s)) = Some chans" "length chans = length (hb_chans (hs_hub s))"
    "\<forall>d < length (hb_chans (hs_hub s)). chans ! d =
      (if d \<in> subscribed s (se_Topic e) then sent_to e (hb_chans (hs_hub s) ! d) else hb_chans (hs_hub s) ! d)" by blast
  have "Hub_Publish it e (hs_hub s) = Some ((hs_hub s)\<lparr>hb_chans := chans\<rparr>)" unfolding Hub_Publish_def c(1) by simp
  then show thesis by (rule that) (use c(2,3) in auto)
qed

lemma hub_ok_publish:
  assumes "hub_ok s" "range_order it" "Hub_Publish it e (hs_hub s) = Some h"
  shows "hub_ok (s\<lparr>hs_hub := h\<rparr>)"
proof -
  obtain chans where c: "Hub_Publish it e (hs_hub s) = Some ((hs_hub s)\<lparr>hb_chans := chans\<rparr>)" "length chans = length (hb_chans (hs_hub s))"
    "\<And>d. d < length chans \<Longrightarrow> chans ! d = (if d \<in> subscribed s (se_Topic e) then sent_to e (hb_chans (hs_hub s) ! d) else hb_chans (hs_hub s) ! d)"
    using Hub_Publish_ok [OF assms(1,2)] by blast
  then have h: "h = (hs_hub s)\<lparr>hb_chans := chans\<rparr>" using assms(3) by simp
  have op: "ch_open (chans ! d) = ch_open (hb_chans (hs_hub s) ! d)"
    and cap: "length (ch_buf (chans ! d)) \<le> ch_cap (chans ! d)" if "d < length chans" for d
    using c(3) [OF that] hub_ok_room [OF assms(1), of d] that c(2) by (simp_all add: sent_to_def)
  show ?thesis
    by (rule hub_okI) (use hub_ok_misc [OF assms(1)] hub_ok_reg [OF assms(1)] hub_ok_live [OF assms(1)] hub_ok_closing [OF assms(1)] op cap c(2)
      in \<open>simp_all add: h\<close>)
qed

lemma hub_ok_subscribe:
  assumes "hub_ok s" "Subscribe b topics (hs_hub s) = ((c, i), h)" "unat (hb_nextID (hs_hub s)) < 2 ^ 64 - 1"
  shows "hub_ok (s\<lparr>hs_hub := h, hs_live := (c, i, topics) # hs_live s\<rparr>)"
proof -
  let ?n = "hb_nextID (hs_hub s)" and ?old = "hb_chans (hs_hub s)"
  have h: "c = length ?old" "i = ?n + 1" "hb_nextID h = i" "hb_subs h = fold (add_sub i c) topics (hb_subs (hs_hub s))"
    "hb_chans h = ?old @ [\<lparr>ch_cap = b, ch_buf = [], ch_open = True\<rparr>]"
    using assms(2) by (auto simp: Subscribe_def Let_def)
  have n: "unat i = unat ?n + 1" using assms(3) unfolding h(2) by (simp add: unat_word_ariths)
  have fresh: "j \<noteq> i" "d \<noteq> c" if "(d, j, ts) \<in> set (hs_live s)" for d j ts
    using hub_ok_live [OF assms(1) that] n h(1) by auto
  have fresh2: "c \<notin> set (hs_closing s)" using hub_ok_closing [OF assms(1)] h(1) by blast
  show ?thesis
  proof (rule hub_okI)
    show "distinct (map (fst \<circ> snd) (hs_live (s\<lparr>hs_hub := h, hs_live := (c, i, topics) # hs_live s\<rparr>)))"
      using hub_ok_misc(3) [OF assms(1)] fresh(1) by force
    show "distinct (map fst (hs_live (s\<lparr>hs_hub := h, hs_live := (c, i, topics) # hs_live s\<rparr>)) @ hs_closing (s\<lparr>hs_hub := h, hs_live := (c, i, topics) # hs_live s\<rparr>))"
      using hub_ok_misc(4) [OF assms(1)] fresh(2) fresh2 by force
  next
    fix t j d
    show "registered (hb_subs (hs_hub (s\<lparr>hs_hub := h, hs_live := (c, i, topics) # hs_live s\<rparr>))) t j d \<longleftrightarrow>
      (\<exists>ts. (d, j, ts) \<in> set (hs_live (s\<lparr>hs_hub := h, hs_live := (c, i, topics) # hs_live s\<rparr>)) \<and> t \<in> set ts)"
      using hub_ok_reg [OF assms(1), of t j d] fresh(1) by (auto simp: h(4) registered_adds)
  next
    fix d j ts
    assume "(d, j, ts) \<in> set (hs_live (s\<lparr>hs_hub := h, hs_live := (c, i, topics) # hs_live s\<rparr>))"
    then show "unat j \<le> unat (hb_nextID (hs_hub (s\<lparr>hs_hub := h, hs_live := (c, i, topics) # hs_live s\<rparr>))) \<and>
      d < length (hb_chans (hs_hub (s\<lparr>hs_hub := h, hs_live := (c, i, topics) # hs_live s\<rparr>))) \<and>
      ch_open (hb_chans (hs_hub (s\<lparr>hs_hub := h, hs_live := (c, i, topics) # hs_live s\<rparr>)) ! d)"
      using hub_ok_live [OF assms(1), of d j ts] n by (auto simp: h(1,3,5) nth_append)
  next
    fix d
    assume "d \<in> set (hs_closing (s\<lparr>hs_hub := h, hs_live := (c, i, topics) # hs_live s\<rparr>))"
    then show "d < length (hb_chans (hs_hub (s\<lparr>hs_hub := h, hs_live := (c, i, topics) # hs_live s\<rparr>))) \<and>
      ch_open (hb_chans (hs_hub (s\<lparr>hs_hub := h, hs_live := (c, i, topics) # hs_live s\<rparr>)) ! d)"
      using hub_ok_closing [OF assms(1), of d] by (simp add: h(5) nth_append)
  next
    fix d
    assume "d < length (hb_chans (hs_hub (s\<lparr>hs_hub := h, hs_live := (c, i, topics) # hs_live s\<rparr>)))"
    then show "length (ch_buf (hb_chans (hs_hub (s\<lparr>hs_hub := h, hs_live := (c, i, topics) # hs_live s\<rparr>)) ! d)) \<le>
      ch_cap (hb_chans (hs_hub (s\<lparr>hs_hub := h, hs_live := (c, i, topics) # hs_live s\<rparr>)) ! d)"
      using hub_ok_room [OF assms(1), of d] by (auto simp: h(5) nth_append less_Suc_eq)
  qed (use hub_ok_misc [OF assms(1)] in \<open>simp_all add: h(4) subs_ok_adds\<close>)
qed

lemma hub_ok_unsubscribe:
  assumes "hub_ok s" "(c, i, topics) \<in> set (hs_live s)"
  shows "hub_ok (s\<lparr>hs_hub := unsubscribe_locked i topics (hs_hub s),
    hs_live := filter (\<lambda>x. fst (snd x) \<noteq> i) (hs_live s), hs_closing := c # hs_closing s\<rparr>)"
proof -
  let ?live = "filter (\<lambda>x. fst (snd x) \<noteq> i) (hs_live s)"
  have ids: "inj_on (fst \<circ> snd) (set (hs_live s))" "inj_on fst (set (hs_live s))"
    using hub_ok_misc(3,4) [OF assms(1)] by (auto simp: distinct_map)
  have same: "d = c" "ts = topics" if "(d, i, ts) \<in> set (hs_live s)" for d ts
    using inj_onD [OF ids(1) _ that assms(2)] by simp_all
  have other: "d \<noteq> c" if "(d, j, ts) \<in> set (hs_live s)" "j \<noteq> i" for d j ts
    using inj_onD [OF ids(2) _ that(1) assms(2)] that(2) by auto
  have dist: "distinct (map fst (hs_live s))" "distinct (hs_closing s)" "fst ` set (hs_live s) \<inter> set (hs_closing s) = {}"
    using hub_ok_misc(4) [OF assms(1)] by simp_all
  have c: "c \<notin> fst ` set ?live" "c \<notin> set (hs_closing s)" using other dist(3) assms(2) by force+
  have dist': "distinct (map fst ?live @ c # hs_closing s)"
    using dist c distinct_map_filter [OF dist(1)] by auto
  show ?thesis
  proof (rule hub_okI, goal_cases)
    case (5 t j d)
    show ?case using hub_ok_reg [OF assms(1), of t j d] same by (auto simp: unsubscribe_locked_def registered_dels)
  next
    case (6 d j ts)
    then show ?case using hub_ok_live [OF assms(1), of d j ts] by (simp add: unsubscribe_locked_def)
  next
    case (7 d)
    then show ?case using hub_ok_closing [OF assms(1), of d] hub_ok_live [OF assms] by (auto simp: unsubscribe_locked_def)
  next
    case (8 d)
    then show ?case using hub_ok_room [OF assms(1), of d] by (simp add: unsubscribe_locked_def)
  qed (use hub_ok_misc [OF assms(1)] dist' in \<open>simp_all add: unsubscribe_locked_def subs_ok_dels distinct_map_filter\<close>)
qed

lemma hub_ok_close:
  assumes "hub_ok s" "c \<in> set (hs_closing s)"
  obtains h where "close_chan c (hs_hub s) = Some h" "hub_ok (s\<lparr>hs_hub := h, hs_closing := filter (\<lambda>x. x \<noteq> c) (hs_closing s)\<rparr>)"
proof -
  let ?ch = "hb_chans (hs_hub s) ! c"
  let ?h = "(hs_hub s)\<lparr>hb_chans := (hb_chans (hs_hub s))[c := ?ch\<lparr>ch_open := False\<rparr>]\<rparr>"
  note c = hub_ok_closing [OF assms]
  have live: "d \<noteq> c" if "(d, i, ts) \<in> set (hs_live s)" for d i ts
    using hub_ok_misc(4) [OF assms(1)] assms(2) that by force
  have "hub_ok (s\<lparr>hs_hub := ?h, hs_closing := filter (\<lambda>x. x \<noteq> c) (hs_closing s)\<rparr>)"
  proof (rule hub_okI, goal_cases)
    case (5 t i d)
    show ?case using hub_ok_reg [OF assms(1), of t i d] by simp
  next
    case (6 d i ts)
    then show ?case using hub_ok_live [OF assms(1), of d i ts] live [of d i ts] by simp
  next
    case (7 d)
    then show ?case using hub_ok_closing [OF assms(1), of d] by simp
  next
    case (8 d)
    then show ?case using hub_ok_room [OF assms(1), of d] by (cases "d = c") (simp_all add: nth_list_update)
  qed (use hub_ok_misc [OF assms(1)] in auto)
  then show thesis using c by (intro that) (simp_all add: close_chan_def)
qed

lemma hub_ok_receive:
  assumes "hub_ok s" "c < length (hb_chans (hs_hub s))" "ch_buf (hb_chans (hs_hub s) ! c) = e # es"
  shows "hub_ok (s\<lparr>hs_hub := (hs_hub s)\<lparr>hb_chans := (hb_chans (hs_hub s))[c := (hb_chans (hs_hub s) ! c)\<lparr>ch_buf := es\<rparr>]\<rparr>\<rparr>)"
proof (rule hub_okI, goal_cases)
  case (5 t i d)
  show ?case using hub_ok_reg [OF assms(1), of t i d] by simp
next
  case (6 d i ts)
  then show ?case using hub_ok_live [OF assms(1), of d i ts] by (cases "d = c") (simp_all add: nth_list_update)
next
  case (7 d)
  then show ?case using hub_ok_closing [OF assms(1), of d] by (cases "d = c") (simp_all add: nth_list_update)
next
  case (8 d)
  then show ?case using hub_ok_room [OF assms(1), of d] assms(3) by (cases "d = c") (simp_all add: nth_list_update)
qed (use hub_ok_misc [OF assms(1)] in auto)

lemma hub_ok_step: "hub_step s t \<Longrightarrow> hub_ok s \<Longrightarrow> hub_ok t"
proof (induction rule: hub_step.induct)
  case (close c s h)
  then show ?case using hub_ok_close [of s c] by (metis option.inject)
next
  case (close_panic c s)
  then show ?case using hub_ok_close [of s c] by (metis option.distinct(1))
next
  case (publish_panic it e s)
  then show ?case using Hub_Publish_ok [of s it e] by (metis option.distinct(1))
qed (simp_all add: hub_ok_subscribe hub_ok_unsubscribe hub_ok_publish hub_ok_receive)

lemma hub_reaches_ok: "hub_reaches s \<Longrightarrow> hub_ok s"
proof (induction rule: hub_reaches.induct)
  case start
  show ?case by (simp add: hub_ok_def NewHub_def subs_ok_def registered_def topic_subs_def)
qed (rule hub_ok_step)

section \<open>Properties\<close>

text \<open>C24 (safety): in no interleaving of subscriptions, publications, receives and the two steps of an
  unsubscription does the hub send to a closed channel, close a channel twice or fill a channel beyond its
  capacity, and it keeps no subscription of a client that has left: a channel it would send to
  belongs to a live client that asked for the topic.\<close>

theorem hub_never_panics:
  assumes "hub_reaches s"
  shows "\<not> hs_panicked s \<and>
    (\<forall>t c. c \<in> set (map snd (topic_subs (hb_subs (hs_hub s)) t)) \<longrightarrow> ch_open (hb_chans (hs_hub s) ! c) \<and> c \<in> subscribed s t) \<and>
    (\<forall>ch \<in> set (hb_chans (hs_hub s)). length (ch_buf ch) \<le> ch_cap ch)"
proof -
  note ok = hub_reaches_ok [OF assms]
  have "c \<in> subscribed s t" if "c \<in> set (map snd (topic_subs (hb_subs (hs_hub s)) t))" for t c
    using publish_targets(1) [OF ok range_order_insertion, of t] that by (simp add: go_range_insertion)
  moreover have "\<forall>ch \<in> set (hb_chans (hs_hub s)). length (ch_buf ch) \<le> ch_cap ch"
    using hub_ok_room [OF ok] by (auto simp: in_set_conv_nth)
  ultimately show ?thesis using hub_ok_misc(1) [OF ok] hub_ok_live [OF ok] unfolding subscribed_def by blast
qed

text \<open>A publication reaches exactly the live subscribers of its topic: each of them gets the
  event at the end of its queue, or, when its queue is full, nothing; the queues of all others stay
  as they are and no queue outgrows its capacity.\<close>

theorem publish_delivers:
  assumes "hub_reaches s" "range_order it"
  shows "\<exists>h. Hub_Publish it e (hs_hub s) = Some h \<and> hb_subs h = hb_subs (hs_hub s) \<and> length (hb_chans h) = length (hb_chans (hs_hub s)) \<and>
    (\<forall>c < length (hb_chans h). length (ch_buf (hb_chans h ! c)) \<le> ch_cap (hb_chans h ! c) \<and>
      ch_buf (hb_chans h ! c) = ch_buf (hb_chans (hs_hub s) ! c) @
        (if c \<in> subscribed s (se_Topic e) \<and> length (ch_buf (hb_chans (hs_hub s) ! c)) < ch_cap (hb_chans (hs_hub s) ! c)
         then [e] else []))"
proof -
  note ok = hub_reaches_ok [OF assms(1)]
  obtain chans where c: "Hub_Publish it e (hs_hub s) = Some ((hs_hub s)\<lparr>hb_chans := chans\<rparr>)" "length chans = length (hb_chans (hs_hub s))"
    "\<And>d. d < length chans \<Longrightarrow> chans ! d = (if d \<in> subscribed s (se_Topic e) then sent_to e (hb_chans (hs_hub s) ! d) else hb_chans (hs_hub s) ! d)"
    using Hub_Publish_ok [OF ok assms(2)] by blast
  then show ?thesis using hub_ok_room [OF ok] by (intro exI [of _ "(hs_hub s)\<lparr>hb_chans := chans\<rparr>"]) (auto simp: sent_to_def)
qed

text \<open>A client of two topics, one event in its queue of one place.\<close>

definition sample_hub :: "unit hub_state" where
  "sample_hub = (let ((c, i), h) = Subscribe 1 [''overview'', ''anomalies''] NewHub
     in \<lparr>hs_hub = h, hs_live = [(c, i, [''overview'', ''anomalies''])], hs_closing = [], hs_panicked = False\<rparr>)"

lemma sample_hub_reached: "hub_reaches sample_hub"
proof -
  have "hub_step \<lparr>hs_hub = NewHub, hs_live = [], hs_closing = [], hs_panicked = False\<rparr> sample_hub"
    using hub_step.subscribe [of 1 "[''overview'', ''anomalies'']" "\<lparr>hs_hub = NewHub, hs_live = [], hs_closing = [], hs_panicked = False\<rparr> :: unit hub_state"]
    by (simp add: sample_hub_def Subscribe_def Let_def NewHub_def)
  then show ?thesis by (rule hub_reaches.step [OF hub_reaches.start])
qed

lemma hub_never_panics_witness:
  "\<not> hs_panicked sample_hub \<and> topic_subs (hb_subs (hs_hub sample_hub)) ''overview'' \<noteq> [] \<and>
    (\<exists>ch \<in> set (hb_chans (hs_hub sample_hub)). ch_cap ch = 1 \<and> length (ch_buf ch) \<le> 1)"
  using hub_never_panics [OF sample_hub_reached] by (simp add: sample_hub_def Subscribe_def NewHub_def add_sub_def topic_subs_def)

lemma publish_delivers_witness:
  "\<exists>h. Hub_Publish (\<lambda>n. [0..<n]) \<lparr>se_Topic = ''overview'', se_Payload = None\<rparr> (hs_hub sample_hub) = Some h \<and>
    ch_buf (hb_chans h ! 0) = [\<lparr>se_Topic = ''overview'', se_Payload = None\<rparr>]"
proof -
  let ?e = "\<lparr>se_Topic = ''overview'', se_Payload = None\<rparr> :: unit sse_Event"
  have "subscribed sample_hub ''overview'' = {0}"
    by (auto simp: subscribed_def sample_hub_def Subscribe_def NewHub_def)
  moreover have "hb_chans (hs_hub sample_hub) = [\<lparr>ch_cap = 1, ch_buf = [], ch_open = True\<rparr>]"
    by (simp add: sample_hub_def Subscribe_def NewHub_def)
  ultimately show ?thesis using publish_delivers [OF sample_hub_reached range_order_insertion, of ?e] by auto
qed

end
