(* ===== verification/JSON_Roundtrip.thy ===== *)
theory JSON_Roundtrip
  imports Notify Go_JSON
begin

text \<open>
  What the projector's notifications are marshalled to, the web service's parser reads back: the
  two halves of \<^verbatim>\<open>encoding/json\<close> that the model has are inverse on the payloads of
  \<^verbatim>\<open>notify.Publish\<close>. Strings that come out of the parser are valid UTF-8.
\<close>

section \<open>Single characters\<close>

lemma ord_hex_digit: "n < 16 \<Longrightarrow> ord_of (hex_digit n) = (if n < 10 then 48 + n else 87 + n)"
  by (simp add: hex_digit_def)

lemma scan_plain:
  "c \<noteq> CHR 0x22 \<Longrightarrow> 32 \<le> ord_of c \<Longrightarrow> c \<noteq> CHR 0x5C \<Longrightarrow>
    scan_string (c # t) = map_option (\<lambda>(b, r). (c # b, r)) (scan_string t)"
  by simp

lemma ord_eq_iff: "c = d \<longleftrightarrow> ord_of c = (ord_of d :: nat)"
  by simp

lemma scan_hex_digit:
  assumes "n < 16"
  shows "scan_string (hex_digit n # t) = map_option (\<lambda>(b, r). (hex_digit n # b, r)) (scan_string t)"
  by (rule scan_plain) (use ord_hex_digit [OF assms] in \<open>auto simp: ord_eq_iff [of "hex_digit n"] split: if_splits\<close>)

lemma map_option_pair: "map_option (\<lambda>(b, r). (f b, r)) (map_option (\<lambda>(b, r). (g b, r)) x) = map_option (\<lambda>(b, r). (f (g b), r)) x"
  by (cases x) auto

lemma scan_unicode:
  assumes "a < 16" "b < 16" "c < 16" "d < 16"
  shows "scan_string (CHR 0x5C # CHR ''u'' # hex_digit a # hex_digit b # hex_digit c # hex_digit d # t) =
    map_option (\<lambda>(x, r). (CHR 0x5C # CHR ''u'' # hex_digit a # hex_digit b # hex_digit c # hex_digit d # x, r)) (scan_string t)"
proof -
  have h: "hex4 (hex_digit a # hex_digit b # hex_digit c # hex_digit d # t) \<noteq> None" using assms by simp
  have "scan_string (CHR 0x5C # CHR ''u'' # hex_digit a # hex_digit b # hex_digit c # hex_digit d # t) =
    map_option (\<lambda>(x, r). (CHR 0x5C # CHR ''u'' # x, r)) (scan_string (hex_digit a # hex_digit b # hex_digit c # hex_digit d # t))"
    by (subst scan_string.simps(2)) (use h in \<open>simp del: hex4.simps scan_string.simps\<close>)
  then show ?thesis
    by (simp add: scan_hex_digit assms map_option_pair del: scan_string.simps)
qed

text \<open>The escape of a character of the ASCII range, in the two forms the marshaller uses.\<close>

lemma json_escape_cases:
  assumes "ord_of c < 128"
  obtains (plain) "json_escape c = [c]" "c \<noteq> CHR 0x22" "c \<noteq> CHR 0x5C" "32 \<le> ord_of c"
  | (short) e where "json_escape c = [CHR 0x5C, e]" "e \<in> set ([CHR 0x22, CHR 0x5C, CHR ''/''] @ ''bfnrt'')" "escaped_char e = c" "e \<noteq> CHR ''u''"
  | (unicode) "json_escape c = CHR 0x5C # ''u00'' @ [hex_digit (ord_of c div 16), hex_digit (ord_of c mod 16)]"
proof -
  have chr: "c = chr_of (ord_of c)" by simp
  consider "c = CHR 0x22 \<or> c = CHR 0x5C" | "ord_of c = 8" | "ord_of c = 12" | "ord_of c = 10" | "ord_of c = 13" | "ord_of c = 9"
    | "c \<notin> {CHR 0x22, CHR 0x5C} \<and> ord_of c \<notin> {8, 12, 10, 13, 9} \<and> (ord_of c < 32 \<or> c = CHR ''<'' \<or> c = CHR ''>'' \<or> c = CHR ''&'')"
    | "c \<notin> {CHR 0x22, CHR 0x5C} \<and> ord_of c \<notin> {8, 12, 10, 13, 9} \<and> \<not> (ord_of c < 32 \<or> c = CHR ''<'' \<or> c = CHR ''>'' \<or> c = CHR ''&'')"
    by blast
  then show thesis
  proof cases
    case 1 then show thesis by (intro short [of c]) (auto simp: json_escape_def escaped_char_def)
  next
    case 2 then have "c = CHR 0x08" by (simp add: ord_eq_iff [of c])
    then show thesis by (intro short [of "CHR ''b''"]) (simp_all add: json_escape_def escaped_char_def)
  next
    case 3 then have "c = CHR 0x0C" by (simp add: ord_eq_iff [of c])
    then show thesis by (intro short [of "CHR ''f''"]) (simp_all add: json_escape_def escaped_char_def)
  next
    case 4 then have "c = CHR 0x0A" by (simp add: ord_eq_iff [of c])
    then show thesis by (intro short [of "CHR ''n''"]) (simp_all add: json_escape_def escaped_char_def)
  next
    case 5 then have "c = CHR 0x0D" by (simp add: ord_eq_iff [of c])
    then show thesis by (intro short [of "CHR ''r''"]) (simp_all add: json_escape_def escaped_char_def)
  next
    case 6 then have "c = CHR 0x09" by (simp add: ord_eq_iff [of c])
    then show thesis by (intro short [of "CHR ''t''"]) (simp_all add: json_escape_def escaped_char_def)
  next
    case 7 then show thesis by (intro unicode) (auto simp: json_escape_def Let_def)
  next
    case 8 then show thesis by (intro plain) (auto simp: json_escape_def Let_def)
  qed
qed

lemma zero_digit: "CHR ''0'' = hex_digit 0"
  by (simp add: hex_digit_def ord_eq_iff)

lemma scan_escaped:
  "e \<in> set ([CHR 0x22, CHR 0x5C, CHR ''/''] @ ''bfnrt'') \<Longrightarrow>
    scan_string (CHR 0x5C # e # t) = map_option (\<lambda>(b, r). (CHR 0x5C # e # b, r)) (scan_string t)"
  by (subst scan_string.simps(2)) (simp del: scan_string.simps)

lemma scan_escape:
  assumes "ord_of c < 128"
  shows "scan_string (json_escape c @ t) = map_option (\<lambda>(b, r). (json_escape c @ b, r)) (scan_string t)"
  using assms
proof (cases rule: json_escape_cases)
  case plain then show ?thesis by (simp add: scan_plain del: scan_string.simps)
next
  case (short e)
  show ?thesis unfolding short(1) using scan_escaped [OF short(2)] by (simp del: scan_string.simps)
next
  case unicode
  note 0 = zero_digit
  show ?thesis unfolding unicode using assms scan_unicode [of 0 0 "ord_of c div 16" "ord_of c mod 16" t]
    by (simp add: 0 del: scan_string.simps)
qed

lemma encode_ascii: "x < 128 \<Longrightarrow> encode_rune x = [chr_of x]"
  by (simp add: encode_rune_def bytes_str_def)

lemma unquote_backslash:
  "e \<noteq> CHR ''u'' \<Longrightarrow> unquote (CHR 0x5C # e # t) = escaped_char e # unquote t"
  by (subst unquote.simps) simp

lemma unquote_ascii: "c \<noteq> CHR 0x5C \<Longrightarrow> ord_of c < 128 \<Longrightarrow> unquote (c # t) = c # unquote t"
  by (subst unquote.simps) simp

lemma unquote_unicode:
  assumes "a < 16" "b < 16" "c < 16" "d < 16" and "\<not> (55296 \<le> 4096 * a + 256 * b + 16 * c + d \<and> 4096 * a + 256 * b + 16 * c + d < 56320)"
  shows "unquote (CHR 0x5C # CHR ''u'' # hex_digit a # hex_digit b # hex_digit c # hex_digit d # t) =
    encode_rune (4096 * a + 256 * b + 16 * c + d) @ unquote t"
  using assms by (subst unquote.simps) (auto simp: Let_def)

lemma unquote_escape:
  assumes "ord_of c < 128" shows "unquote (json_escape c @ t) = c # unquote t"
  using assms
proof (cases rule: json_escape_cases)
  case plain then show ?thesis using assms by (simp add: unquote_ascii)
next
  case (short e) then show ?thesis by (simp add: unquote_backslash)
next
  case unicode
  note 0 = zero_digit
  show ?thesis unfolding unicode
    using assms unquote_unicode [of 0 0 "ord_of c div 16" "ord_of c mod 16" t] encode_ascii [of "ord_of c"]
    by (simp add: 0)
qed

section \<open>Strings\<close>

lemma scan_bytes:
  "\<forall>c \<in> set p. 128 \<le> ord_of c \<Longrightarrow> scan_string (p @ t) = map_option (\<lambda>(b, r). (p @ b, r)) (scan_string t)"
proof (induction p)
  case Nil
  show ?case by (cases "scan_string t") auto
next
  case (Cons c p)
  have "128 \<le> ord_of c" using Cons.prems by simp
  then have "c \<noteq> CHR 0x22" "c \<noteq> CHR 0x5C" "32 \<le> ord_of c" by auto
  then have "scan_string (c # p @ t) = map_option (\<lambda>(b, r). (c # b, r)) (scan_string (p @ t))" by (intro scan_plain)
  with Cons show ?case by (simp add: map_option_pair del: scan_string.simps)
qed

lemma hex_digits_2028: "''u2028'' = CHR ''u'' # hex_digit 2 # hex_digit 0 # hex_digit 2 # hex_digit 8 # []"
  and hex_digits_2029: "''u2029'' = CHR ''u'' # hex_digit 2 # hex_digit 0 # hex_digit 2 # hex_digit 9 # []"
  by (simp_all add: hex_digit_def ord_eq_iff)

lemma scan_rune:
  assumes "utf8_width s \<noteq> 0" "128 \<le> ord_of (hd s)"
  shows "scan_string (json_rune (take (utf8_width s) s) @ t) =
    map_option (\<lambda>(b, r). (json_rune (take (utf8_width s) s) @ b, r)) (scan_string t)"
  using scan_bytes [OF rune_bytes [OF assms], of t] scan_unicode [of 2 0 2 8 t] scan_unicode [of 2 0 2 9 t]
  by (simp add: json_rune_def hex_digits_2028 hex_digits_2029 del: scan_string.simps)

lemma scan_json_chars:
  "utf8_valid s \<Longrightarrow> scan_string (json_chars s @ t) = map_option (\<lambda>(b, r). (json_chars s @ b, r)) (scan_string t)"
proof (induction s rule: utf8_valid.induct)
  case (1 s)
  show ?case
  proof (cases "s = []")
    case True
    show ?thesis unfolding True by (cases "scan_string t") (auto simp: json_chars.simps)
  next
    case False
    with 1 have w: "utf8_width s \<noteq> 0" and IH: "scan_string (json_chars (drop (utf8_width s) s) @ t) =
        map_option (\<lambda>(b, r). (json_chars (drop (utf8_width s) s) @ b, r)) (scan_string t)"
      by (auto simp: utf8_valid.simps [of s] split: if_splits)
    show ?thesis
    proof (cases "ord_of (hd s) < 128")
      case True
      then have "drop (utf8_width s) s = tl s" using False by (cases s) (simp_all add: utf8_width_ascii)
      with IH scan_escape [OF True] show ?thesis
        by (simp add: json_chars.simps [of s] False True map_option_pair del: scan_string.simps)
    next
      case ge: False
      then have j: "json_chars s = json_rune (take (utf8_width s) s) @ json_chars (drop (utf8_width s) s)"
        using False w by (simp add: json_chars.simps [of s])
      show ?thesis unfolding j using IH scan_rune [OF w] ge by (simp add: map_option_pair del: scan_string.simps)
    qed
  qed
qed

lemma unquote_rune_bytes:
  assumes "utf8_width s \<noteq> 0" "128 \<le> ord_of (hd s)"
  shows "unquote (take (utf8_width s) s @ t) = take (utf8_width s) s @ unquote t"
proof -
  let ?p = "take (utf8_width s) s"
  have w: "utf8_width (?p @ t) = utf8_width s" by (rule utf8_width_take [OF assms(1)])
  have l: "length ?p = utf8_width s" using utf8_width_le [of s] by simp
  obtain c p where p: "?p = c # p" using l assms(1) by (cases ?p) auto
  have "128 \<le> ord_of c" using rune_bytes [OF assms] p by simp
  moreover have "utf8_width s = Suc (length p)" using l p by simp
  ultimately show ?thesis using w unfolding p by (subst unquote.simps) auto
qed

lemma encode_2028: "encode_rune 8232 = bytes_str [226, 128, 168]" and encode_2029: "encode_rune 8233 = bytes_str [226, 128, 169]"
  by (simp_all add: encode_rune_def)

lemma unquote_rune:
  assumes "utf8_width s \<noteq> 0" "128 \<le> ord_of (hd s)"
  shows "unquote (json_rune (take (utf8_width s) s) @ t) = take (utf8_width s) s @ unquote t"
  using unquote_rune_bytes [OF assms, of t] unquote_unicode [of 2 0 2 8 t] unquote_unicode [of 2 0 2 9 t]
  by (simp add: json_rune_def hex_digits_2028 hex_digits_2029 encode_2028 encode_2029)

lemma unquote_json_chars: "utf8_valid s \<Longrightarrow> unquote (json_chars s) = s"
proof (induction s rule: utf8_valid.induct)
  case (1 s)
  show ?case
  proof (cases "s = []")
    case True then show ?thesis by (simp add: json_chars.simps unquote.simps)
  next
    case False
    with 1 have w: "utf8_width s \<noteq> 0" and IH: "unquote (json_chars (drop (utf8_width s) s)) = drop (utf8_width s) s"
      by (auto simp: utf8_valid.simps [of s] split: if_splits)
    show ?thesis
    proof (cases "ord_of (hd s) < 128")
      case True
      then have "drop (utf8_width s) s = tl s" using False by (cases s) (simp_all add: utf8_width_ascii)
      with IH unquote_escape [OF True] show ?thesis by (simp add: json_chars.simps [of s] False True)
    next
      case ge: False
      then have j: "json_chars s = json_rune (take (utf8_width s) s) @ json_chars (drop (utf8_width s) s)"
        using False w by (simp add: json_chars.simps [of s])
      show ?thesis unfolding j using IH unquote_rune [OF w] ge by simp
    qed
  qed
qed

lemma scan_json_string: "utf8_valid s \<Longrightarrow> scan_string (json_chars s @ CHR 0x22 # r) = Some (json_chars s, r)"
  by (simp add: scan_json_chars)

section \<open>Payloads\<close>

text \<open>The parsed form of a payload value.\<close>

fun json_of :: "payload_value \<Rightarrow> json" where
  "json_of (PText s) = JStr s"
| "json_of (PInt i) = JNum (itoa i)"
| "json_of (PTexts xs) = JArr (map JStr xs)"

fun value_text_ok :: "payload_value \<Rightarrow> bool" where
  "value_text_ok (PText s) = utf8_valid s"
| "value_text_ok (PInt i) = True"
| "value_text_ok (PTexts xs) = list_all utf8_valid xs"

definition payload_text_ok :: "payload \<Rightarrow> bool" where
  "payload_text_ok p \<longleftrightarrow> (\<forall>(k, v) \<in> set p. utf8_valid k \<and> value_text_ok v)"

lemma parse_json_string:
  "utf8_valid s \<Longrightarrow> parse_value (Suc f) d (json_string s @ r) = Some (JStr s, r)"
  by (simp add: json_string_def scan_json_string unquote_json_chars del: scan_string.simps)

lemma take_digits_all: "\<forall>c \<in> set s. digit_val c \<noteq> None \<Longrightarrow> (r = [] \<or> digit_val (hd r) = None) \<Longrightarrow> take_digits (s @ r) = (s, r)"
  by (induction s) (cases r; auto)+

lemma hd_nat_digits_zero: "hd (nat_digits n) = CHR ''0'' \<Longrightarrow> n = 0"
proof (induction n rule: nat_digits.induct)
  case (1 n)
  show ?case
  proof (cases "n < 10")
    case True
    then show ?thesis using 1(2) by (auto simp: nat_digits.simps [of n] ord_eq_iff)
  next
    case False
    with 1 have "n div 10 = 0" by (simp add: nat_digits.simps [of n] hd_append)
    with False show ?thesis by simp
  qed
qed

text \<open>What follows a number literal in a document.\<close>

definition number_end :: "string \<Rightarrow> bool" where
  "number_end r \<longleftrightarrow> r = [] \<or> (digit_val (hd r) = None \<and> hd r \<noteq> CHR ''.'' \<and> hd r \<noteq> CHR ''e'' \<and> hd r \<noteq> CHR ''E'')"

lemma scan_digits:
  assumes "number_end r"
  shows "take_digits (nat_digits n @ r) = (nat_digits n, r)"
  by (rule take_digits_all) (use assms nat_digits_set in \<open>auto simp: number_end_def\<close>)

lemma nat_digits_zero: "nat_digits 0 = ''0''"
  by (simp add: nat_digits.simps [of 0] ord_eq_iff)

lemma hd_digits: "digit_val (hd (nat_digits n)) \<noteq> None"
  by (rule nat_digits_set [OF hd_in_set [OF nat_digits_nonempty]])

lemma hd_digits_sign: "hd (nat_digits n) \<noteq> CHR ''-''"
  using hd_digits [of n] by (auto simp: digit_val_def)

lemma scan_itoa: "number_end r \<Longrightarrow> scan_number (itoa i @ r) = Some (length (itoa i))"
proof -
  assume r: "number_end r"
  have frac: "scan_fraction r = (r, True)" and ex: "scan_exponent r = (r, True)"
    using r by (auto simp: number_end_def scan_fraction_def scan_exponent_def split: list.splits)
  have zero: "hd (nat_digits n) = CHR ''0'' \<Longrightarrow> length (nat_digits n) = 1" for n
    using hd_nat_digits_zero [of n] nat_digits_zero by auto
  have body: "(case nat_digits n @ r of c # s' \<Rightarrow> if c = CHR ''-'' then s' else nat_digits n @ r | [] \<Rightarrow> nat_digits n @ r) = nat_digits n @ r" for n
    using hd_digits_sign [of n] nat_digits_nonempty [of n] by (cases "nat_digits n") auto
  show ?thesis
  proof (cases "i < 0")
    case True
    then show ?thesis using zero by (simp add: itoa_def scan_number_def scan_digits [OF r] frac ex)
  next
    case False
    then show ?thesis using zero by (simp add: itoa_def scan_number_def scan_digits [OF r] frac ex body)
  qed
qed

lemma itoa_head: "\<exists>c s. itoa i = c # s \<and> (c = CHR ''-'' \<or> digit_val c \<noteq> None)"
  using hd_digits [of "nat i"] nat_digits_nonempty [of "nat i"] by (cases "nat_digits (nat i)") (auto simp: itoa_def)

lemma parse_itoa:
  assumes "number_end r" shows "parse_value (Suc f) d (itoa i @ r) = Some (JNum (itoa i), r)"
proof -
  obtain c s where c: "itoa i = c # s" "c = CHR ''-'' \<or> digit_val c \<noteq> None" using itoa_head by blast
  then have n: "c \<noteq> CHR 0x22" "c \<noteq> CHR ''{''" "c \<noteq> CHR ''[''" "c \<noteq> CHR ''t''" "c \<noteq> CHR ''f''" "c \<noteq> CHR ''n''"
    by (auto simp: digit_val_def)
  have "scan_number (c # s @ r) = Some (length (c # s))" using scan_itoa [OF assms, of i] unfolding c by simp
  then show ?thesis unfolding c using n by (simp add: has_prefix_def del: scan_string.simps)
qed

lemma skip_ws_head: "c \<notin> {CHR 0x20, CHR 0x09, CHR 0x0A, CHR 0x0D} \<Longrightarrow> skip_ws (c # s) = c # s"
  by (simp add: skip_ws_def)

lemma skip_ws_string: "skip_ws (json_string s @ r) = json_string s @ r"
  by (simp add: json_string_def skip_ws_head)

lemma join_on_Cons: "join_on c (x # xs) = x @ (if xs = [] then [] else c # join_on c xs)"
  by (cases xs) auto

lemma parse_texts:
  "xs \<noteq> [] \<Longrightarrow> length xs \<le> f \<Longrightarrow> list_all utf8_valid xs \<Longrightarrow>
    parse_elements (Suc f) d (join_on CHR '','' (map json_string xs) @ CHR '']'' # r) = Some (map JStr xs, r)"
proof (induction xs arbitrary: f)
  case (Cons x xs)
  then obtain g where f: "f = Suc g" by (cases f) auto
  show ?case
  proof (cases "xs = []")
    case True
    then show ?thesis using Cons.prems by (simp add: f parse_json_string skip_ws_head del: parse_value.simps)
  next
    case False
    let ?more = "join_on CHR '','' (map json_string xs) @ CHR '']'' # r"
    have ws: "skip_ws ?more = ?more"
      using False by (cases xs) (auto simp: join_on_Cons skip_ws_string)
    have "parse_elements f d ?more = Some (map JStr xs, r)" using Cons False unfolding f by (intro Cons.IH) auto
    then show ?thesis
      using Cons.prems False ws unfolding f
      by (simp add: join_on_Cons parse_json_string skip_ws_head del: parse_value.simps parse_elements.simps(2)) 
        (subst parse_elements.simps(2), simp add: parse_json_string skip_ws_head del: parse_value.simps parse_elements.simps(2))
  qed
qed simp

fun value_fuel :: "payload_value \<Rightarrow> nat" where
  "value_fuel (PTexts xs) = 2 + length xs"
| "value_fuel _ = 1"

lemma value_head: "\<exists>c s. marshal_value v = c # s \<and> c \<notin> {CHR 0x20, CHR 0x09, CHR 0x0A, CHR 0x0D}"
proof (cases v)
  case (PInt i)
  obtain c s where "itoa i = c # s" "c = CHR ''-'' \<or> digit_val c \<noteq> None" using itoa_head by blast
  then show ?thesis using PInt by (auto simp: digit_val_def)
qed (simp_all add: json_string_def)

lemma parse_marshal_value:
  assumes "value_text_ok v" "value_fuel v \<le> f" "number_end r" "d < max_nesting"
  shows "parse_value f d (marshal_value v @ r) = Some (json_of v, r)"
proof -
  obtain g where f: "f = Suc g" using assms(2) by (cases f) (cases v; simp)+
  show ?thesis
  proof (cases v)
    case (PTexts xs)
    show ?thesis
    proof (cases "xs = []")
      case True
      then show ?thesis using assms(4) by (simp add: PTexts f skip_ws_head)
    next
      case False
      let ?more = "join_on CHR '','' (map json_string xs) @ CHR '']'' # r"
      obtain x ys where xs: "xs = x # ys" using False by (cases xs) auto
      have ws: "skip_ws ?more = ?more" unfolding xs by (simp add: join_on_Cons skip_ws_string)
      have hd: "hd ?more \<noteq> CHR '']''" unfolding xs by (simp add: join_on_Cons json_string_def)
      obtain h where g: "g = Suc h" "length xs \<le> h" using assms(2) unfolding f PTexts by (cases g) auto
      have "parse_elements g (Suc d) ?more = Some (map JStr xs, r)"
        using assms(1) False g(2) unfolding g(1) PTexts by (intro parse_texts) simp_all
      then show ?thesis using assms(4) ws hd by (simp add: PTexts f del: parse_elements.simps scan_string.simps)
    qed
  qed (use assms in \<open>simp_all add: f parse_json_string parse_itoa del: parse_value.simps\<close>)
qed

text \<open>The members of a payload, as marshalled and as parsed.\<close>

definition member_text :: "string \<times> payload_value \<Rightarrow> string" where
  "member_text = (\<lambda>(k, v). json_string k @ '':'' @ marshal_value v)"

definition member_of :: "string \<times> payload_value \<Rightarrow> string \<times> string \<times> json" where
  "member_of = (\<lambda>(k, v). (k, marshal_value v, json_of v))"

lemma parse_member:
  assumes "utf8_valid k" "value_text_ok v" "value_fuel v \<le> f" "number_end r" "d < max_nesting"
  shows "parse_members (Suc f) d (member_text (k, v) @ r) =
    (let s5 = skip_ws r in
     if s5 = [] then None
     else if hd s5 = CHR ''}'' then Some ([member_of (k, v)], tl s5)
     else if hd s5 = CHR '','' then map_option (\<lambda>(ms, r). (member_of (k, v) # ms, r)) (parse_members f d (skip_ws (tl s5)))
     else None)"
proof -
  obtain c s where h: "marshal_value v = c # s" "c \<notin> {CHR 0x20, CHR 0x09, CHR 0x0A, CHR 0x0D}" using value_head by blast
  have ws: "skip_ws (marshal_value v @ r) = marshal_value v @ r" unfolding h(1) using skip_ws_head [OF h(2)] by simp
  have scan: "scan_string (json_chars k @ CHR 0x22 # CHR '':'' # marshal_value v @ r) = Some (json_chars k, CHR '':'' # marshal_value v @ r)"
    by (rule scan_json_string [OF assms(1)])
  have c: "consumed_text (marshal_value v @ r) r = marshal_value v" by (simp add: consumed_text_def)
  show ?thesis
    by (subst parse_members.simps(2))
      (simp add: Let_def member_text_def member_of_def json_string_def scan unquote_json_chars [OF assms(1)] skip_ws_head ws c
        parse_marshal_value [OF assms(2-5)] del: parse_members.simps parse_value.simps scan_string.simps)
qed

lemma parse_payload_members:
  "p \<noteq> [] \<Longrightarrow> payload_text_ok p \<Longrightarrow> sum_list (map (Suc \<circ> value_fuel \<circ> snd) p) \<le> f \<Longrightarrow> d < max_nesting \<Longrightarrow>
    parse_members (Suc f) d (join_on CHR '','' (map member_text p) @ CHR ''}'' # r) = Some (map member_of p, r)"
proof (induction p arbitrary: f)
  case (Cons x p)
  obtain k v where x: "x = (k, v)" by (rule prod.exhaust)
  then have kv: "utf8_valid k" "value_text_ok v" "value_fuel v \<le> f" using Cons.prems by (auto simp: payload_text_ok_def)
  show ?case
  proof (cases "p = []")
    case True
    have "number_end (CHR ''}'' # r)" by (simp add: number_end_def digit_val_def)
    from parse_member [OF kv this Cons.prems(4)] show ?thesis
      by (simp add: True x skip_ws_head del: parse_members.simps)
  next
    case False
    let ?more = "join_on CHR '','' (map member_text p) @ CHR ''}'' # r"
    obtain k' v' q where p: "p = (k', v') # q" using False by (cases p) auto
    have ws: "skip_ws ?more = ?more" by (simp add: p join_on_Cons member_text_def json_string_def skip_ws_head)
    obtain g where f: "f = Suc g" using Cons.prems(3) by (cases f) auto
    have IH: "parse_members f d ?more = Some (map member_of p, r)"
      unfolding f using Cons.prems False by (intro Cons.IH) (auto simp: f payload_text_ok_def)
    have "number_end (CHR '','' # ?more)" by (simp add: number_end_def digit_val_def)
    from parse_member [OF kv this Cons.prems(4)] show ?thesis
      using IH ws False by (simp add: x join_on_Cons skip_ws_head del: parse_members.simps)
  qed
qed simp

lemma set_insert_fields: "set (foldr insert_field p []) = set p"
proof -
  have "set (insert_field f q) = insert f (set q)" for f q by (induction q) auto
  then show ?thesis by (induction p) auto
qed

lemma parse_marshal_payload:
  assumes "payload_text_ok p"
  shows "parse_document (marshal_payload p) = Some (JObj (map member_of (foldr insert_field p [])))"
proof -
  let ?q = "foldr insert_field p []" and ?s = "marshal_payload p"
  have q: "payload_text_ok ?q" using assms set_insert_fields [of p] by (simp add: payload_text_ok_def)
  have mt: "(\<lambda>(k, v). json_string k @ '':'' @ marshal_value v) = member_text" by (simp add: member_text_def)
  have s: "?s = CHR ''{'' # join_on CHR '','' (map member_text ?q) @ [CHR ''}'']"
    unfolding marshal_payload_def mt by simp
  define f where "f = 2 * length ?s + 2 + sum_list (map (Suc \<circ> value_fuel \<circ> snd) ?q)"
  have "parse_value (Suc (Suc f)) 0 ?s = Some (JObj (map member_of ?q), [])"
  proof (cases "?q = []")
    case True
    then show ?thesis unfolding s by (simp add: skip_ws_head max_nesting_def)
  next
    case False
    let ?more = "join_on CHR '','' (map member_text ?q) @ [CHR ''}'']"
    obtain k v q' where kv: "?q = (k, v) # q'" using False by (cases ?q) auto
    have ws: "skip_ws ?more = ?more" and hd: "hd ?more \<noteq> CHR ''}''"
      unfolding kv by (simp_all add: join_on_Cons member_text_def json_string_def skip_ws_head)
    have "parse_members (Suc f) (Suc 0) ?more = Some (map member_of ?q, [])"
      by (rule parse_payload_members [OF False q]) (simp_all add: f_def max_nesting_def)
    then show ?thesis unfolding s using ws hd by (simp add: max_nesting_def del: parse_members.simps scan_string.simps)
  qed
  moreover have "skip_ws ?s = ?s" unfolding s by (simp add: skip_ws_head)
  moreover have "skip_ws [] = []" by (simp add: skip_ws_def)
  moreover have "2 * length ?s + 2 \<le> Suc (Suc f)" by (simp add: f_def)
  ultimately show ?thesis by (simp only: parse_document_fuel option.case prod.case if_True refl)
qed

end
