(* ===== verification/Web_Bridge.thy ===== *)
theory Web_Bridge
  imports SSE_Hub JSON_Roundtrip Stage_Status Stage_Packets
begin

text \<open>
  From the notifications of the projector to the browsers: \<^verbatim>\<open>bridgeNotification\<close>
  (\<^verbatim>\<open>cmd/meshbug/web.go\<close>) reads the JSON payload and publishes events to the hub, the SSE
  endpoints (\<^verbatim>\<open>internal/web/server.go\<close>, \<^verbatim>\<open>handlers.go\<close>) subscribe to its topics. The
  lemmas follow a notification from the stage that sends it to the topics it is published on.
\<close>

unbundle bit_operations_syntax

section \<open>Reading the payload\<close>

text \<open>
  \<^verbatim>\<open>json.Unmarshal\<close> into a struct whose error is ignored: a syntax error leaves the zero value, a
  member of the wrong type leaves its field as it is. A \<^verbatim>\<open>[]string\<close> is its elements and what the
  backing array holds beyond them, because a \<^verbatim>\<open>null\<close> element keeps what was there before.
\<close>

record go_strings =
  gs_elems :: "string list"
  gs_spare :: "string list"

definition decode_text :: "json \<Rightarrow> string \<Rightarrow> string" where
  "decode_text v old = (case set_text v old of None \<Rightarrow> old | Some s \<Rightarrow> s)"

fun decode_texts :: "json list \<Rightarrow> string list \<Rightarrow> string list \<times> string list" where
  "decode_texts [] backing = ([], backing)"
| "decode_texts (v # vs) backing =
     (let old = (case backing of [] \<Rightarrow> [] | b # _ \<Rightarrow> b); (xs, spare) = decode_texts vs (tl backing)
      in (decode_text v old # xs, spare))"

definition set_texts :: "json \<Rightarrow> go_strings \<Rightarrow> go_strings" where
  "set_texts v g = (case v of
     JNull \<Rightarrow> \<lparr>gs_elems = [], gs_spare = []\<rparr>
   | JArr [] \<Rightarrow> \<lparr>gs_elems = [], gs_spare = []\<rparr>
   | JArr vs \<Rightarrow> (let (xs, spare) = decode_texts vs (gs_elems g @ gs_spare g) in \<lparr>gs_elems = xs, gs_spare = spare\<rparr>)
   | _ \<Rightarrow> g)"

definition set_int :: "json \<Rightarrow> int \<Rightarrow> int" where
  "set_int v old = (case v of JNum s \<Rightarrow> (case atoi s of None \<Rightarrow> old | Some i \<Rightarrow> i) | _ \<Rightarrow> old)"

record packets_note =
  bn_Count :: int
  bn_Observers :: go_strings

definition packets_member :: "string \<Rightarrow> json \<Rightarrow> packets_note \<Rightarrow> packets_note" where
  "packets_member k v p =
     (if field_matches ''count'' k then p\<lparr>bn_Count := set_int v (bn_Count p)\<rparr>
      else if field_matches ''observers'' k then p\<lparr>bn_Observers := set_texts v (bn_Observers p)\<rparr>
      else p)"

definition status_member :: "string \<Rightarrow> json \<Rightarrow> string \<Rightarrow> string" where
  "status_member k v p = (if field_matches ''observer_id'' k then decode_text v p else p)"

definition unmarshal_note :: "(string \<Rightarrow> json \<Rightarrow> 'm \<Rightarrow> 'm) \<Rightarrow> 'm \<Rightarrow> string \<Rightarrow> 'm" where
  "unmarshal_note member z payload = (case parse_document payload of
     Some (JObj ms) \<Rightarrow> fold (\<lambda>(k, txt, v). member k v) ms z
   | _ \<Rightarrow> z)"

section \<open>The bridge\<close>

text \<open>The topics a notification is published on, in order.\<close>

definition bridge_topics :: "Notification \<Rightarrow> string list" where
  "bridge_topics n =
     (if nt_Channel n = ChannelPackets then
        let p = unmarshal_note packets_member \<lparr>bn_Count = 0, bn_Observers = \<lparr>gs_elems = [], gs_spare = []\<rparr>\<rparr> (nt_Payload n)
        in [''live-feed'', ''overview''] @ map (\<lambda>i. ''observer:'' @ i) (gs_elems (bn_Observers p))
      else if nt_Channel n = ChannelStatus then
        let p = unmarshal_note status_member [] (nt_Payload n)
        in [''overview''] @ (if p \<noteq> [] then [''observer:'' @ p] else [])
      else if nt_Channel n = ChannelAnomaly then [''anomalies'', ''overview'']
      else [])"

text \<open>Every publication may range over the subscribers in its own order; \<open>None\<close> is a panic.\<close>

fun publish_topics :: "(nat \<Rightarrow> nat \<Rightarrow> nat list) \<Rightarrow> string list \<Rightarrow> 'p Hub \<Rightarrow> 'p Hub option" where
  "publish_topics its [] h = Some h"
| "publish_topics its (t # ts) h =
     Option.bind (Hub_Publish (its (length ts)) \<lparr>se_Topic = t, se_Payload = None\<rparr> h) (publish_topics its ts)"

definition bridgeNotification :: "(nat \<Rightarrow> nat \<Rightarrow> nat list) \<Rightarrow> Notification \<Rightarrow> 'p Hub \<Rightarrow> 'p Hub option" where
  "bridgeNotification its n h = publish_topics its (bridge_topics n) h"

section \<open>The endpoints\<close>

text \<open>The result of \<^verbatim>\<open>hex.DecodeString\<close> of the path parameter, \<open>None\<close> with an error.\<close>

definition observerIDFromURL :: "string \<Rightarrow> bytes option" where
  "observerIDFromURL param = (let (bs, ok) = hex_decode (TrimSpace param) in if ok then Some bs else None)"

definition HexFull :: "bytes \<Rightarrow> string" where
  "HexFull b = concat (map (\<lambda>c. [hex_digit (unat (drop_bit 4 c)), hex_digit (unat (c AND 15))]) b)"

datatype sse_endpoint = SSELive | SSEOverview | SSEAnomalies | SSEObserver string

definition sse_topics :: "sse_endpoint \<Rightarrow> string list option" where
  "sse_topics e = (case e of
     SSELive \<Rightarrow> Some [''live-feed'']
   | SSEOverview \<Rightarrow> Some [''overview'']
   | SSEAnomalies \<Rightarrow> Some [''anomalies'']
   | SSEObserver param \<Rightarrow> map_option (\<lambda>i. [''observer:'' @ HexFull i]) (observerIDFromURL param))"

lemma HexFull_encode: "HexFull b = hex_encode b"
proof -
  have "unat (drop_bit 4 c) = drop_bit 4 (unat c)" for c :: "8 word" by (rule unat_drop_bit_eq)
  then have hi: "unat (drop_bit 4 c) = unat c div 16" for c :: "8 word" by (simp only: drop_bit_eq_div) simp
  have m: "(15 :: 8 word) = mask 4" by (simp add: mask_eq_exp_minus_1)
  have "unat (c AND 15) = take_bit 4 (unat c)" for c :: "8 word"
    unfolding m take_bit_eq_mask [symmetric] by (rule unsigned_take_bit_eq)
  then have "unat (c AND 15) = unat c mod 16" for c :: "8 word" by (simp only: take_bit_eq_mod) simp
  then show ?thesis using hi by (simp add: HexFull_def hex_encode_def)
qed

section \<open>Publishing on several topics\<close>

lemma publish_topics_ok:
  assumes "hub_ok s" "\<forall>i. range_order (its i)"
  shows "\<exists>h. publish_topics its ts (hs_hub s) = Some h \<and> hub_ok (s\<lparr>hs_hub := h\<rparr>) \<and> length (hb_chans h) = length (hb_chans (hs_hub s)) \<and>
    (\<forall>c < length (hb_chans h). ch_cap (hb_chans h ! c) = ch_cap (hb_chans (hs_hub s) ! c) \<and>
      ch_buf (hb_chans h ! c) = take (ch_cap (hb_chans (hs_hub s) ! c))
        (ch_buf (hb_chans (hs_hub s) ! c) @ map (\<lambda>t. \<lparr>se_Topic = t, se_Payload = None\<rparr>) (filter (\<lambda>t. c \<in> subscribed s t) ts)))"
  using assms(1)
proof (induction ts arbitrary: s)
  case Nil
  then show ?case using hub_ok_room [OF Nil] by simp
next
  case (Cons t ts)
  let ?e = "\<lparr>se_Topic = t, se_Payload = None\<rparr>" and ?old = "hb_chans (hs_hub s)"
  obtain chans where p: "Hub_Publish (its (length ts)) ?e (hs_hub s) = Some ((hs_hub s)\<lparr>hb_chans := chans\<rparr>)"
    "length chans = length ?old"
    "\<And>d. d < length chans \<Longrightarrow> chans ! d = (if d \<in> subscribed s t then sent_to ?e (?old ! d) else ?old ! d)"
    using Hub_Publish_ok [OF Cons.prems assms(2) [rule_format], of "length ts" ?e] by auto
  let ?s = "s\<lparr>hs_hub := (hs_hub s)\<lparr>hb_chans := chans\<rparr>\<rparr>"
  have "hub_ok ?s" by (rule hub_ok_publish [OF Cons.prems assms(2) [rule_format] p(1)])
  from Cons.IH [OF this] obtain h where h: "publish_topics its ts (hs_hub ?s) = Some h" "hub_ok (s\<lparr>hs_hub := h\<rparr>)"
    "length (hb_chans h) = length chans"
    and c: "\<forall>c < length (hb_chans h). ch_cap (hb_chans h ! c) = ch_cap (chans ! c) \<and> ch_buf (hb_chans h ! c) = take (ch_cap (chans ! c))
        (ch_buf (chans ! c) @ map (\<lambda>t. \<lparr>se_Topic = t, se_Payload = None\<rparr>) (filter (\<lambda>t. c \<in> subscribed s t) ts))"
    by (auto simp: subscribed_def)
  have "ch_cap (hb_chans h ! c) = ch_cap (?old ! c) \<and>
      ch_buf (hb_chans h ! c) = take (ch_cap (?old ! c))
        (ch_buf (?old ! c) @ map (\<lambda>t. \<lparr>se_Topic = t, se_Payload = None\<rparr>) (filter (\<lambda>t. c \<in> subscribed s t) (t # ts)))"
    if "c < length (hb_chans h)" for c
    using c [rule_format, OF that] p(3) [of c] hub_ok_room [OF Cons.prems, of c] that h(3) p(2) by (auto simp: sent_to_def take_Cons' Suc_diff_Suc)
  then show ?case using h p(1,2) by auto
qed

section \<open>Properties\<close>

text \<open>C25 (functional): the bridge publishes a notification without a panic, and every channel holds afterwards
  what it held before and the events of those of the notification's topics that it is subscribed to,
  in the order they were published, cut at its capacity.\<close>

theorem bridge_delivers:
  assumes "hub_reaches s" "\<forall>i. range_order (its i)"
  shows "\<exists>h. bridgeNotification its n (hs_hub s) = Some h \<and> length (hb_chans h) = length (hb_chans (hs_hub s)) \<and>
    (\<forall>c < length (hb_chans h). ch_buf (hb_chans h ! c) = take (ch_cap (hb_chans (hs_hub s) ! c))
        (ch_buf (hb_chans (hs_hub s) ! c) @
         map (\<lambda>t. \<lparr>se_Topic = t, se_Payload = None\<rparr>) (filter (\<lambda>t. c \<in> subscribed s t) (bridge_topics n))))"
  using publish_topics_ok [OF hub_reaches_ok [OF assms(1)] assms(2), where ts = "bridge_topics n"]
  by (auto simp: bridgeNotification_def)

lemma bridge_delivers_witness:
  "\<exists>h. bridgeNotification (\<lambda>i n. [0..<n]) \<lparr>nt_Channel = ChannelAnomaly, nt_Payload = []\<rparr> (hs_hub sample_hub) = Some h \<and>
    ch_buf (hb_chans h ! 0) = [\<lparr>se_Topic = ''anomalies'', se_Payload = None\<rparr>]"
proof -
  let ?n = "\<lparr>nt_Channel = ChannelAnomaly, nt_Payload = []\<rparr>"
  have "bridge_topics ?n = [''anomalies'', ''overview'']" by code_simp
  moreover have "subscribed sample_hub ''anomalies'' = {0}" "subscribed sample_hub ''overview'' = {0}"
    by (auto simp: subscribed_def sample_hub_def Subscribe_def NewHub_def)
  moreover have "hb_chans (hs_hub sample_hub) = [\<lparr>ch_cap = 1, ch_buf = [], ch_open = True\<rparr>]"
    by (simp add: sample_hub_def Subscribe_def NewHub_def)
  ultimately show ?thesis using bridge_delivers [OF sample_hub_reached, of "\<lambda>i n. [0..<n]" ?n] by auto
qed

section \<open>From the stages to the pages\<close>

lemma unat_256: "unat (b :: 8 word) < 256"
  using unsigned_less [of b] by simp

lemma hex_encode_ascii: "c \<in> set (hex_encode k) \<Longrightarrow> \<exists>n < 16. c = hex_digit n"
proof -
  assume "c \<in> set (hex_encode k)"
  then obtain b :: "8 word" where "c = hex_digit (unat b div 16) \<or> c = hex_digit (unat b mod 16)" by (auto simp: hex_encode_def)
  moreover have "unat b div 16 < 16" by (rule less_mult_imp_div_less) (use unat_256 [of b] in simp)
  ultimately show ?thesis by (metis mod_less_divisor zero_less_numeral)
qed

lemma hex_encode_valid: "utf8_valid (hex_encode k)"
  by (rule utf8_valid_ascii) (auto dest!: hex_encode_ascii simp: ord_hex_digit)

lemma json_chars_hex: "(\<forall>c \<in> set s. \<exists>n < 16. c = hex_digit n) \<Longrightarrow> json_chars s = s"
proof (induction s)
  case Nil
  then show ?case by (simp add: json_chars.simps)
next
  case (Cons c s)
  then obtain n where n: "n < 16" "c = hex_digit n" by auto
  have "json_escape c = [c]" using n by (auto simp: json_escape_def ord_hex_digit ord_eq_iff Let_def)
  then show ?case using Cons n by (subst json_chars.simps) (simp add: ord_hex_digit)
qed

lemma length_json_hex: "length (json_string (hex_encode k)) = 2 * length k + 2"
proof -
  have "json_chars (hex_encode k) = hex_encode k" using hex_encode_ascii by (blast intro: json_chars_hex)
  then show ?thesis by (simp add: json_string_def)
qed


lemma decode_fresh_texts: "decode_texts (map JStr xs) [] = (xs, [])"
  by (induction xs) (simp_all add: decode_text_def set_text_def)

lemma unmarshal_sent:
  "payload_text_ok p \<Longrightarrow> unmarshal_note member z (marshal_payload p) =
    fold (\<lambda>(k, v). member k (json_of v)) (foldr insert_field p []) z"
  by (simp add: unmarshal_note_def parse_marshal_payload member_of_def fold_map comp_def case_prod_unfold)

lemma note_fields:
  "field_matches ''observer_id'' ''observer_id''" "field_matches ''count'' ''count''" "field_matches ''observers'' ''observers''"
  "\<not> field_matches ''count'' ''observers''"
  by code_simp+

lemma channels_differ:
  "ChannelStatus \<noteq> ChannelPackets" "ChannelAnomaly \<noteq> ChannelPackets" "ChannelAnomaly \<noteq> ChannelStatus"
  by code_simp+

lemma status_note_topics:
  "k \<noteq> [] \<Longrightarrow> bridge_topics \<lparr>nt_Channel = ChannelStatus, nt_Payload = marshal_payload [(''observer_id'', PText (hex_encode k))]\<rparr> =
    [''overview'', ''observer:'' @ hex_encode k]"
proof -
  assume "k \<noteq> []"
  then have "hex_encode k \<noteq> []" by (simp add: length_greater_0_conv [symmetric] del: length_greater_0_conv)
  moreover have "payload_text_ok [(''observer_id'', PText (hex_encode k))]"
    using hex_encode_valid [of k] by (simp add: payload_text_ok_def utf8_valid_ascii)
  ultimately show ?thesis
    by (simp add: bridge_topics_def channels_differ unmarshal_sent status_member_def note_fields decode_text_def set_text_def)
qed

lemma packets_note_topics:
  "bridge_topics \<lparr>nt_Channel = ChannelPackets, nt_Payload = marshal_payload [(''count'', PInt n), (''observers'', PTexts (map hex_encode ks))]\<rparr> =
    [''live-feed'', ''overview''] @ map (\<lambda>k. ''observer:'' @ hex_encode k) ks"
proof -
  have t: "payload_text_ok [(''count'', PInt n), (''observers'', PTexts (map hex_encode ks))]"
    by (simp add: payload_text_ok_def utf8_valid_ascii list_all_iff hex_encode_valid)
  have o: "foldr insert_field [(''count'', PInt n), (''observers'', PTexts (map hex_encode ks))] [] =
    [(''count'', PInt n), (''observers'', PTexts (map hex_encode ks))]" by simp
  have "gs_elems (set_texts (JArr (map JStr xs)) \<lparr>gs_elems = [], gs_spare = []\<rparr>) = xs" for xs
    by (cases xs) (simp_all add: set_texts_def decode_fresh_texts decode_text_def set_text_def)
  then show ?thesis
    unfolding bridge_topics_def by (simp add: unmarshal_sent [OF t] o packets_member_def note_fields comp_def map_map [symmetric] del: foldr.simps map_map) simp
qed


text \<open>The sizes of the payloads.\<close>

lemma length_join: "length (join_on c xs) = sum_list (map length xs) + (length xs - 1)"
  by (induction c xs rule: join_on.induct) simp_all

lemma field_lengths: "length (json_string ''observer_id'') = 13" "length (json_string ''count'') = 7" "length (json_string ''observers'') = 11"
  by code_simp+

lemma status_note_length: "length (marshal_payload [(''observer_id'', PText (hex_encode k))]) = 18 + 2 * length k"
  by (simp add: marshal_payload_def field_lengths length_json_hex)

lemma packets_note_length:
  assumes "\<forall>k \<in> set ks. length k = 32" "ks \<noteq> []"
  shows "length (marshal_payload [(''count'', PInt n), (''observers'', PTexts (map hex_encode ks))]) =
    length (itoa n) + 24 + 67 * length ks"
proof -
  have "sum_list (map (length \<circ> json_string \<circ> hex_encode) ks) = 66 * length ks"
    using assms(1) by (induction ks) (simp_all add: length_json_hex)
  moreover have "0 < length ks" using assms(2) by simp
  ultimately show ?thesis by (simp add: marshal_payload_def field_lengths length_join comp_def)
qed

text \<open>The link to a page leads back to its key.\<close>

definition space_byte :: "char \<Rightarrow> bool" where
  "space_byte c \<longleftrightarrow> ord_of c \<le> (32 :: nat) \<or> 128 \<le> (ord_of c :: nat)"

lemma spaces_bytes: "list_all (\<lambda>sp. sp \<noteq> [] \<and> list_all space_byte sp) spaces"
  by (simp add: spaces_def bytes_str_def space_byte_def upt_rec)

lemma TrimSpace_hex: "TrimSpace (hex_encode k) = hex_encode k"
proof (cases "hex_encode k")
  case (Cons c s)
  have digits: "\<not> space_byte d" if "d \<in> set (hex_encode k)" for d
    using hex_encode_ascii [OF that] by (auto simp: space_byte_def ord_hex_digit split: if_splits)
  have "\<not> has_prefix (hex_encode k) sp" "\<not> has_suffix (hex_encode k) sp" if sp: "sp \<in> set spaces" for sp
  proof -
    have "sp \<noteq> []" and b: "\<forall>d \<in> set sp. space_byte d" using spaces_bytes sp by (auto simp: list_all_iff)
    then obtain d where d: "d \<in> set sp" by (cases sp) auto
    show "\<not> has_prefix (hex_encode k) sp" using digits b d by (metis has_prefix_def in_set_takeD)
    show "\<not> has_suffix (hex_encode k) sp" using digits b d by (metis has_suffix_def in_set_dropD)
  qed
  then have "space_at (hex_encode k) = 0" "space_before (hex_encode k) = 0"
    by (simp_all add: space_at_def space_before_def filter_False)
  then show ?thesis by (simp add: TrimSpace_def trim_left.simps [of "hex_encode k"] trim_right.simps [of "hex_encode k"])
qed (simp add: TrimSpace_def trim_left.simps trim_right.simps)

lemma observerIDFromURL_HexFull: "observerIDFromURL (HexFull k) = Some k"
  by (simp add: observerIDFromURL_def HexFull_encode TrimSpace_hex)

lemma observer_page: "observerIDFromURL param = Some k \<Longrightarrow> sse_topics (SSEObserver param) = Some [''observer:'' @ hex_encode k]"
  by (simp add: sse_topics_def HexFull_encode)

text \<open>C26 (liveness): the notifications of the status stage reach exactly the pages of the observers it
  touched: the topic of the page of an observer is among those they are bridged to iff the observer
  was touched, and the overview is woken iff any was.\<close>

theorem status_wakes_pages:
  assumes "ObserverStatus_Notify E s pl = (s', pl')" "pl_ok pl = []" "range_order (range_of E)"
    "\<forall>k \<in> fst ` set (os_touched s). length k = 32" "observerIDFromURL param = Some k"
  shows "\<exists>topics t. topics = concat (map bridge_topics (drop (length (pl_sent pl)) (pl_sent pl'))) \<and>
    sse_topics (SSEObserver param) = Some [t] \<and> (t \<in> set topics \<longleftrightarrow> k \<in> fst ` set (os_touched s)) \<and>
    (''overview'' \<in> set topics \<longleftrightarrow> os_touched s \<noteq> [])"
proof -
  let ?ks = "map fst (go_range (range_of E) (os_touched s))"
  let ?note = "\<lambda>k. [(''observer_id'', PText (hex_encode k))]"
  have ks: "set ?ks = fst ` set (os_touched s)" using assms(3) by simp
  have len: "length (marshal_payload (?note j)) \<le> 7900" and ne: "j \<noteq> []" if "j \<in> set ?ks" for j
    using assms(4) that ks by (auto simp: status_note_length)
  have go_ne: "os_touched s = [] \<longleftrightarrow> ?ks = []" using ks by (metis image_is_empty set_empty)
  have sent: "pl_sent pl' = pl_sent pl @ map (\<lambda>k. \<lparr>nt_Channel = ChannelStatus, nt_Payload = marshal_payload (?note k)\<rparr>) ?ks"
  proof (cases "os_touched s = []")
    case True
    then show ?thesis using assms(1,3) by (simp add: ObserverStatus_Notify_def)
  next
    case False
    have "pl' = publish_all ChannelStatus (map ?note ?ks) pl"
      using assms(1) False by (auto simp: ObserverStatus_Notify_def comp_def case_prod_unfold)
    then show ?thesis using len by (subst (asm) publish_all_ok [OF assms(2)]) (auto simp: comp_def)
  qed
  have "concat (map bridge_topics (drop (length (pl_sent pl)) (pl_sent pl'))) = concat (map (\<lambda>k. [''overview'', ''observer:'' @ hex_encode k]) ?ks)"
    unfolding sent using ne by (auto simp: comp_def status_note_topics cong: map_cong)
  then have "set (concat (map bridge_topics (drop (length (pl_sent pl)) (pl_sent pl')))) =
      (\<Union>k \<in> set ?ks. {''overview'', ''observer:'' @ hex_encode k})" by auto
  then show ?thesis
    using observer_page [OF assms(5)] go_ne unfolding ks
    by (intro exI [of _ "concat (map bridge_topics (drop (length (pl_sent pl)) (pl_sent pl')))"] exI conjI refl)
      (auto dest!: hex_encode_inj)
qed

text \<open>C27 (bounds): the notification of a batch of packets reaches the live feed and exactly the pages of the
  observers it touched when these are at most 117; for more observers it exceeds the limit of the
  channel and no page learns of the batch.\<close>

theorem packets_wake_pages:
  assumes "PacketObservations_Notify E s pl = (s', pl')" "pl_ok pl = []" "range_order (range_of E)"
    "0 < pk_count s" "pk_count s < 2 ^ 63" "pk_touched s \<noteq> []"
    "\<forall>k \<in> fst ` set (pk_touched s). length k = 32" "observerIDFromURL param = Some k"
  shows "\<exists>topics t. topics = concat (map bridge_topics (drop (length (pl_sent pl)) (pl_sent pl'))) \<and>
    sse_topics (SSEObserver param) = Some [t] \<and>
    (t \<in> set topics \<longleftrightarrow> k \<in> fst ` set (pk_touched s) \<and> length (pk_touched s) \<le> 117) \<and>
    (''live-feed'' \<in> set topics \<longleftrightarrow> length (pk_touched s) \<le> 117)"
proof -
  let ?ks = "map fst (go_range (range_of E) (pk_touched s))"
  let ?p = "[(''count'', PInt (pk_count s)), (''observers'', PTexts (map hex_encode ?ks))]"
  have ks: "set ?ks = fst ` set (pk_touched s)" using assms(3) by simp
  have n: "length ?ks = length (pk_touched s)" using arg_cong [OF mset_go_range [OF assms(3), of "pk_touched s"], of size] by simp
  have "length (marshal_payload ?p) = length (itoa (pk_count s)) + 24 + 67 * length (pk_touched s)"
    using assms(6,7) n ks by (subst packets_note_length) auto
  then have size: "length (marshal_payload ?p) \<le> 7900 \<longleftrightarrow> length (pk_touched s) \<le> 117"
    using length_itoa [OF assms(4,5)] by auto
  have pl': "pl' = snd (Publish ChannelPackets ?p pl)"
    using assms(1,4) by (auto simp: PacketObservations_Notify_def comp_def case_prod_unfold)
  have "concat (map bridge_topics (drop (length (pl_sent pl)) (pl_sent pl'))) =
    (if length (pk_touched s) \<le> 117 then [''live-feed'', ''overview''] @ map (\<lambda>k. ''observer:'' @ hex_encode k) ?ks else [])"
  proof (cases "length (pk_touched s) \<le> 117")
    case True
    then show ?thesis using Publish_ok [OF assms(2)] size packets_note_topics [of "pk_count s" ?ks] by (simp add: pl')
  next
    case False
    then show ?thesis using size by (simp add: pl' Publish_def Let_def)
  qed
  then show ?thesis
    using observer_page [OF assms(8)] unfolding ks [symmetric]
    by (intro exI [of _ "concat (map bridge_topics (drop (length (pl_sent pl)) (pl_sent pl')))"] exI conjI refl)
      (auto dest!: hex_encode_inj)
qed


text \<open>One observer touched, and its page asked for by the link the other pages have to it.\<close>

definition sample_key :: bytes where
  "sample_key = replicate 32 171"

lemma length_sample_key: "length sample_key = 32"
  by (simp add: sample_key_def)

lemma sample_env_order: "range_order (range_of sample_env)"
  by (simp add: sample_env_def)

definition sample_param :: string where
  "sample_param = HexFull sample_key"

lemma sample_page: "observerIDFromURL sample_param = Some sample_key"
  by (simp add: sample_param_def observerIDFromURL_HexFull)

lemma status_wakes_pages_witness:
  "\<exists>s' pl'. ObserverStatus_Notify sample_env \<lparr>os_buf = [], os_touched = [(sample_key, ())]\<rparr> \<lparr>pl_sent = [], pl_ok = []\<rparr> = (s', pl') \<and>
    the (sse_topics (SSEObserver sample_param)) ! 0 \<in> set (concat (map bridge_topics (pl_sent pl')))"
proof -
  obtain s' pl' where r: "ObserverStatus_Notify sample_env \<lparr>os_buf = [], os_touched = [(sample_key, ())]\<rparr> \<lparr>pl_sent = [], pl_ok = []\<rparr> = (s', pl')"
    by fastforce
  obtain topics t where t: "topics = concat (map bridge_topics (pl_sent pl'))" "sse_topics (SSEObserver sample_param) = Some [t]" "t \<in> set topics"
    using status_wakes_pages [OF r _ sample_env_order _ sample_page] by (simp add: length_sample_key) blast
  show ?thesis by (intro exI conjI, rule r) (use t(3) in \<open>simp only: t(1,2) option.sel nth_Cons_0\<close>)
qed

lemma packets_wake_pages_witness:
  "\<exists>s' pl'. PacketObservations_Notify sample_env \<lparr>pk_buf = [], pk_touched = [(sample_key, ())], pk_count = 3\<rparr>
      \<lparr>pl_sent = [], pl_ok = []\<rparr> = (s', pl') \<and>
    the (sse_topics (SSEObserver sample_param)) ! 0 \<in> set (concat (map bridge_topics (pl_sent pl')))"
proof -
  obtain s' pl' where r: "PacketObservations_Notify sample_env \<lparr>pk_buf = [], pk_touched = [(sample_key, ())], pk_count = 3\<rparr>
      \<lparr>pl_sent = [], pl_ok = []\<rparr> = (s', pl')" by fastforce
  obtain topics t where t: "topics = concat (map bridge_topics (pl_sent pl'))" "sse_topics (SSEObserver sample_param) = Some [t]" "t \<in> set topics"
    using packets_wake_pages [OF r _ sample_env_order _ _ _ _ sample_page] by (simp add: length_sample_key) blast
  show ?thesis by (intro exI conjI, rule r) (use t(3) in \<open>simp only: t(1,2) option.sel nth_Cons_0\<close>)
qed

end
