(* ===== verification/Web_Live.thy ===== *)
theory Web_Live
  imports Web_View Web_Bridge
begin

text \<open>
  The live feed: its two queries (\<^verbatim>\<open>internal/web/queries.go\<close>), the SSE endpoint that pushes new rows
  (\<^verbatim>\<open>sseLive\<close> in \<^verbatim>\<open>internal/web/handlers.go\<close>), the loop under all SSE endpoints (\<^verbatim>\<open>handleSSE\<close> in
  \<^verbatim>\<open>server.go\<close>) and the frames it writes (\<^verbatim>\<open>sse_writer.go\<close>). The HTML of a row is rendered by a
  template, which is an argument.
\<close>

section \<open>Rows\<close>

record LivePacket =
  lp_TS :: time
  lp_ObserverID :: bytes
  lp_Origin :: string
  lp_Hash :: bytes
  lp_Type :: string
  lp_Route :: string
  lp_RSSI :: "int option"
  lp_SNR :: "f64 option"
  lp_Score :: "int option"
  lp_Source :: bytes

definition bytes_or_nil :: "bytes option \<Rightarrow> bytes" where
  "bytes_or_nil b = (case b of None \<Rightarrow> [] | Some x \<Rightarrow> x)"

text \<open>\<^verbatim>\<open>LEFT JOIN observers\<close> with \<^verbatim>\<open>COALESCE(o.origin_name, '')\<close>.\<close>

definition origin_of :: "db \<Rightarrow> bytes \<Rightarrow> string" where
  "origin_of d k = (case map_of (t_observers d) k of None \<Rightarrow> [] | Some r \<Rightarrow> o_origin_name r)"

definition live_packet :: "db \<Rightarrow> packet_row \<Rightarrow> LivePacket" where
  "live_packet d p = \<lparr>lp_TS = po_ts p, lp_ObserverID = po_observer_id p, lp_Origin = origin_of d (po_observer_id p),
     lp_Hash = bytes_or_nil (po_packet_hash p), lp_Type = po_packet_type p, lp_Route = po_route p, lp_RSSI = po_rssi p,
     lp_SNR = po_snr p, lp_Score = po_score p, lp_Source = bytes_or_nil (po_source_prefix p)\<rparr>"

definition newest_first :: "web_env \<Rightarrow> ('a \<Rightarrow> time) \<Rightarrow> 'a list \<Rightarrow> 'a list" where
  "newest_first W ts rows = sort_key (\<lambda>r. - ts r) (scan_order W rows)"

definition queryLiveSince :: "web_env \<Rightarrow> view option \<Rightarrow> time \<Rightarrow> nat \<Rightarrow> LivePacket list option" where
  "queryLiveSince W v since limit = query_rows (\<lambda>now d. map (live_packet d)
     (take limit (newest_first W po_ts (filter (\<lambda>p. since < po_ts p) (t_packet_observations d))))) v"

definition queryLiveInitial :: "web_env \<Rightarrow> view option \<Rightarrow> nat \<Rightarrow> LivePacket list option" where
  "queryLiveInitial W v limit = query_rows (\<lambda>now d. map (live_packet d)
     (take limit (newest_first W po_ts (filter (\<lambda>p. now - 10 * minute \<le> po_ts p) (t_packet_observations d))))) v"

section \<open>Frames\<close>

definition newline :: string where "newline = [CHR 0x0A]"

definition Patch :: "string \<Rightarrow> string \<Rightarrow> string \<Rightarrow> string" where
  "Patch selector mode html =
     ''event: datastar-patch-elements'' @ newline @
     (if selector \<noteq> [] then ''data: selector '' @ selector @ newline else []) @
     (if mode \<noteq> [] then ''data: mode '' @ mode @ newline else []) @
     concat (map (\<lambda>line. ''data: elements '' @ line @ newline) (split_on CHR 0x0A html)) @ newline"

definition Heartbeat :: string where
  "Heartbeat = '': ping'' @ newline @ newline"

section \<open>The endpoint\<close>

text \<open>The body of the loop over the rows from the last to the first: what is pushed, and the last instant pushed.\<close>

fun push_rows :: "(LivePacket \<Rightarrow> string) \<Rightarrow> LivePacket list \<Rightarrow> time \<Rightarrow> string list \<times> time" where
  "push_rows render [] lastTS = ([], lastTS)"
| "push_rows render (p # ps) lastTS =
     (let lastTS' = (if lp_TS p > lastTS then lp_TS p else lastTS);
          (out, t) = push_rows render ps lastTS'
      in (Patch ''#live-rows'' ''prepend'' (render p) # out, t))"

definition live_send :: "web_env \<Rightarrow> (LivePacket \<Rightarrow> string) \<Rightarrow> view option \<Rightarrow> time \<Rightarrow> string list \<times> time" where
  "live_send W render v lastTS =
     (case queryLiveSince W v lastTS 50 of
        None \<Rightarrow> ([], lastTS)
      | Some rows \<Rightarrow> if rows = [] then ([], lastTS) else push_rows render (rev rows) lastTS)"

text \<open>
  The loop of \<^verbatim>\<open>handleSSE\<close> over the choices of its \<^verbatim>\<open>select\<close>: a tick of the heartbeat with whether the
  write succeeds, an event with what the queries of its handler meet.
\<close>

datatype 'v sse_choice = RequestDone | HeartbeatTick bool | HubEvent 'v

fun handleSSE :: "('v \<Rightarrow> 's \<Rightarrow> string list \<times> 's) \<Rightarrow> 'v sse_choice list \<Rightarrow> 's \<Rightarrow> string list" where
  "handleSSE send [] s = []"
| "handleSSE send (c # cs) s = (case c of
     RequestDone \<Rightarrow> []
   | HeartbeatTick ok \<Rightarrow> if ok then Heartbeat # handleSSE send cs s else []
   | HubEvent v \<Rightarrow> (let (out, s') = send v s in out @ handleSSE send cs s'))"

definition sseLive :: "web_env \<Rightarrow> (LivePacket \<Rightarrow> string) \<Rightarrow> view option sse_choice list \<Rightarrow> string list" where
  "sseLive W render cs = handleSSE (live_send W render) cs zero_time"

section \<open>What one wake-up pushes\<close>

text \<open>The rows of a wake-up, oldest first, and the instant after it.\<close>

definition wake_rows :: "web_env \<Rightarrow> view option \<Rightarrow> time \<Rightarrow> LivePacket list" where
  "wake_rows W v t = (case queryLiveSince W v t 50 of None \<Rightarrow> [] | Some rows \<Rightarrow> rev rows)"

definition latest :: "LivePacket list \<Rightarrow> time \<Rightarrow> time" where
  "latest ps t = fold (\<lambda>p t. max t (lp_TS p)) ps t"

lemma push_rows_eq: "push_rows render ps t = (map (\<lambda>p. Patch ''#live-rows'' ''prepend'' (render p)) ps, latest ps t)"
  by (induction ps arbitrary: t) (simp_all add: latest_def max_def Let_def)

lemma live_send_eq: "live_send W render v t =
    (map (\<lambda>p. Patch ''#live-rows'' ''prepend'' (render p)) (wake_rows W v t), latest (wake_rows W v t) t)"
  by (auto simp: live_send_def wake_rows_def push_rows_eq latest_def split: option.splits)

lemma latest_bounds: "t \<le> latest ps t \<and> (\<forall>p \<in> set ps. lp_TS p \<le> latest ps t)"
proof (induction ps arbitrary: t)
  case (Cons p ps)
  show ?case using Cons.IH [of "max t (lp_TS p)"] by (simp add: latest_def)
qed (simp add: latest_def)

lemma set_newest_first: "web_ok W \<Longrightarrow> set (newest_first W ts rows) = set rows"
  by (simp add: newest_first_def)

lemma sorted_newest_first: "sorted (map (\<lambda>r. - ts r) (newest_first W ts rows))"
  by (simp add: newest_first_def)

lemma sorted_rev_newest: "sorted (map ts (rev (take n (newest_first W ts rows))))"
proof -
  have "sorted_wrt (\<lambda>a b. - ts a \<le> - ts b) (newest_first W ts rows)" using sorted_newest_first [of ts W rows] by (simp add: sorted_map)
  then have "sorted_wrt (\<lambda>a b. ts b \<le> ts a) (take n (newest_first W ts rows))" by (simp add: sorted_wrt_take)
  then show ?thesis by (simp add: sorted_map sorted_wrt_rev)
qed

lemma arriving_prefix: "\<exists>n. arriving reach xs = take n xs"
  by (cases reach) (auto simp: arriving_def intro: exI [of _ "length xs"])

lemma wake_rows_prefix:
  "\<exists>n \<le> 50. \<exists>d. wake_rows W v t = map (live_packet d) (rev (take n (newest_first W po_ts (filter (\<lambda>p. t < po_ts p) (t_packet_observations d)))))"
proof (cases v)
  case (Some x)
  let ?l = "newest_first W po_ts (filter (\<lambda>p. t < po_ts p) (t_packet_observations (vw_db x)))"
  obtain n where "arriving (vw_reach x) (map (live_packet (vw_db x)) (take 50 ?l)) = take n (map (live_packet (vw_db x)) (take 50 ?l))"
    using arriving_prefix by blast
  then have "wake_rows W v t = map (live_packet (vw_db x)) (rev (take (min n 50) ?l))"
    by (simp add: wake_rows_def queryLiveSince_def query_rows_def Some take_map rev_map min.commute)
  then show ?thesis by (intro exI [of _ "min n 50"]) auto
qed (auto simp: wake_rows_def queryLiveSince_def query_rows_def intro: exI [of _ 0])

lemma live_TS: "lp_TS (live_packet d p) = po_ts p"
  by (simp add: live_packet_def)

lemma wake_rows_new:
  assumes "web_ok W" shows "p \<in> set (wake_rows W v t) \<Longrightarrow> t < lp_TS p" and "sorted (map lp_TS (wake_rows W v t))" and "length (wake_rows W v t) \<le> 50"
proof -
  obtain n d where n: "n \<le> 50" and w: "wake_rows W v t = map (live_packet d) (rev (take n (newest_first W po_ts (filter (\<lambda>p. t < po_ts p) (t_packet_observations d)))))"
    using wake_rows_prefix by blast
  show "p \<in> set (wake_rows W v t) \<Longrightarrow> t < lp_TS p"
    using set_newest_first [OF assms, of po_ts "filter (\<lambda>p. t < po_ts p) (t_packet_observations d)"] unfolding w
    by (auto simp: live_TS dest!: in_set_takeD)
  show "sorted (map lp_TS (wake_rows W v t))" using sorted_rev_newest [of po_ts n W "filter (\<lambda>p. t < po_ts p) (t_packet_observations d)"] unfolding w
    by (simp add: comp_def live_TS)
  show "length (wake_rows W v t) \<le> 50" using n unfolding w by simp
qed

text \<open>An unbroken view of a table with at most 50 newer rows.\<close>

lemma wake_rows_all:
  assumes "web_ok W" "v = Some \<lparr>vw_now = now, vw_db = d, vw_reach = None\<rparr>" "length (filter (\<lambda>p. t < po_ts p) (t_packet_observations d)) \<le> 50"
  shows "mset (wake_rows W v t) = image_mset (live_packet d) (filter_mset (\<lambda>p. t < po_ts p) (mset (t_packet_observations d)))"
proof -
  let ?f = "filter (\<lambda>p. t < po_ts p) (t_packet_observations d)"
  have m: "mset (newest_first W po_ts ?f) = mset ?f" using assms(1) by (simp add: newest_first_def)
  then have "length (newest_first W po_ts ?f) \<le> 50" using assms(3) by (metis size_mset)
  then have "wake_rows W v t = map (live_packet d) (rev (newest_first W po_ts ?f))"
    by (simp add: wake_rows_def queryLiveSince_def query_rows_def assms(2) arriving_def rev_map)
  then show ?thesis using m by simp
qed

section \<open>Properties\<close>

text \<open>Choices that keep the connection, and the instant after them.\<close>

definition keeps_on :: "'v sse_choice list \<Rightarrow> bool" where
  "keeps_on cs \<longleftrightarrow> list_all (\<lambda>c. case c of RequestDone \<Rightarrow> False | HeartbeatTick ok \<Rightarrow> ok | HubEvent v \<Rightarrow> True) cs"

fun live_time :: "web_env \<Rightarrow> view option sse_choice list \<Rightarrow> time \<Rightarrow> time" where
  "live_time W [] t = t"
| "live_time W (HubEvent v # cs) t = live_time W cs (latest (wake_rows W v t) t)"
| "live_time W (c # cs) t = live_time W cs t"

fun live_rows :: "web_env \<Rightarrow> view option sse_choice list \<Rightarrow> time \<Rightarrow> LivePacket list" where
  "live_rows W [] t = []"
| "live_rows W (HubEvent v # cs) t = wake_rows W v t @ live_rows W cs (latest (wake_rows W v t) t)"
| "live_rows W (c # cs) t = live_rows W cs t"

lemma live_time_mono: "t \<le> live_time W cs t"
proof (induction W cs t rule: live_time.induct)
  case (2 W v cs t)
  then show ?case using latest_bounds [of t "wake_rows W v t"] by simp
qed simp_all

lemma live_rows_bound: "p \<in> set (live_rows W cs t) \<Longrightarrow> lp_TS p \<le> live_time W cs t"
proof (induction W cs t rule: live_rows.induct)
  case (2 W v cs t)
  then show ?case
    using latest_bounds [of t "wake_rows W v t"] live_time_mono [of "latest (wake_rows W v t) t" W cs] by auto
qed simp_all

lemma handleSSE_append:
  "keeps_on cs \<Longrightarrow> handleSSE (live_send W render) (cs @ cs') t =
    handleSSE (live_send W render) cs t @ handleSSE (live_send W render) cs' (live_time W cs t)"
  by (induction W cs t rule: live_time.induct) (auto simp: keeps_on_def live_send_eq)

text \<open>C36 (safety): at every wake-up the live feed pushes only rows newer than every row it has pushed before, so
  that no row is pushed twice; it pushes them oldest first, for the page to prepend, at most 50, and all
  newer rows of the table when these are at most 50.\<close>

theorem live_feed_pushes_new:
  assumes "web_ok W" "keeps_on cs" "v = Some \<lparr>vw_now = now, vw_db = d, vw_reach = None\<rparr>"
    and "t = live_time W cs zero_time" "new = filter (\<lambda>p. t < po_ts p) (t_packet_observations d)"
  shows "\<exists>rows. sseLive W render (cs @ [HubEvent v]) = sseLive W render cs @ map (\<lambda>p. Patch ''#live-rows'' ''prepend'' (render p)) rows \<and>
    (\<forall>p \<in> set rows. \<forall>q \<in> set (live_rows W cs zero_time). lp_TS q < lp_TS p) \<and> sorted (map lp_TS rows) \<and> length rows \<le> 50 \<and>
    (length new \<le> 50 \<longrightarrow> mset rows = image_mset (live_packet d) (mset new))"
proof (intro exI [of _ "wake_rows W v t"] conjI ballI impI)
  show "sseLive W render (cs @ [HubEvent v]) =
      sseLive W render cs @ map (\<lambda>p. Patch ''#live-rows'' ''prepend'' (render p)) (wake_rows W v t)"
    by (simp add: sseLive_def handleSSE_append [OF assms(2)] live_send_eq assms(4))
  show "sorted (map lp_TS (wake_rows W v t))" "length (wake_rows W v t) \<le> 50" by (rule wake_rows_new [OF assms(1)])+
  fix p q
  assume "p \<in> set (wake_rows W v t)" "q \<in> set (live_rows W cs zero_time)"
  then show "lp_TS q < lp_TS p"
    using wake_rows_new(1) [OF assms(1)] live_rows_bound [of q W cs zero_time] assms(4) by (metis order_le_less_trans)
next
  assume "length new \<le> 50"
  then show "mset (wake_rows W v t) = image_mset (live_packet d) (mset new)"
    using wake_rows_all [OF assms(1,3)] assms(5) by simp
qed

text \<open>Two rows, the feed woken once before the second was there.\<close>

definition sample_row :: "int \<Rightarrow> time \<Rightarrow> packet_row" where
  "sample_row i t = \<lparr>po_id = i, po_ts = t, po_observer_id = [7], po_packet_hash = None, po_direction = ''rx'', po_packet_type = ''4'',
     po_route = ''F'', po_len = None, po_payload_len = None, po_rssi = Some (- 80), po_snr = None, po_score = None, po_duration_ms = None,
     po_raw = None, po_decoded_type = None, po_source_prefix = None, po_dest_prefix = None, po_transport_codes = None\<rparr>"

definition live_view :: "packet_row list \<Rightarrow> view" where
  "live_view rows = \<lparr>vw_now = hour, vw_db = empty_db\<lparr>t_packet_observations := rows\<rparr>, vw_reach = None\<rparr>"

lemma live_feed_pushes_new_witness:
  "\<exists>rows :: LivePacket list. sseLive sample_web lp_Type [HubEvent (Some (live_view [sample_row 1 5])), HubEvent (Some (live_view [sample_row 1 5, sample_row 2 6]))] =
      sseLive sample_web lp_Type [HubEvent (Some (live_view [sample_row 1 5]))] @
        map (\<lambda>p. Patch ''#live-rows'' ''prepend'' (lp_Type p)) rows \<and> size rows = 1"
proof -
  let ?cs = "[HubEvent (Some (live_view [sample_row 1 5]))]" and ?v = "Some (live_view [sample_row 1 5, sample_row 2 6])"
  let ?d = "empty_db\<lparr>t_packet_observations := [sample_row 1 5, sample_row 2 6]\<rparr>"
  have "wake_rows sample_web (Some (live_view [sample_row 1 5])) zero_time = [live_packet (empty_db\<lparr>t_packet_observations := [sample_row 1 5]\<rparr>) (sample_row 1 5)]"
    by (simp add: wake_rows_def queryLiveSince_def query_rows_def live_view_def arriving_def newest_first_def scan_order_def sample_web_def
        sample_env_def sample_row_def)
  then have t: "live_time sample_web ?cs zero_time = 5" by (simp add: latest_def live_TS sample_row_def)
  have new: "filter (\<lambda>p. 5 < po_ts p) (t_packet_observations ?d) = [sample_row 2 6]" by (simp add: sample_row_def)
  have k: "keeps_on ?cs" by (simp add: keeps_on_def)
  have v: "?v = Some \<lparr>vw_now = hour, vw_db = ?d, vw_reach = None\<rparr>" by (simp add: live_view_def)
  obtain rows where r: "sseLive sample_web lp_Type (?cs @ [HubEvent ?v]) = sseLive sample_web lp_Type ?cs @
      map (\<lambda>p. Patch ''#live-rows'' ''prepend'' (lp_Type p)) rows"
    "mset rows = image_mset (live_packet ?d) (mset [sample_row 2 6])"
    using live_feed_pushes_new [OF sample_web_ok k v t [symmetric] new [symmetric], of lp_Type] by auto
  have "size (mset rows) = 1" using r(2) by simp
  then show ?thesis using r(1) by (intro exI [of _ rows]) simp
qed

end
