(* ===== verification/Web_Pages.thy ===== *)
theory Web_Pages
  imports Web_Live
begin

text \<open>
  The read queries behind the overview, the observers, the neighbors, the anomalies, a node and the
  topology (\<^verbatim>\<open>internal/web/queries.go\<close>). Each SQL text is translated clause by clause, as in the
  detectors; a query whose error the code ignores leaves its part of the page empty.
\<close>

section \<open>Overview\<close>

record ObserverChannel =
  oc_ID :: bytes
  oc_Origin :: string
  oc_Region :: string
  oc_PctAir :: f64
  oc_NoiseFloor :: "int option"

record OverviewData =
  ov_ObserversOnline :: int
  ov_ObserversTotal :: int
  ov_PacketsLastMinute :: int
  ov_UniquePktsLastMin :: int
  ov_OpenAnomalies :: int
  ov_MeshSparkline :: "f64 list"
  ov_ObserverChannels :: "ObserverChannel list"
  ov_GeneratedAt :: time

definition observer_counts :: "time \<Rightarrow> db \<Rightarrow> (int \<times> int) list" where
  "observer_counts now d = [(int (length (filter (\<lambda>(k, r). now - 5 * minute \<le> o_last_seen r) (t_observers d))), int (length (t_observers d)))]"

definition last_minute :: "time \<Rightarrow> db \<Rightarrow> packet_row list" where
  "last_minute now d = filter (\<lambda>p. now - minute \<le> po_ts p) (t_packet_observations d)"

definition packets_last_minute :: "time \<Rightarrow> db \<Rightarrow> int list" where
  "packets_last_minute now d = [int (length (last_minute now d))]"

definition unique_last_minute :: "time \<Rightarrow> db \<Rightarrow> int list" where
  "unique_last_minute now d = [int (length (remdups (List.map_filter po_packet_hash (last_minute now d))))]"

definition open_anomalies :: "time \<Rightarrow> db \<Rightarrow> int list" where
  "open_anomalies now d = [int (length (filter (\<lambda>a. an_resolved_at a = None \<and> now - 24 * hour \<le> an_ts a) (t_anomalies d)))]"

definition mesh_sparkline :: "time \<Rightarrow> db \<Rightarrow> (time \<times> int) list" where
  "mesh_sparkline now d = sort_key fst
     (map (\<lambda>(b, rows). (b, sum_list (map (\<lambda>(k, r). ro_packets r) rows)))
       (groups (\<lambda>((obs, b), r). b) (filter (\<lambda>((obs, b), r). now - 60 * minute \<le> b) (t_rollup_observer_1m d))))"

text \<open>The status samples of an observer from the last 15 minutes with their air time, newest first.\<close>

definition air_secs :: "status_row \<Rightarrow> int" where
  "air_secs r = (case s_tx_air_secs r of None \<Rightarrow> 0 | Some x \<Rightarrow> x) + (case s_rx_air_secs r of None \<Rightarrow> 0 | Some x \<Rightarrow> x)"

definition ranked :: "time \<Rightarrow> db \<Rightarrow> bytes \<Rightarrow> (time \<times> int \<times> int option) list" where
  "ranked now d obs = sort_key (\<lambda>(t, a, n). - t) (map (\<lambda>((k, t), r). (t, air_secs r, s_noise_floor r))
     (filter (\<lambda>((k, t), r). k = obs \<and> now - 15 * minute \<le> t) (t_observer_status d)))"

text \<open>
  \<^verbatim>\<open>bigint\<close> arithmetic that overflows is an error: a sum of air times, computed for the ranking of all
  samples, before the first row, a difference when its row is reached.
\<close>

definition int8_ok :: "int \<Rightarrow> bool" where
  "int8_ok i \<longleftrightarrow> - (2 ^ 63) \<le> i \<and> i < 2 ^ 63"

definition sums_ok :: "time \<Rightarrow> db \<Rightarrow> bool" where
  "sums_ok now d \<longleftrightarrow> list_all (\<lambda>((obs, t), r). now - 15 * minute \<le> t \<longrightarrow> int8_ok (air_secs r)) (t_observer_status d)"

definition difference_ok :: "time \<Rightarrow> db \<Rightarrow> bytes \<times> observers_row \<Rightarrow> bool" where
  "difference_ok now d x = (case ranked now d (fst x) of (t1, a1, n1) # (t2, a2, n2) # _ \<Rightarrow> int8_ok (a1 - a2) | _ \<Rightarrow> True)"

definition channel_row :: "env \<Rightarrow> time \<Rightarrow> db \<Rightarrow> bytes \<times> observers_row \<Rightarrow> (bytes \<times> string \<times> string \<times> f64 option \<times> int option) option" where
  "channel_row E now d x = (case x of (obs, o_row) \<Rightarrow> (case ranked now d obs of
     (t1, a1, n1) # (t2, a2, n2) # _ \<Rightarrow>
       Some (obs, o_origin_name o_row, o_region o_row,
         (if t1 - t2 = 0 then None else Some (f64_of_int (a1 - a2) / num_float E (of_int (t1 - t2) / of_int second))), n1)
   | _ \<Rightarrow> None))"

definition channel_rows :: "web_env \<Rightarrow> time \<Rightarrow> db \<Rightarrow> (bytes \<times> string \<times> string \<times> f64 option \<times> int option) list" where
  "channel_rows W now d =
     (if sums_ok now d then List.map_filter (channel_row (we_env W) now d) (takeWhile (difference_ok now d) (scan_order W (t_observers d))) else [])"

definition clamp :: "f64 \<Rightarrow> f64 \<Rightarrow> f64 \<Rightarrow> f64" where
  "clamp v lo hi = (if v < lo then lo else if v > hi then hi else v)"

definition scan_channel :: "bytes \<times> string \<times> string \<times> f64 option \<times> int option \<Rightarrow> ObserverChannel" where
  "scan_channel x = (case x of (k, origin, region, fr, noise) \<Rightarrow>
     \<lparr>oc_ID = k, oc_Origin = origin, oc_Region = region,
      oc_PctAir = (case fr of None \<Rightarrow> Fin 0 | Some f \<Rightarrow> clamp (f * Fin 100) (Fin 0) (Fin 100)), oc_NoiseFloor = noise\<rparr>)"

text \<open>\<open>gen\<close> is \<^verbatim>\<open>time.Now\<close>; \<open>v\<close> gives what each of the six queries meets; the flag is false with an error.\<close>

definition row_or :: "'a \<Rightarrow> 'a option \<Rightarrow> 'a" where
  "row_or z x = (case x of None \<Rightarrow> z | Some y \<Rightarrow> y)"

definition rows_or_none :: "'a list option \<Rightarrow> 'a list" where
  "rows_or_none x = (case x of None \<Rightarrow> [] | Some y \<Rightarrow> y)"

definition queryOverview :: "web_env \<Rightarrow> time \<Rightarrow> (nat \<Rightarrow> view option) \<Rightarrow> OverviewData \<times> bool" where
  "queryOverview W gen v =
     (let d = \<lparr>ov_ObserversOnline = 0, ov_ObserversTotal = 0, ov_PacketsLastMinute = 0, ov_UniquePktsLastMin = 0, ov_OpenAnomalies = 0,
        ov_MeshSparkline = [], ov_ObserverChannels = [], ov_GeneratedAt = gen\<rparr>
      in case query_row observer_counts (v 0) of
           None \<Rightarrow> (d, False)
         | Some (online, n) \<Rightarrow>
             (d\<lparr>ov_ObserversOnline := online, ov_ObserversTotal := n,
                ov_PacketsLastMinute := row_or 0 (query_row packets_last_minute (v 1)),
                ov_UniquePktsLastMin := row_or 0 (query_row unique_last_minute (v 2)),
                ov_OpenAnomalies := row_or 0 (query_row open_anomalies (v 3)),
                ov_MeshSparkline := map (\<lambda>(b, n). f64_of_int n) (rows_or_none (query_rows mesh_sparkline (v 4))),
                ov_ObserverChannels := map scan_channel (rows_or_none (query_rows (channel_rows W) (v 5)))\<rparr>, True))"

section \<open>Observers\<close>

record ObserverRow =
  ob_ID :: bytes
  ob_Origin :: string
  ob_Region :: string
  ob_Model :: string
  ob_Status :: string
  ob_NoiseFloor :: "int option"
  ob_UptimeSecs :: "int option"
  ob_LastPacketTS :: time
  ob_Packets1m :: int
  ob_Sparkline :: "f64 list"

definition latest_status :: "db \<Rightarrow> bytes \<Rightarrow> status_row option" where
  "latest_status d obs = (case sort_key (\<lambda>((k, t), r). - t) (filter (\<lambda>((k, t), r). k = obs) (t_observer_status d)) of
     [] \<Rightarrow> None | (k, r) # _ \<Rightarrow> Some r)"

definition heard_by :: "db \<Rightarrow> bytes \<Rightarrow> time \<Rightarrow> packet_row list" where
  "heard_by d obs since = filter (\<lambda>p. po_observer_id p = obs \<and> since \<le> po_ts p) (t_packet_observations d)"

definition last_packet :: "time \<Rightarrow> db \<Rightarrow> bytes \<Rightarrow> time option" where
  "last_packet now d obs = (let ps = heard_by d obs (now - 24 * hour) in if ps = [] then None else Some (Max (po_ts ` set ps)))"

text \<open>A row of the query, with \<^verbatim>\<open>MAX(ts)\<close> beside it, which may be null.\<close>

definition observer_select :: "time \<Rightarrow> db \<Rightarrow> bytes \<times> observers_row \<Rightarrow> ObserverRow \<times> time option" where
  "observer_select now d x = (case x of (k, r) \<Rightarrow>
     (\<lparr>ob_ID = k, ob_Origin = o_origin_name r, ob_Region = o_region r, ob_Model = o_model r,
       ob_Status = (if now - 5 * minute \<le> o_last_seen r then ''online'' else ''offline''),
       ob_NoiseFloor = Option.bind (latest_status d k) s_noise_floor, ob_UptimeSecs = Option.bind (latest_status d k) s_uptime_secs,
       ob_LastPacketTS = zero_time, ob_Packets1m = int (length (heard_by d k (now - minute))), ob_Sparkline = []\<rparr>,
      last_packet now d k))"

definition observers_select :: "web_env \<Rightarrow> time \<Rightarrow> db \<Rightarrow> (ObserverRow \<times> time option) list" where
  "observers_select W now d = map (observer_select now d) (sort_key (\<lambda>(k, r). we_rank W (o_origin_name r)) (scan_order W (t_observers d)))"

definition observer_sparkline :: "bytes \<Rightarrow> time \<Rightarrow> db \<Rightarrow> int list" where
  "observer_sparkline obs now d = map (\<lambda>((k, b), r). ro_packets r) (sort_key (\<lambda>((k, b), r). b)
     (filter (\<lambda>((k, b), r). k = obs \<and> now - 60 * minute \<le> b) (t_rollup_observer_1m d)))"

definition sparkline_of :: "bytes \<Rightarrow> view option \<Rightarrow> f64 list" where
  "sparkline_of obs v = map f64_of_int (rows_or_none (query_rows (observer_sparkline obs) v))"

text \<open>\<open>None\<close> is the error of the first query.\<close>

definition queryObservers :: "web_env \<Rightarrow> view option \<Rightarrow> (nat \<Rightarrow> view option) \<Rightarrow> ObserverRow list option" where
  "queryObservers W v0 v =
     (case query_rows (observers_select W) v0 of
        None \<Rightarrow> None
      | Some rows \<Rightarrow> Some (map (\<lambda>(i, r, ts). r\<lparr>ob_LastPacketTS := row_or zero_time ts, ob_Sparkline := sparkline_of (ob_ID r) (v i)\<rparr>)
          (zip [0..<length rows] rows)))"

section \<open>Neighbors\<close>

record NeighborRow =
  nr_SourcePrefix :: bytes
  nr_Packets :: int
  nr_AvgRSSI :: f64
  nr_MinRSSI :: int
  nr_MaxRSSI :: int
  nr_AvgSNR :: f64
  nr_FirstSeen :: time
  nr_LastSeen :: time
  nr_HeardBy :: int

type_synonym nrow = "(bytes \<times> bytes \<times> time) \<times> neighbor_row"

definition nrow_prefix :: "nrow \<Rightarrow> bytes" where "nrow_prefix x = (case x of ((obs, src, b), r) \<Rightarrow> src)"
definition nrow_observer :: "nrow \<Rightarrow> bytes" where "nrow_observer x = (case x of ((obs, src, b), r) \<Rightarrow> obs)"
definition nrow_bucket :: "nrow \<Rightarrow> time" where "nrow_bucket x = (case x of ((obs, src, b), r) \<Rightarrow> b)"

definition recent_neighbors :: "time \<Rightarrow> db \<Rightarrow> nrow list" where
  "recent_neighbors now d = filter (\<lambda>x. now - 24 * hour \<le> nrow_bucket x) (t_rollup_neighbor_1m d)"

definition avg_float :: "env \<Rightarrow> f64 option list \<Rightarrow> f64 option" where
  "avg_float E xs = map_option (num_float E) (sql_avg E (List.map_filter (map_option (num_of E)) xs))"

definition min_opt :: "int option list \<Rightarrow> int option" where
  "min_opt xs = (let ys = List.map_filter id xs in if ys = [] then None else Some (Min (set ys)))"

definition max_opt :: "int option list \<Rightarrow> int option" where
  "max_opt xs = (let ys = List.map_filter id xs in if ys = [] then None else Some (Max (set ys)))"

text \<open>A group of the result; its averages and extremes scan only when they are not null.\<close>

definition neighbor_scan :: "env \<Rightarrow> (bytes \<Rightarrow> nrow list \<Rightarrow> nat) \<Rightarrow> bytes \<times> nrow list \<Rightarrow> NeighborRow option" where
  "neighbor_scan E heard g = (case g of (src, rows) \<Rightarrow>
     (case (avg_float E (map (rn_avg_rssi \<circ> snd) rows), min_opt (map (rn_min_rssi \<circ> snd) rows),
            max_opt (map (rn_max_rssi \<circ> snd) rows), avg_float E (map (rn_avg_snr \<circ> snd) rows)) of
        (Some ar, Some lo, Some hi, Some asnr) \<Rightarrow>
          Some \<lparr>nr_SourcePrefix = src, nr_Packets = sum_list (map (rn_packets \<circ> snd) rows), nr_AvgRSSI = ar, nr_MinRSSI = lo, nr_MaxRSSI = hi,
            nr_AvgSNR = asnr, nr_FirstSeen = Min (nrow_bucket ` set rows), nr_LastSeen = Max (nrow_bucket ` set rows),
            nr_HeardBy = int (heard src rows)\<rparr>
      | _ \<Rightarrow> None))"

definition neighbor_groups :: "web_env \<Rightarrow> nat \<Rightarrow> nrow list \<Rightarrow> (bytes \<times> nrow list) list" where
  "neighbor_groups W limit rows = take limit (sort_key (\<lambda>(src, g). - sum_list (map (rn_packets \<circ> snd) g)) (scan_order W (groups nrow_prefix rows)))"

definition distinct_observers :: "nrow list \<Rightarrow> nat" where
  "distinct_observers rows = length (remdups (map nrow_observer rows))"

definition queryNeighbors :: "web_env \<Rightarrow> view option \<Rightarrow> NeighborRow list option" where
  "queryNeighbors W v =
     map_option (scan_rows (we_scan_fatal W) (neighbor_scan (we_env W) (\<lambda>src g. distinct_observers g)))
       (query_rows (\<lambda>now d. neighbor_groups W 500 (recent_neighbors now d)) v)"

section \<open>One observer\<close>

record TypeCount =
  tc_Type :: string
  tc_Count :: int

record SeqGap =
  sg_NeighborPrefix :: bytes
  sg_Window :: string
  sg_Missing :: int

record ObserverDetail =
  od_Row :: ObserverRow
  od_Status :: "time list"
  od_StatusY :: "f64 list"
  od_Neighbors :: "NeighborRow list"
  od_TypeMix :: "TypeCount list"
  od_Gaps :: "SeqGap list"

definition type_or_unknown :: "packet_row \<Rightarrow> string" where
  "type_or_unknown p = (if po_packet_type p = [] then ''UNKNOWN'' else po_packet_type p)"

definition type_mix :: "web_env \<Rightarrow> bytes \<Rightarrow> time \<Rightarrow> db \<Rightarrow> TypeCount list" where
  "type_mix W obs now d = map (\<lambda>(t, ps). \<lparr>tc_Type = t, tc_Count = int (length ps)\<rparr>)
     (sort_key (\<lambda>(t, ps). - int (length ps)) (scan_order W (groups type_or_unknown (heard_by d obs (now - hour)))))"

definition observer_neighbors :: "web_env \<Rightarrow> bytes \<Rightarrow> time \<Rightarrow> db \<Rightarrow> (nat \<times> bytes \<times> nrow list) list" where
  "observer_neighbors W obs now d =
     map (\<lambda>(src, g). (distinct_observers (filter (\<lambda>x. nrow_prefix x = src) (recent_neighbors now d)), src, g))
       (neighbor_groups W 100 (filter (\<lambda>x. nrow_observer x = obs) (recent_neighbors now d)))"

definition queryObserverDetail :: "web_env \<Rightarrow> bytes \<Rightarrow> (nat \<Rightarrow> view option) \<Rightarrow> ObserverDetail option" where
  "queryObserverDetail W obs v =
     (case query_row (\<lambda>now d. map (observer_select now d) (filter (\<lambda>(k, r). k = obs) (t_observers d))) (v 0) of
        None \<Rightarrow> None
      | Some (r, None) \<Rightarrow> None
      | Some (r, Some ts) \<Rightarrow>
          Some \<lparr>od_Row = r\<lparr>ob_LastPacketTS := ts, ob_Sparkline := sparkline_of obs (v 1)\<rparr>, od_Status = [], od_StatusY = [],
            od_Neighbors = scan_rows (we_scan_fatal W) (\<lambda>(n, g). neighbor_scan (we_env W) (\<lambda>src rows. n) g)
              (rows_or_none (query_rows (observer_neighbors W obs) (v 2))),
            od_TypeMix = rows_or_none (query_rows (type_mix W obs) (v 3)), od_Gaps = []\<rparr>)"

section \<open>Anomalies\<close>

record AnomalyRow =
  ar_ID :: int
  ar_TS :: time
  ar_Kind :: string
  ar_Severity :: string
  ar_Subject :: bytes
  ar_Details :: "(string \<times> detail) list"

definition anomaly_scan :: "anomaly_row \<Rightarrow> AnomalyRow" where
  "anomaly_scan a = \<lparr>ar_ID = an_id a, ar_TS = an_ts a, ar_Kind = an_kind a, ar_Severity = an_severity a,
     ar_Subject = bytes_or_nil (an_subject_id a), ar_Details = an_details a\<rparr>"

definition queryAnomalies :: "web_env \<Rightarrow> view option \<Rightarrow> AnomalyRow list option" where
  "queryAnomalies W v = query_rows (\<lambda>now d. map anomaly_scan
     (take 200 (newest_first W an_ts (filter (\<lambda>a. now - 48 * hour \<le> an_ts a) (t_anomalies d))))) v"

section \<open>The figures of the neighbors page\<close>

text \<open>The packets of the log with a source prefix, from a minute on.\<close>

definition heard_from :: "Event list \<Rightarrow> bytes \<Rightarrow> time \<Rightarrow> (Event \<times> PacketPayload) list" where
  "heard_from hist src since = filter (\<lambda>(e, p). 0 < slice_len (pp_SourcePrefix p) \<and> slice_key (pp_SourcePrefix p) = src \<and>
     since \<le> truncate_time minute (ev_TS e)) (packet_events hist)"

definition packet_key :: "Event \<times> PacketPayload \<Rightarrow> bytes \<times> bytes \<times> time" where
  "packet_key x = (ev_ObserverID (fst x), slice_key (pp_SourcePrefix (snd x)), truncate_time minute (ev_TS (fst x)))"

definition with_source :: "Event list \<Rightarrow> (Event \<times> PacketPayload) list" where
  "with_source hist = filter (\<lambda>x. 0 < slice_len (pp_SourcePrefix (snd x))) (packet_events hist)"

lemma neighbor_packets_key: "neighbor_packets hist k = filter (\<lambda>x. packet_key x = k) (with_source hist)"
  by (simp add: neighbor_packets_def with_source_def packet_key_def case_prod_unfold conj_commute)

text \<open>The rows of one prefix in the window hold the packets of the log with that prefix.\<close>

lemma neighbor_window_log:
  assumes ok: "neighbor_ok E hist (t_rollup_neighbor_1m d)"
    and g: "g = filter (\<lambda>x. nrow_prefix x = src) (recent_neighbors now d)"
  shows "sum_list (map (rn_packets \<circ> snd) g) = int (length (heard_from hist src (now - 24 * hour)))"
    and "distinct_observers g = card ((ev_ObserverID \<circ> fst) ` set (heard_from hist src (now - 24 * hour)))"
proof -
  let ?tab = "t_rollup_neighbor_1m d" and ?lo = "now - 24 * hour"
  have dist: "distinct (map fst ?tab)" and dom: "\<And>k. map_of ?tab k \<noteq> None \<longleftrightarrow> neighbor_packets hist k \<noteq> []"
    and row: "\<And>k r. map_of ?tab k = Some r \<Longrightarrow> neighbor_row_spec (neighbor_packets hist k) r"
    using ok unfolding neighbor_ok_def by blast+
  have mem: "x \<in> set g \<longleftrightarrow> x \<in> set ?tab \<and> fst (snd (fst x)) = src \<and> ?lo \<le> snd (snd (fst x))" for x
    by (auto simp: g recent_neighbors_def nrow_prefix_def nrow_bucket_def case_prod_unfold)
  have "distinct (map fst g)" unfolding g recent_neighbors_def by (intro distinct_map_filter dist)
  moreover have "rn_packets (snd x) = int (length (filter (\<lambda>y. packet_key y = fst x) (with_source hist)))" if "x \<in> set g" for x
    using row [of "fst x" "snd x"] that mem [of x] dist unfolding neighbor_packets_key by (simp add: neighbor_row_spec_def)
  then have "sum_list (map (rn_packets \<circ> snd) g) = sum_list (map (\<lambda>k. int (length (filter (\<lambda>y. packet_key y = k) (with_source hist)))) (map fst g))"
    by (simp cong: map_cong)
  ultimately have sum: "sum_list (map (rn_packets \<circ> snd) g) = int (length (filter (\<lambda>y. packet_key y \<in> set (map fst g)) (with_source hist)))"
    by (simp only: sum_list_int sum_by_keys)
  have key: "packet_key y \<in> set (map fst g) \<longleftrightarrow> slice_key (pp_SourcePrefix (snd y)) = src \<and> ?lo \<le> truncate_time minute (ev_TS (fst y))"
    if "y \<in> set (with_source hist)" for y
  proof -
    have "neighbor_packets hist (packet_key y) \<noteq> []" using that by (auto simp: neighbor_packets_key filter_empty_conv)
    then have "packet_key y \<in> set (map fst ?tab)" using dom by (metis map_of_eq_None_iff image_set)
    then show ?thesis using mem by (force simp: packet_key_def)
  qed
  have heard: "filter (\<lambda>y. packet_key y \<in> set (map fst g)) (with_source hist) = heard_from hist src ?lo"
    using key by (auto simp: heard_from_def with_source_def case_prod_unfold intro!: filter_cong)
  show "sum_list (map (rn_packets \<circ> snd) g) = int (length (heard_from hist src ?lo))" unfolding sum heard ..
  have "set (map nrow_observer g) = (ev_ObserverID \<circ> fst) ` set (heard_from hist src ?lo)"
  proof -
    have "fst k \<in> (ev_ObserverID \<circ> fst) ` set (heard_from hist src ?lo)" if "k \<in> set (map fst g)" for k
    proof -
      from that have "k \<in> fst ` set g" by simp
      then obtain x where x: "x \<in> set g" "k = fst x" by blast
      then have "map_of ?tab k \<noteq> None" using mem [of x] dist by (metis map_of_eq_None_iff imageI)
      then obtain y where "y \<in> set (with_source hist)" "packet_key y = k"
        using dom by (fastforce simp: neighbor_packets_key filter_empty_conv)
      then show ?thesis using that unfolding heard [symmetric] by (force simp: packet_key_def)
    qed
    moreover have "ev_ObserverID (fst y) \<in> set (map nrow_observer g)" if "y \<in> set (heard_from hist src ?lo)" for y
      using that unfolding heard [symmetric] by (force simp: packet_key_def nrow_observer_def case_prod_unfold)
    moreover have "nrow_observer x = fst (fst x)" for x by (simp add: nrow_observer_def case_prod_unfold)
    ultimately show ?thesis unfolding set_map comp_def by (intro equalityI subsetI) (auto, metis fst_conv image_eqI)
  qed
  then show "distinct_observers g = card ((ev_ObserverID \<circ> fst) ` set (heard_from hist src ?lo))"
    by (metis distinct_observers_def length_remdups_card_conv)
qed

lemma distinct_groups: "distinct (map fst (groups f xs))"
  by (simp add: groups_def comp_def)

lemma neighbor_groups_ok:
  assumes "web_ok W"
  shows "sorted_wrt (\<lambda>a b. sum_list (map (rn_packets \<circ> snd) (snd b)) \<le> sum_list (map (rn_packets \<circ> snd) (snd a)) \<and> fst a \<noteq> fst b)
      (neighbor_groups W limit rows)"
    and "x \<in> set (neighbor_groups W limit rows) \<Longrightarrow> snd x = filter (\<lambda>y. nrow_prefix y = fst x) rows"
    and "length (neighbor_groups W limit rows) \<le> limit"
proof -
  let ?key = "\<lambda>g :: bytes \<times> nrow list. - sum_list (map (rn_packets \<circ> snd) (snd g))"
  let ?l = "sort_key ?key (scan_order W (groups nrow_prefix rows))"
  have l: "neighbor_groups W limit rows = take limit ?l" by (simp add: neighbor_groups_def case_prod_unfold)
  have m: "mset (map fst ?l) = mset (map fst (groups nrow_prefix rows))" by (simp only: mset_map mset_sort mset_scan_order [OF assms])
  have "distinct (map fst ?l)" using mset_eq_imp_distinct_iff [OF m] distinct_groups [of nrow_prefix rows] by (rule iffD2)
  then have "sorted_wrt (\<lambda>a b. fst a \<noteq> fst b) ?l" by (simp only: distinct_wrt)
  moreover have "sorted (map ?key ?l)" by (rule sorted_sort_key)
  then have "sorted_wrt (\<lambda>a b. ?key a \<le> ?key b) ?l" by (simp only: sorted_map)
  ultimately have "sorted_wrt (\<lambda>a b. ?key a \<le> ?key b \<and> fst a \<noteq> fst b) ?l" by (rule sorted_wrt_conj [rotated])
  then show "sorted_wrt (\<lambda>a b. sum_list (map (rn_packets \<circ> snd) (snd b)) \<le> sum_list (map (rn_packets \<circ> snd) (snd a)) \<and> fst a \<noteq> fst b)
      (neighbor_groups W limit rows)" unfolding l by (simp add: sorted_wrt_take)
  show "length (neighbor_groups W limit rows) \<le> limit" by (simp add: l)
  assume "x \<in> set (neighbor_groups W limit rows)"
  then have "x \<in> set (groups nrow_prefix rows)" unfolding l using assms by (auto dest: in_set_takeD)
  then show "snd x = filter (\<lambda>y. nrow_prefix y = fst x) rows" by (auto simp: groups_def)
qed

lemma neighbor_scan_values:
  "neighbor_scan E heard x = Some r \<Longrightarrow> nr_SourcePrefix r = fst x \<and> nr_Packets r = sum_list (map (rn_packets \<circ> snd) (snd x)) \<and>
    nr_HeardBy r = int (heard (fst x) (snd x))"
  by (auto simp: neighbor_scan_def split: prod.splits option.splits)

text \<open>C33 (refinement): the figures of the neighbors page are figures of the log: where the rollup stands for
  the log, a row's count is the number of packets heard from its prefix since the minute 24 hours ago,
  and its number of observers that of those who heard them; the rows are ordered by their counts, no
  prefix is listed twice, and there are at most 500.\<close>

theorem neighbors_page_counts_log:
  assumes "web_ok W" "neighbor_ok E hist (t_rollup_neighbor_1m (vw_db v))" "queryNeighbors W (Some v) = Some rows"
  shows "(\<forall>r \<in> set rows. let heard = heard_from hist (nr_SourcePrefix r) (vw_now v - 24 * hour) in
      nr_Packets r = int (length heard) \<and> nr_HeardBy r = int (card ((ev_ObserverID \<circ> fst) ` set heard))) \<and>
    sorted_wrt (\<lambda>a b. nr_Packets b \<le> nr_Packets a) rows \<and> distinct (map nr_SourcePrefix rows) \<and> length rows \<le> 500"
proof -
  let ?groups = "neighbor_groups W 500 (recent_neighbors (vw_now v) (vw_db v))"
  obtain n where n: "arriving (vw_reach v) ?groups = take n ?groups" using arriving_prefix by blast
  let ?scan = "neighbor_scan (we_env W) (\<lambda>src g. distinct_observers g)"
  have rows: "rows = scan_rows (we_scan_fatal W) ?scan (take n ?groups)"
    using assms(3) by (simp add: queryNeighbors_def query_rows_def n)
  note g = neighbor_groups_ok [OF assms(1), where limit = 500 and rows = "recent_neighbors (vw_now v) (vw_db v)"]
  have "sorted_wrt (\<lambda>a b. nr_Packets b \<le> nr_Packets a \<and> nr_SourcePrefix a \<noteq> nr_SourcePrefix b) rows"
    unfolding rows by (rule scan_rows_wrt [OF sorted_wrt_take [OF g(1)]]) (auto dest!: neighbor_scan_values)
  then have "sorted_wrt (\<lambda>a b. nr_Packets b \<le> nr_Packets a) rows" "distinct (map nr_SourcePrefix rows)"
    unfolding distinct_wrt by (auto elim: sorted_wrt_mono_rel [rotated])
  moreover have "length rows \<le> 500" using length_scan_rows [of "we_scan_fatal W" ?scan "take n ?groups"] g(3) unfolding rows by simp
  moreover have "nr_Packets r = int (length (heard_from hist (nr_SourcePrefix r) (vw_now v - 24 * hour))) \<and>
      nr_HeardBy r = int (card ((ev_ObserverID \<circ> fst) ` set (heard_from hist (nr_SourcePrefix r) (vw_now v - 24 * hour))))" if r: "r \<in> set rows" for r
  proof -
    obtain x where "x \<in> set (take n ?groups)" and s: "?scan x = Some r" using set_scan_rows r unfolding rows by fastforce
    then have "snd x = filter (\<lambda>y. nrow_prefix y = fst x) (recent_neighbors (vw_now v) (vw_db v))" using g(2) by (blast dest: in_set_takeD)
    from neighbor_window_log [OF assms(2) this] neighbor_scan_values [OF s] show ?thesis by simp
  qed
  ultimately show ?thesis by (simp add: Let_def)
qed

text \<open>A rollup that stands for a log of one packet, and a page of it.\<close>

definition one_neighbor :: "(bytes \<times> bytes \<times> time, neighbor_row) pgtable" where
  "one_neighbor = [(([7], [9], truncate_time minute (sample_time + second)),
     \<lparr>rn_packets = 1, rn_avg_rssi = Some (Fin (- 95)), rn_min_rssi = Some (- 95), rn_max_rssi = Some (- 95), rn_avg_snr = Some (Fin (21/4))\<rparr>)]"

definition neighbor_page :: view where
  "neighbor_page = \<lparr>vw_now = sample_time + hour, vw_db = empty_db\<lparr>t_rollup_neighbor_1m := one_neighbor\<rparr>, vw_reach = None\<rparr>"

lemma one_neighbor_packets:
  "neighbor_packets [packet_event] k = (if k = fst (hd one_neighbor) then [(packet_event, sample_packet)] else [])"
  by (auto simp: neighbor_packets_single one_neighbor_def packet_of_def packet_event_def sample_packet_def)

lemma one_neighbor_ok: "neighbor_ok sample_env [packet_event] one_neighbor"
proof -
  have "neighbor_row_spec [(packet_event, sample_packet)] (snd (hd one_neighbor))"
    by (simp add: neighbor_row_spec_def one_neighbor_def rssis_def snrs_def min_of_def max_of_def sample_packet_def List.map_filter_simps)
  moreover have "map_of one_neighbor k = (if k = fst (hd one_neighbor) then Some (snd (hd one_neighbor)) else None)" for k
    by (simp add: one_neighbor_def)
  moreover have "distinct (map fst one_neighbor)" by (simp add: one_neighbor_def)
  ultimately show ?thesis unfolding neighbor_ok_def one_neighbor_packets by simp
qed

lemma neighbors_page_counts_log_witness:
  "\<exists>rows. queryNeighbors sample_web (Some neighbor_page) = Some rows \<and> map nr_SourcePrefix rows = [[9]] \<and>
    (\<forall>r \<in> set rows. nr_Packets r = int (length (heard_from [packet_event] (nr_SourcePrefix r) (sample_time - 23 * hour))))"
proof -
  have "sample_time + hour - 24 * hour \<le> truncate_time minute (sample_time + second)" by code_simp
  then have "recent_neighbors (sample_time + hour) (vw_db neighbor_page) = one_neighbor"
    by (simp add: recent_neighbors_def neighbor_page_def one_neighbor_def nrow_bucket_def)
  then have g: "neighbor_groups sample_web 500 (recent_neighbors (vw_now neighbor_page) (vw_db neighbor_page)) = [([9], one_neighbor)]"
    by (simp add: neighbor_page_def neighbor_groups_def one_neighbor_def groups_def scan_order_def sample_web_def sample_env_def nrow_prefix_def)
  have "neighbor_scan (we_env sample_web) (\<lambda>src g. distinct_observers g) ([9], one_neighbor) \<noteq> None"
    (is "?x \<noteq> None") by (simp add: neighbor_scan_def one_neighbor_def avg_float_def sql_avg_def sample_web_def sample_env_def min_opt_def max_opt_def List.map_filter_simps)
  then obtain x where x: "?x = Some x" by blast
  define rows where "rows = [x]"
  have "vw_reach neighbor_page = None" by (simp add: neighbor_page_def)
  with x have r: "queryNeighbors sample_web (Some neighbor_page) = Some rows" "map nr_SourcePrefix rows = [[9]]"
    using neighbor_scan_values [OF x] by (simp_all add: queryNeighbors_def query_rows_def g arriving_def rows_def)
  have "neighbor_ok sample_env [packet_event] (t_rollup_neighbor_1m (vw_db neighbor_page))" using one_neighbor_ok by (simp add: neighbor_page_def)
  from neighbors_page_counts_log [OF sample_web_ok this r(1)] r show ?thesis by (auto simp: neighbor_page_def Let_def algebra_simps)
qed

lemma filter_key: "distinct (map fst m) \<Longrightarrow> map_of m k = Some r \<Longrightarrow> filter (\<lambda>(j, r). j = k) m = [(k, r)]"
proof (induction m)
  case (Cons x m)
  have "filter (\<lambda>(j, r). j = k) m = []" if "fst x = k"
    using that Cons.prems(1) by (auto simp: filter_empty_conv image_iff)
  then show ?case using Cons by (cases x) (auto split: if_splits)
qed simp

text \<open>C37 (error): the page of an observer that exists fails whenever none of its packets is from the last 24
  hours, because the time of the last packet, which is null then, does not scan into the row; with a
  packet in that window it does not fail.\<close>

theorem idle_observer_page_fails:
  assumes "v 0 = Some w" "vw_reach w = None" "distinct (map fst (t_observers (vw_db w)))" "map_of (t_observers (vw_db w)) k \<noteq> None"
  shows "queryObserverDetail W k v = None \<longleftrightarrow> heard_by (vw_db w) k (vw_now w - 24 * hour) = []"
proof -
  obtain r where "map_of (t_observers (vw_db w)) k = Some r" using assms(4) by auto
  from filter_key [OF assms(3) this] show ?thesis
    by (simp add: queryObserverDetail_def query_row_def query_rows_def assms(1,2) arriving_def observer_select_def last_packet_def Let_def)
qed

lemma idle_observer_page_fails_witness:
  "queryObserverDetail sample_web [7]
    (\<lambda>i. Some \<lparr>vw_now = sample_time, vw_db = empty_db\<lparr>t_observers := [([7], sample_observer)]\<rparr>, vw_reach = None\<rparr>) = None"
proof -
  let ?w = "\<lparr>vw_now = sample_time, vw_db = empty_db\<lparr>t_observers := [([7], sample_observer)]\<rparr>, vw_reach = None\<rparr>"
  have "heard_by (vw_db ?w) [7] (vw_now ?w - 24 * hour) = []" by (simp add: heard_by_def empty_db_def)
  with idle_observer_page_fails [of "\<lambda>i. Some ?w" ?w "[7]" sample_web] show ?thesis by simp
qed

end
