(* ===== verification/Web_Nodes.thy ===== *)
theory Web_Nodes
  imports Web_View Go_JSON
begin

text \<open>
  The nodes page: the query parameters (\<^verbatim>\<open>nodes\<close> in \<^verbatim>\<open>internal/web/handlers.go\<close>), \<^verbatim>\<open>queryNodes\<close>
  (\<^verbatim>\<open>internal/web/queries.go\<close>) with the condition it assembles, and the links and ranges its template
  shows (\<^verbatim>\<open>internal/web/templates/helpers.go\<close>).
\<close>

section \<open>Model\<close>

record NodeRow =
  nd_PublicKey :: bytes
  nd_NodeType :: string
  nd_Name :: string
  nd_HasLatLon :: bool
  nd_LatE6 :: int
  nd_LonE6 :: int
  nd_HasFeat1 :: bool
  nd_Feat1 :: int
  nd_HasFeat2 :: bool
  nd_Feat2 :: int
  nd_AdvertTS :: time
  nd_AdvertReceivedAt :: time
  nd_AdvertCount :: int
  nd_FirstSeen :: time
  nd_LastSeen :: time

record NodeFilter =
  nf_Q :: string
  nf_Type :: string

record NodesPage =
  np_Rows :: "NodeRow list"
  np_Filter :: NodeFilter
  np_Sort :: string
  np_Dir :: string
  np_Page :: int
  np_Size :: int
  np_Total :: int
  np_Types :: "string list"

subsection \<open>The request\<close>

text \<open>\<open>param\<close> is \<^verbatim>\<open>r.URL.Query().Get\<close>.\<close>

definition atoi_or_zero :: "string \<Rightarrow> int" where
  "atoi_or_zero s = (case atoi s of Some i \<Rightarrow> i
     | None \<Rightarrow> (let (neg, ds) = (case s of c # r \<Rightarrow> if c = CHR ''-'' then (True, r) else if c = CHR ''+'' then (False, r) else (False, s) | [] \<Rightarrow> (False, []))
                in if parse_uint ds = None then 0 else if neg then - (2 ^ 63) else 2 ^ 63 - 1))"

definition nodes_request :: "(string \<Rightarrow> string) \<Rightarrow> NodesPage" where
  "nodes_request param =
     (let page = atoi_or_zero (param ''page''); page = (if page < 1 then 1 else page);
          size = atoi_or_zero (param ''size''); size = (if size \<le> 0 then 50 else size); size = (if size > 500 then 500 else size)
      in \<lparr>np_Rows = [], np_Filter = \<lparr>nf_Q = param ''q'', nf_Type = param ''type''\<rparr>, np_Sort = param ''sort'', np_Dir = param ''dir'',
          np_Page = page, np_Size = size, np_Total = 0, np_Types = []\<rparr>)"

subsection \<open>The condition\<close>

text \<open>
  The arguments of a statement, and the conditions with the numbers of the placeholders they were
  written with: the name contains the text of a placeholder, or that or the key starts with the bytes
  of another; the type is the text of a placeholder.
\<close>

datatype sql_arg = AText string | ABytes bytes | AInt int

datatype sql_cond = NameLike nat | NameOrPrefix nat nat nat | TypeIs nat

definition node_where :: "NodeFilter \<Rightarrow> sql_cond list \<times> sql_arg list" where
  "node_where f =
     (let q = TrimSpace (nf_Q f); (hexBytes, ok) = hex_decode q;
          (wh, args) =
            (if q = [] then ([], [])
             else if ok \<and> hexBytes \<noteq> [] then
               ([NameOrPrefix (length [ABytes hexBytes] + 1) (length hexBytes) (length [ABytes hexBytes])], [ABytes hexBytes, AText q])
             else ([NameLike (length [AText q])], [AText q]))
      in if nf_Type f = [] then (wh, args)
         else (wh @ [TypeIs (length (args @ [AText (nf_Type f)]))], args @ [AText (nf_Type f)]))"

text \<open>
  \<^verbatim>\<open>LIKE\<close>: \<^verbatim>\<open>%\<close> stands for any text, \<^verbatim>\<open>_\<close> for one character, a backslash takes the next character
  literally.
\<close>

fun like_match :: "string \<Rightarrow> string \<Rightarrow> bool" where
  "like_match [] s \<longleftrightarrow> s = []"
| "like_match (p # ps) s =
     (if p = CHR ''%'' then like_match ps s \<or> (case s of [] \<Rightarrow> False | c # s' \<Rightarrow> like_match (p # ps) s')
      else if p = CHR ''_'' then utf8_width s \<noteq> 0 \<and> like_match ps (drop (utf8_width s) s)
      else if p = CHR 0x5C then (case (ps, s) of (q # ps', c # s') \<Rightarrow> c = q \<and> like_match ps' s' | _ \<Rightarrow> False)
      else (case s of [] \<Rightarrow> False | c # s' \<Rightarrow> c = p \<and> like_match ps s'))"

definition arg_text :: "sql_arg list \<Rightarrow> nat \<Rightarrow> string option" where
  "arg_text args i = (if 1 \<le> i \<and> i \<le> length args then (case args ! (i - 1) of AText s \<Rightarrow> Some s | _ \<Rightarrow> None) else None)"

definition arg_bytes :: "sql_arg list \<Rightarrow> nat \<Rightarrow> bytes option" where
  "arg_bytes args i = (if 1 \<le> i \<and> i \<le> length args then (case args ! (i - 1) of ABytes s \<Rightarrow> Some s | _ \<Rightarrow> None) else None)"

definition arg_int :: "sql_arg list \<Rightarrow> nat \<Rightarrow> int option" where
  "arg_int args i = (if 1 \<le> i \<and> i \<le> length args then (case args ! (i - 1) of AInt s \<Rightarrow> Some s | _ \<Rightarrow> None) else None)"

definition name_like :: "web_env \<Rightarrow> string \<Rightarrow> string \<Rightarrow> bool" where
  "name_like W q name \<longleftrightarrow> like_match (''%'' @ we_lower W q @ ''%'') (we_lower W name)"

text \<open>The truth of a condition for a node; \<open>None\<close> where a placeholder has no argument of its type.\<close>

definition cond_holds :: "web_env \<Rightarrow> sql_arg list \<Rightarrow> bytes \<times> nodes_row \<Rightarrow> sql_cond \<Rightarrow> bool option" where
  "cond_holds W args x c = (case x of (key, r) \<Rightarrow> (case c of
     NameLike i \<Rightarrow> map_option (\<lambda>q. name_like W q (n_name r)) (arg_text args i)
   | NameOrPrefix i n j \<Rightarrow> (case (arg_text args i, arg_bytes args j) of
       (Some q, Some b) \<Rightarrow> Some (name_like W q (n_name r) \<or> take n key = b) | _ \<Rightarrow> None)
   | TypeIs i \<Rightarrow> map_option (\<lambda>t. n_node_type r = t) (arg_text args i)))"

fun all_hold :: "web_env \<Rightarrow> sql_arg list \<Rightarrow> bytes \<times> nodes_row \<Rightarrow> sql_cond list \<Rightarrow> bool option" where
  "all_hold W args x [] = Some True"
| "all_hold W args x (c # cs) = (case (cond_holds W args x c, all_hold W args x cs) of
     (Some a, Some b) \<Rightarrow> Some (a \<and> b) | _ \<Rightarrow> None)"

text \<open>The rows of \<^verbatim>\<open>FROM nodes WHERE ...\<close>; a bad placeholder or text is an error of the statement.\<close>

definition arg_ok :: "sql_arg \<Rightarrow> bool" where
  "arg_ok a = (case a of AText s \<Rightarrow> text_ok s | _ \<Rightarrow> True)"

definition nodes_where :: "web_env \<Rightarrow> sql_cond list \<Rightarrow> sql_arg list \<Rightarrow> db \<Rightarrow> (bytes \<times> nodes_row) list option" where
  "nodes_where W cs args d =
     (if list_all arg_ok args \<and> list_all (\<lambda>x. all_hold W args x cs \<noteq> None) (t_nodes d)
      then Some (filter (\<lambda>x. all_hold W args x cs = Some True) (t_nodes d)) else None)"

subsection \<open>The query\<close>

definition nodesSortColumns :: "web_env \<Rightarrow> string \<Rightarrow> (bytes \<times> nodes_row \<Rightarrow> rat option) option" where
  "nodesSortColumns W col =
     (if col = ''name'' then Some (\<lambda>(k, r). Some (we_rank W (we_lower W (n_name r))))
      else if col = ''node_type'' then Some (\<lambda>(k, r). Some (we_rank W (n_node_type r)))
      else if col = ''advert_count'' then Some (\<lambda>(k, r). Some (of_int (n_advert_count r)))
      else if col = ''advert_timestamp'' then Some (\<lambda>(k, r). map_option of_int (n_advert_timestamp r))
      else if col = ''first_seen'' then Some (\<lambda>(k, r). Some (of_int (n_first_seen r)))
      else if col = ''last_seen'' then Some (\<lambda>(k, r). Some (of_int (n_last_seen r)))
      else None)"

definition last_seen_key :: "bytes \<times> nodes_row \<Rightarrow> rat option" where
  "last_seen_key = (\<lambda>(k, r). Some (of_int (n_last_seen r)))"

definition scan_node :: "bytes \<times> nodes_row \<Rightarrow> NodeRow" where
  "scan_node x = (case x of (k, r) \<Rightarrow>
     \<lparr>nd_PublicKey = k, nd_NodeType = n_node_type r, nd_Name = n_name r, nd_HasLatLon = n_has_lat_lon r,
      nd_LatE6 = (case n_lat_e6 r of None \<Rightarrow> 0 | Some i \<Rightarrow> i), nd_LonE6 = (case n_lon_e6 r of None \<Rightarrow> 0 | Some i \<Rightarrow> i),
      nd_HasFeat1 = n_has_feat1 r, nd_Feat1 = (case n_feat1 r of None \<Rightarrow> 0 | Some i \<Rightarrow> i),
      nd_HasFeat2 = n_has_feat2 r, nd_Feat2 = (case n_feat2 r of None \<Rightarrow> 0 | Some i \<Rightarrow> i),
      nd_AdvertTS = (case n_advert_timestamp r of None \<Rightarrow> zero_time | Some t \<Rightarrow> t),
      nd_AdvertReceivedAt = (case n_advert_received_at r of None \<Rightarrow> zero_time | Some t \<Rightarrow> t),
      nd_AdvertCount = n_advert_count r, nd_FirstSeen = n_first_seen r, nd_LastSeen = n_last_seen r\<rparr>)"

text \<open>The rows of the page in order; \<^verbatim>\<open>LIMIT\<close> and \<^verbatim>\<open>OFFSET\<close> of a negative number are errors.\<close>

definition nodes_ordered :: "web_env \<Rightarrow> (bytes \<times> nodes_row \<Rightarrow> rat option) \<Rightarrow> bool \<Rightarrow> (bytes \<times> nodes_row) list \<Rightarrow> (bytes \<times> nodes_row) list" where
  "nodes_ordered W key desc rows = order_by desc key (sort_key fst rows)"

definition select_nodes ::
  "web_env \<Rightarrow> sql_cond list \<Rightarrow> sql_arg list \<Rightarrow> (bytes \<times> nodes_row \<Rightarrow> rat option) \<Rightarrow> bool \<Rightarrow> nat \<Rightarrow> nat \<Rightarrow> db \<Rightarrow> (bytes \<times> nodes_row) list option"
where
  "select_nodes W cs args key desc limit_arg offset_arg d =
     (case (nodes_where W cs args d, arg_int args limit_arg, arg_int args offset_arg) of
        (Some rows, Some n, Some off) \<Rightarrow>
          if n < 0 \<or> off < 0 then None else Some (take (nat n) (drop (nat off) (nodes_ordered W key desc rows)))
      | _ \<Rightarrow> None)"

text \<open>The page and whether it comes with an error; \<open>v0\<close> and \<open>v1\<close> are what the two queries meet.\<close>

definition queryNodes :: "web_env \<Rightarrow> view option \<Rightarrow> view option \<Rightarrow> NodesPage \<Rightarrow> NodesPage \<times> bool" where
  "queryNodes W v0 v1 page =
     (let page = page\<lparr>np_Types := [''CHAT'', ''REPEATER'', ''ROOM'', ''SENSOR'', ''NONE'']\<rparr>;
          (cs, args) = node_where (np_Filter page)
      in case Option.bind v0 (\<lambda>v. nodes_where W cs args (vw_db v)) of
           None \<Rightarrow> (page, False)
         | Some counted \<Rightarrow>
             if (case v0 of Some v \<Rightarrow> vw_reach v = Some 0 | None \<Rightarrow> True) then (page, False)
             else
               let page = page\<lparr>np_Total := int (length counted)\<rparr>;
                   (key, page) = (case nodesSortColumns W (np_Sort page) of
                       Some key \<Rightarrow> (key, page)
                     | None \<Rightarrow> (last_seen_key, page\<lparr>np_Sort := ''last_seen''\<rparr>));
                   d = to_lower (np_Dir page);
                   (dir, page) = (if d \<noteq> ''asc'' \<and> d \<noteq> ''desc'' then (''desc'', page\<lparr>np_Dir := ''desc''\<rparr>) else (d, page));
                   page = (if np_Size page \<le> 0 then page\<lparr>np_Size := 50\<rparr> else page);
                   page = (if np_Page page \<le> 0 then page\<lparr>np_Page := 1\<rparr> else page);
                   off = wrap64 (wrap64 (np_Page page - 1) * np_Size page);
                   args = args @ [AInt (np_Size page), AInt off]
               in case v1 of
                    None \<Rightarrow> (page, False)
                  | Some v \<Rightarrow>
                      (case select_nodes W cs args key (dir = ''desc'') (length args - 1) (length args) (vw_db v) of
                         None \<Rightarrow> (page, False)
                       | Some rows \<Rightarrow> (page\<lparr>np_Rows := np_Rows page @ map scan_node (arriving (vw_reach v) rows)\<rparr>,
                                         case vw_reach v of None \<Rightarrow> True | Some n \<Rightarrow> length rows \<le> n)))"

subsection \<open>The page around the rows\<close>

definition nodesRangeStart :: "NodesPage \<Rightarrow> int" where
  "nodesRangeStart d = (if np_Total d = 0 then 0 else wrap64 (wrap64 (wrap64 (np_Page d - 1) * np_Size d) + 1))"

definition nodesRangeEnd :: "NodesPage \<Rightarrow> int" where
  "nodesRangeEnd d = (let e = wrap64 (np_Page d * np_Size d) in if e > np_Total d then np_Total d else e)"

definition nodesTotalPages :: "NodesPage \<Rightarrow> int" where
  "nodesTotalPages d =
     (if np_Size d \<le> 0 \<or> np_Total d \<le> 0 then 1
      else let pages = quot (wrap64 (wrap64 (np_Total d + np_Size d) - 1)) (np_Size d) in if pages < 1 then 1 else pages)"

section \<open>The condition means what it should\<close>

text \<open>The nodes a filter asks for, without placeholders.\<close>

definition node_matches :: "web_env \<Rightarrow> NodeFilter \<Rightarrow> bytes \<times> nodes_row \<Rightarrow> bool" where
  "node_matches W f x \<longleftrightarrow> (let q = TrimSpace (nf_Q f); (b, ok) = hex_decode q in
     (q = [] \<or> name_like W q (n_name (snd x)) \<or> (ok \<and> b \<noteq> [] \<and> take (length b) (fst x) = b)) \<and>
     (nf_Type f = [] \<or> n_node_type (snd x) = nf_Type f))"

definition filter_ok :: "NodeFilter \<Rightarrow> bool" where
  "filter_ok f \<longleftrightarrow> text_ok (TrimSpace (nf_Q f)) \<and> text_ok (nf_Type f)"

definition is_int_arg :: "sql_arg \<Rightarrow> bool" where
  "is_int_arg a = (case a of AInt i \<Rightarrow> True | _ \<Rightarrow> False)"

lemma arg_nth:
  "1 \<le> i \<Longrightarrow> i \<le> length args \<Longrightarrow> arg_text (args @ ints) i = arg_text args i"
  "1 \<le> i \<Longrightarrow> i \<le> length args \<Longrightarrow> arg_bytes (args @ ints) i = arg_bytes args i"
  by (auto simp: arg_text_def arg_bytes_def nth_append)

lemma all_hold_append:
  "all_hold W args x (cs @ cs') = (case (all_hold W args x cs, all_hold W args x cs') of (Some a, Some b) \<Rightarrow> Some (a \<and> b) | _ \<Rightarrow> None)"
  by (induction cs) (auto split: option.splits)

lemma node_where_holds:
  assumes "node_where f = (cs, args)"
  shows "all_hold W (args @ ints) x cs = Some (node_matches W f x)"
proof -
  obtain key r where x: "x = (key, r)" by fastforce
  obtain b ok where h: "hex_decode (TrimSpace (nf_Q f)) = (b, ok)" by fastforce
  consider "TrimSpace (nf_Q f) = []" | "TrimSpace (nf_Q f) \<noteq> []" "ok" "b \<noteq> []" | "TrimSpace (nf_Q f) \<noteq> []" "\<not> (ok \<and> b \<noteq> [])" by blast
  then show ?thesis
  proof cases
    case 1
    then show ?thesis using assms h
      by (auto simp: node_where_def node_matches_def Let_def x cond_holds_def arg_text_def split: if_splits)
  next
    case 2
    then show ?thesis using assms h
      by (auto simp: node_where_def node_matches_def Let_def x cond_holds_def arg_text_def arg_bytes_def split: if_splits)
  next
    case 3
    then show ?thesis using assms h
      by (auto simp: node_where_def node_matches_def Let_def x cond_holds_def arg_text_def split: if_splits)
  qed
qed

lemma node_where_args:
  assumes "node_where f = (cs, args)" shows "list_all arg_ok args \<longleftrightarrow> filter_ok f"
proof -
  have "text_ok (TrimSpace (nf_Q f)) \<longleftrightarrow> True" if "TrimSpace (nf_Q f) = []" using that by (simp add: text_ok_def)
  moreover have "text_ok (nf_Type f)" if "nf_Type f = []" using that by (simp add: text_ok_def)
  ultimately show ?thesis using assms
    by (cases "hex_decode (TrimSpace (nf_Q f))") (auto simp: node_where_def Let_def filter_ok_def arg_ok_def split: if_splits)
qed

lemma nodes_where_spec:
  assumes "node_where f = (cs, args)" "list_all is_int_arg ints" "filter_ok f"
  shows "nodes_where W cs (args @ ints) d = Some (filter (node_matches W f) (t_nodes d))"
proof -
  have "list_all arg_ok ints" using assms(2) by (auto simp: list_all_iff is_int_arg_def arg_ok_def split: sql_arg.splits)
  then show ?thesis using node_where_args [OF assms(1)] assms(3)
    unfolding nodes_where_def node_where_holds [OF assms(1)] by (simp add: list.pred_True)
qed

section \<open>The pages of a listing\<close>

definition sort_column :: "web_env \<Rightarrow> string \<Rightarrow> bytes \<times> nodes_row \<Rightarrow> rat option" where
  "sort_column W col = (case nodesSortColumns W col of Some key \<Rightarrow> key | None \<Rightarrow> last_seen_key)"

text \<open>All nodes of a request, in the order it asks for.\<close>

definition nodes_listing :: "web_env \<Rightarrow> db \<Rightarrow> NodesPage \<Rightarrow> NodeRow list" where
  "nodes_listing W d p = map scan_node (nodes_ordered W (sort_column W (np_Sort p)) (to_lower (np_Dir p) \<noteq> ''asc'')
     (filter (node_matches W (np_Filter p)) (t_nodes d)))"

lemma length_nodes_listing: "length (nodes_listing W d p) = length (filter (node_matches W (np_Filter p)) (t_nodes d))"
  by (simp add: nodes_listing_def nodes_ordered_def order_by_def)

lemma queryNodes_page:
  fixes p :: NodesPage and d :: db
  defines "v \<equiv> \<lambda>t. \<lparr>vw_now = t, vw_db = d, vw_reach = None\<rparr>"
  assumes "filter_ok (np_Filter p)" "1 \<le> np_Page p" "0 < np_Size p" "(np_Page p - 1) * np_Size p < 2 ^ 63" "np_Page p \<le> 2 ^ 63"
  shows "\<exists>q. queryNodes W (Some (v t0)) (Some (v t1)) p = (q, True) \<and>
    np_Rows q = np_Rows p @ take (nat (np_Size p)) (drop (nat ((np_Page p - 1) * np_Size p)) (nodes_listing W d p)) \<and>
    np_Total q = int (length (nodes_listing W d p)) \<and> np_Page q = np_Page p \<and> np_Size q = np_Size p \<and> np_Filter q = np_Filter p"
proof -
  obtain cs args where w: "node_where (np_Filter p) = (cs, args)" by fastforce
  let ?rows = "filter (node_matches W (np_Filter p)) (t_nodes d)"
  let ?off = "(np_Page p - 1) * np_Size p"
  have "0 \<le> ?off" using assms(3,4) by simp
  then have "wrap64 ?off = ?off" using assms(5) by (intro wrap64_id) simp_all
  then have off: "wrap64 (wrap64 (np_Page p - 1) * np_Size p) = ?off" "0 \<le> ?off"
    using assms(3,6) \<open>0 \<le> ?off\<close> by (simp_all add: wrap64_id)
  have args: "arg_int (args @ [AInt (np_Size p), AInt ?off]) (length (args @ [AInt (np_Size p), AInt ?off]) - 1) = Some (np_Size p)"
    "arg_int (args @ [AInt (np_Size p), AInt ?off]) (length (args @ [AInt (np_Size p), AInt ?off])) = Some ?off"
    by (simp_all add: arg_int_def nth_append)
  have sel: "select_nodes W cs (args @ [AInt (np_Size p), AInt ?off]) key desc (length (args @ [AInt (np_Size p), AInt ?off]) - 1)
      (length (args @ [AInt (np_Size p), AInt ?off])) d = Some (take (nat (np_Size p)) (drop (nat ?off) (nodes_ordered W key desc ?rows)))" for key desc
    using off(2) assms(4) unfolding select_nodes_def args
    by (simp add: nodes_where_spec [OF w _ assms(2)] is_int_arg_def)
  have count: "nodes_where W cs args d = Some ?rows" using nodes_where_spec [OF w _ assms(2), of "[]"] by simp
  show ?thesis
    using assms(3,4) length_nodes_listing [of W d p]
    by (cases "nodesSortColumns W (np_Sort p)")
      (auto simp: queryNodes_def Let_def w v_def count off(1) sel [simplified] sort_column_def nodes_listing_def arriving_def take_map drop_map)
qed

lemma chunks_cover: "concat (map (\<lambda>i. take n (drop (i * n) xs)) [0..<k]) = take (k * n) xs"
  by (induction k) (simp, simp, subst add.commute, simp add: take_add)

lemma ceil_div:
  fixes m n :: int assumes "0 < n" "0 < m"
  shows "m \<le> (m + n - 1) div n * n" "((m + n - 1) div n - 1) * n < m" "0 < (m + n - 1) div n"
proof -
  let ?x = "m + n - 1"
  have e: "?x div n * n = ?x - ?x mod n" using div_mult_mod_eq [of ?x n] by linarith
  have r: "0 \<le> ?x mod n" "?x mod n < n" using assms(1) by simp_all
  show "m \<le> ?x div n * n" using e r by linarith
  have "(?x div n - 1) * n = ?x div n * n - n" by (simp add: left_diff_distrib)
  then show "(?x div n - 1) * n < m" using e r by linarith
  show "0 < ?x div n" using assms by (simp add: pos_imp_zdiv_pos_iff)
qed

lemma pages_enough:
  assumes "np_Total q = int m" "0 < np_Size q" "np_Size q \<le> 500" "m < 2 ^ 62"
  shows "m \<le> nat (nodesTotalPages q) * nat (np_Size q)" and "1 \<le> nodesTotalPages q" and "(nodesTotalPages q - 1) * np_Size q < 2 ^ 62"
proof -
  let ?n = "np_Size q" and ?k = "(int m + np_Size q - 1) div np_Size q"
  have "(m \<le> nat (nodesTotalPages q) * nat (np_Size q)) \<and> 1 \<le> nodesTotalPages q \<and> (nodesTotalPages q - 1) * np_Size q < 2 ^ 62"
  proof (cases "m = 0")
    case True
    then show ?thesis using assms by (simp add: nodesTotalPages_def)
  next
    case False
    have m: "int m < 2 ^ 62" using assms(4) by (metis of_nat_less_iff of_nat_numeral of_nat_power)
    note k = ceil_div [OF assms(2), of "int m"]
    have w: "wrap64 (int m + ?n) = int m + ?n" "wrap64 (int m + ?n - 1) = int m + ?n - 1"
      using m assms(2,3) by (intro wrap64_id; simp)+
    have "quot (int m + ?n - 1) ?n = ?k" using assms(2) False by (simp add: quot_def)
    then have pages: "nodesTotalPages q = ?k" using assms(1,2) False k(3) by (simp add: nodesTotalPages_def Let_def w)
    have "m \<le> nat (?k * ?n)" using k(1) False by linarith
    also have "nat (?k * ?n) = nat ?k * nat ?n" using k(3) False by (intro nat_mult_distrib) simp
    finally show ?thesis unfolding pages using k(2,3) False m by simp
  qed
  then show "m \<le> nat (nodesTotalPages q) * nat (np_Size q)" and "1 \<le> nodesTotalPages q" and "(nodesTotalPages q - 1) * np_Size q < 2 ^ 62"
    by simp_all
qed

section \<open>Properties\<close>

lemma nodes_request_bounds: "1 \<le> np_Page (nodes_request param)" "0 < np_Size (nodes_request param)" "np_Size (nodes_request param) \<le> 500"
  by (simp_all add: nodes_request_def Let_def)

lemma nodes_request_rows: "np_Rows (nodes_request param) = []"
  by (simp add: nodes_request_def Let_def)

definition quiet :: "time \<Rightarrow> db \<Rightarrow> view option" where
  "quiet t d = Some \<lparr>vw_now = t, vw_db = d, vw_reach = None\<rparr>"

text \<open>The page that a request with another page number would show.\<close>

definition nodes_page :: "web_env \<Rightarrow> time \<Rightarrow> time \<Rightarrow> db \<Rightarrow> (string \<Rightarrow> string) \<Rightarrow> nat \<Rightarrow> NodesPage" where
  "nodes_page W t0 t1 d param i = fst (queryNodes W (quiet t0 d) (quiet t1 d) ((nodes_request param)\<lparr>np_Page := int i + 1\<rparr>))"

lemma nodes_page_rows:
  assumes "filter_ok (np_Filter (nodes_request param))" "int i * np_Size (nodes_request param) < 2 ^ 62"
  shows "np_Rows (nodes_page W t0 t1 d param i) =
      take (nat (np_Size (nodes_request param))) (drop (i * nat (np_Size (nodes_request param))) (nodes_listing W d (nodes_request param)))"
    and "np_Total (nodes_page W t0 t1 d param i) = int (length (nodes_listing W d (nodes_request param)))"
    and "np_Size (nodes_page W t0 t1 d param i) = np_Size (nodes_request param)"
proof -
  let ?p = "(nodes_request param)\<lparr>np_Page := int i + 1\<rparr>" and ?n = "np_Size (nodes_request param)"
  have n: "0 < ?n" by (rule nodes_request_bounds)
  have "int i * 1 \<le> int i * ?n" using n by (intro mult_left_mono) simp_all
  then have "int i < 2 ^ 62" using assms(2) by simp
  then have b: "1 \<le> np_Page ?p" "0 < np_Size ?p" "(np_Page ?p - 1) * np_Size ?p < 2 ^ 63" "np_Page ?p \<le> 2 ^ 63" using n assms(2) by simp_all
  have l: "nodes_listing W d ?p = nodes_listing W d (nodes_request param)" by (simp add: nodes_listing_def)
  have off: "nat ((np_Page ?p - 1) * np_Size ?p) = i * nat ?n" by (simp add: nat_mult_distrib)
  from queryNodes_page [OF _ b, of W t0 d t1] assms(1)
  show "np_Rows (nodes_page W t0 t1 d param i) =
      take (nat ?n) (drop (i * nat ?n) (nodes_listing W d (nodes_request param)))"
    "np_Total (nodes_page W t0 t1 d param i) = int (length (nodes_listing W d (nodes_request param)))"
    "np_Size (nodes_page W t0 t1 d param i) = ?n"
    unfolding off l by (auto simp: nodes_page_def quiet_def nodes_request_rows)
qed

lemma filter_count_small: "length (t_nodes d) < 2 ^ 62 \<Longrightarrow> length (nodes_listing W d p) < 2 ^ 62"
  unfolding length_nodes_listing by (rule le_less_trans [OF length_filter_le])

text \<open>C34 (functional): the pages of a listing, from the first to the last the page count admits, together show
  every node that matches the request's filter exactly once, in one order; each page shows the number
  of all matching nodes and at most 500 rows.\<close>

theorem nodes_pages_cover:
  assumes "filter_ok (np_Filter (nodes_request param))" "length (t_nodes d) < 2 ^ 62"
    and "k = nat (nodesTotalPages (nodes_page W t0 t1 d param 0))"
  shows "concat (map (\<lambda>i. np_Rows (nodes_page W t0 t1 d param i)) [0..<k]) = nodes_listing W d (nodes_request param) \<and>
    mset (nodes_listing W d (nodes_request param)) =
      image_mset scan_node (filter_mset (node_matches W (np_Filter (nodes_request param))) (mset (t_nodes d))) \<and>
    (\<forall>i < k. np_Total (nodes_page W t0 t1 d param i) = int (length (nodes_listing W d (nodes_request param))) \<and>
      length (np_Rows (nodes_page W t0 t1 d param i)) \<le> 500)"
proof -
  let ?n = "np_Size (nodes_request param)" and ?l = "nodes_listing W d (nodes_request param)"
  note first = nodes_page_rows [OF assms(1), of 0 W t0 t1 d]
  have q: "np_Total (nodes_page W t0 t1 d param 0) = int (length ?l)" "0 < np_Size (nodes_page W t0 t1 d param 0)"
    "np_Size (nodes_page W t0 t1 d param 0) \<le> 500"
    using first nodes_request_bounds [of param] by simp_all
  note pages = pages_enough [OF q filter_count_small [OF assms(2)]]
  have size: "np_Size (nodes_page W t0 t1 d param 0) = ?n" using first by simp
  have i: "int i * ?n < 2 ^ 62" if "i < k" for i
  proof -
    have "int i \<le> nodesTotalPages (nodes_page W t0 t1 d param 0) - 1" using that assms(3) pages(2) by linarith
    then have "int i * ?n \<le> (nodesTotalPages (nodes_page W t0 t1 d param 0) - 1) * ?n"
      using nodes_request_bounds(2) [of param] by (intro mult_right_mono) simp_all
    then show ?thesis using pages(3) size by simp
  qed
  have "map (\<lambda>i. np_Rows (nodes_page W t0 t1 d param i)) [0..<k] = map (\<lambda>i. take (nat ?n) (drop (i * nat ?n) ?l)) [0..<k]"
    using nodes_page_rows(1) [OF assms(1) i] by simp
  moreover have "length ?l \<le> k * nat ?n" using pages(1) size assms(3) by simp
  ultimately have "concat (map (\<lambda>i. np_Rows (nodes_page W t0 t1 d param i)) [0..<k]) = ?l" by (simp only: chunks_cover take_all)
  moreover have "mset ?l = image_mset scan_node (filter_mset (node_matches W (np_Filter (nodes_request param))) (mset (t_nodes d)))"
    by (simp add: nodes_listing_def nodes_ordered_def)
  moreover have "\<forall>i < k. np_Total (nodes_page W t0 t1 d param i) = int (length ?l) \<and> length (np_Rows (nodes_page W t0 t1 d param i)) \<le> 500"
    using nodes_page_rows(1,2) [OF assms(1) i] nodes_request_bounds(3) [of param] by auto
  ultimately show ?thesis by blast
qed

definition sample_node :: "bytes \<Rightarrow> string \<Rightarrow> bytes \<times> nodes_row" where
  "sample_node key name = (key, \<lparr>n_prefix1 = take 1 key, n_prefix4 = take 4 key, n_node_type = ''CHAT'', n_name = name,
     n_has_lat_lon = False, n_lat_e6 = None, n_lon_e6 = None, n_has_feat1 = False, n_feat1 = None, n_has_feat2 = False, n_feat2 = None,
     n_advert_timestamp = None, n_advert_received_at = None, n_advert_count = 1, n_first_seen = 0, n_last_seen = 0\<rparr>)"

text \<open>Two nodes, one to a page.\<close>

definition node_db :: db where
  "node_db = empty_db\<lparr>t_nodes := [sample_node [2] ''b'', sample_node [1] ''a'']\<rparr>"

definition one_per_page :: "string \<Rightarrow> string" where
  "one_per_page k = (if k = ''size'' then ''1'' else [])"

lemma nodes_pages_cover_witness:
  "concat (map (\<lambda>i. np_Rows (nodes_page sample_web 0 0 node_db one_per_page i))
      [0..<nat (nodesTotalPages (nodes_page sample_web 0 0 node_db one_per_page 0))]) =
    nodes_listing sample_web node_db (nodes_request one_per_page) \<and>
   length (nodes_listing sample_web node_db (nodes_request one_per_page)) = 2"
proof -
  have f: "np_Filter (nodes_request one_per_page) = \<lparr>nf_Q = [], nf_Type = []\<rparr>"
    by (simp add: nodes_request_def one_per_page_def Let_def)
  have e: "TrimSpace [] = []" by (simp add: TrimSpace_def trim_left.simps trim_right.simps)
  have "filter_ok (np_Filter (nodes_request one_per_page))" by (simp add: f filter_ok_def e text_ok_def)
  moreover have "length (t_nodes node_db) = 2" by (simp add: node_db_def)
  moreover have "node_matches sample_web \<lparr>nf_Q = [], nf_Type = []\<rparr> = (\<lambda>x. True)" by (simp add: node_matches_def e fun_eq_iff)
  then have "length (nodes_listing sample_web node_db (nodes_request one_per_page)) = 2"
    by (simp add: length_nodes_listing f node_db_def)
  ultimately show ?thesis using nodes_pages_cover [of one_per_page node_db _ sample_web 0 0] by simp
qed

end
