(* ===== verification/Web_Links.thy ===== *)
theory Web_Links
  imports Web_Nodes Web_Bridge
begin

text \<open>
  The links of the nodes page and the short texts of its cells
  (\<^verbatim>\<open>internal/web/templates/helpers.go\<close>), with the query strings of \<^verbatim>\<open>net/url\<close>.
\<close>

section \<open>Query strings\<close>

text \<open>\<^verbatim>\<open>url.QueryEscape\<close> and \<^verbatim>\<open>url.QueryUnescape\<close>, on bytes; \<open>None\<close> is an escape error.\<close>

definition unreserved :: "char \<Rightarrow> bool" where
  "unreserved c \<longleftrightarrow> (let x = ord_of c :: nat in
     (97 \<le> x \<and> x \<le> 122) \<or> (65 \<le> x \<and> x \<le> 90) \<or> (48 \<le> x \<and> x \<le> 57) \<or> c = CHR ''-'' \<or> c = CHR ''_'' \<or> c = CHR ''.'' \<or> c = CHR 0x7E)"

definition upper_hex :: "nat \<Rightarrow> char" where
  "upper_hex n = chr_of (if n < 10 then 48 + n else 55 + n)"

definition escape_char :: "char \<Rightarrow> string" where
  "escape_char c = (if unreserved c then [c] else if c = CHR '' '' then ''+''
     else [CHR ''%'', upper_hex (ord_of c div 16), upper_hex (ord_of c mod 16)])"

definition QueryEscape :: "string \<Rightarrow> string" where
  "QueryEscape s = concat (map escape_char s)"

fun QueryUnescape :: "string \<Rightarrow> string option" where
  "QueryUnescape [] = Some []"
| "QueryUnescape (c # s) =
     (if c = CHR ''%'' then (case s of
        a # b # r \<Rightarrow> (case (hex_val a, hex_val b) of
            (Some x, Some y) \<Rightarrow> map_option (Cons (chr_of (16 * x + y))) (QueryUnescape r) | _ \<Rightarrow> None)
      | _ \<Rightarrow> None)
      else map_option (Cons (if c = CHR ''+'' then CHR '' '' else c)) (QueryUnescape s))"

type_synonym url_values = "(string \<times> string) list"

fun insert_value :: "string \<times> string \<Rightarrow> url_values \<Rightarrow> url_values" where
  "insert_value x [] = [x]"
| "insert_value x (y # ys) = (if str_less (fst y) (fst x) then y # insert_value x ys else x # y # ys)"

text \<open>\<^verbatim>\<open>Values.Encode\<close>: the pairs in the order of their keys.\<close>

definition encode_values :: "url_values \<Rightarrow> string" where
  "encode_values q = join_on CHR ''&'' (map (\<lambda>(k, v). QueryEscape k @ ''='' @ QueryEscape v) (foldr insert_value q []))"

text \<open>\<^verbatim>\<open>r.URL.Query().Get\<close> of a query string.\<close>

definition cut_at :: "char \<Rightarrow> string \<Rightarrow> string \<times> string" where
  "cut_at c s = (takeWhile (\<lambda>x. x \<noteq> c) s, tl (dropWhile (\<lambda>x. x \<noteq> c) s))"

definition query_pair :: "string \<Rightarrow> (string \<times> string) option" where
  "query_pair p =
     (if CHR '';'' \<in> set p \<or> p = [] then None
      else let (k, v) = cut_at CHR ''='' p in
        (case (QueryUnescape k, QueryUnescape v) of (Some k, Some v) \<Rightarrow> Some (k, v) | _ \<Rightarrow> None))"

definition ParseQuery :: "string \<Rightarrow> url_values" where
  "ParseQuery s = List.map_filter query_pair (split_on CHR ''&'' s)"

definition query_get :: "string \<Rightarrow> string \<Rightarrow> string" where
  "query_get url k = (case map_of (ParseQuery (snd (cut_at CHR ''?'' url))) k of None \<Rightarrow> [] | Some v \<Rightarrow> v)"

section \<open>Links\<close>

definition nodes_values :: "string \<Rightarrow> string \<Rightarrow> NodeFilter \<Rightarrow> int \<Rightarrow> int \<Rightarrow> url_values" where
  "nodes_values srt dir filt page sz =
     (if nf_Q filt \<noteq> [] then [(''q'', nf_Q filt)] else []) @
     (if nf_Type filt \<noteq> [] then [(''type'', nf_Type filt)] else []) @
     (if srt \<noteq> [] then [(''sort'', srt)] else []) @
     (if dir \<noteq> [] then [(''dir'', dir)] else []) @
     (if page > 1 then [(''page'', itoa page)] else []) @
     (if sz > 0 then [(''size'', itoa sz)] else [])"

definition nodesURL :: "string \<Rightarrow> string \<Rightarrow> NodeFilter \<Rightarrow> int \<Rightarrow> int \<Rightarrow> string" where
  "nodesURL srt dir filt page sz =
     (let enc = encode_values (nodes_values srt dir filt page sz)
      in if enc = [] then ''/nodes'' else ''/nodes?'' @ enc)"

definition nodesPageURL :: "NodesPage \<Rightarrow> int \<Rightarrow> string" where
  "nodesPageURL d page = nodesURL (np_Sort d) (np_Dir d) (np_Filter d) page (np_Size d)"

definition nodesSortURL :: "NodesPage \<Rightarrow> string \<Rightarrow> string" where
  "nodesSortURL d col =
     (let dir = (if np_Sort d = col \<and> np_Dir d = ''asc'' then ''desc'' else ''asc'')
      in nodesURL col dir (np_Filter d) 1 (np_Size d))"

section \<open>Texts\<close>

definition em_dash :: string where "em_dash = bytes_str [226, 128, 148]"
definition ellipsis :: string where "ellipsis = bytes_str [226, 128, 166]"

definition HexShort :: "bytes \<Rightarrow> string" where
  "HexShort b =
     (if b = [] then em_dash
      else let n = (if length b > 4 then 4 else length b)
           in concat (map (\<lambda>i. [hex_digit (unat (drop_bit 4 (b ! i))), hex_digit (unat (b ! i AND 15))]) [0..<n]))"

definition nodeDisplayName :: "NodeRow \<Rightarrow> string" where
  "nodeDisplayName n = (if nd_Name n \<noteq> [] then nd_Name n else HexShort (nd_PublicKey n) @ ellipsis)"

definition nodeTypeLabel :: "string \<Rightarrow> string" where
  "nodeTypeLabel t = (if t = [] then ''NONE'' else t)"

definition rssiBadgeClass :: "int \<Rightarrow> string" where
  "rssiBadgeClass rssi = (if rssi \<ge> - 70 then ''mb-rssi-good'' else if rssi \<ge> - 90 then ''mb-rssi-ok'' else ''mb-rssi-bad'')"

definition rem_quot :: "int \<Rightarrow> int \<Rightarrow> int" where
  "rem_quot a b = a - quot a b * b"

text \<open>The duration is \<^verbatim>\<open>time.Since\<close> of the instant; its floats are converted to \<^verbatim>\<open>int\<close>, and division
  truncates.\<close>

definition duration_seconds :: "duration \<Rightarrow> f64" where
  "duration_seconds d = f64_of_int (quot d second) + f64_of_int (d - quot d second * second) / f64_of_int 1000000000"

definition duration_hours :: "duration \<Rightarrow> f64" where
  "duration_hours d = f64_of_int (quot d hour) + f64_of_int (d - quot d hour * hour) / f64_of_int (60 * 60 * 1000000000)"

definition humanAgo :: "duration \<Rightarrow> string" where
  "humanAgo since =
     (let d = (if since < 0 then 0 else since);
          secs = f64_to_int64 (duration_seconds d); mins = f64_to_int64 (duration_minutes d); hours = f64_to_int64 (duration_hours d)
      in if d < minute then itoa secs @ ''s ago''
         else if d < hour then itoa mins @ ''m'' @ itoa (rem_quot secs 60) @ ''s ago''
         else if d < 24 * hour then itoa hours @ ''h'' @ itoa (rem_quot mins 60) @ ''m ago''
         else itoa (quot hours 24) @ ''d'' @ itoa (rem_quot hours 24) @ ''h ago'')"

definition humanDuration :: "int \<Rightarrow> string" where
  "humanDuration secs =
     (if secs < 60 then itoa secs @ ''s''
      else if secs < 3600 then itoa (quot secs 60) @ ''m''
      else if secs < 86400 then itoa (quot secs 3600) @ ''h '' @ itoa (quot (rem_quot secs 3600) 60) @ ''m''
      else itoa (quot secs 86400) @ ''d '' @ itoa (quot (rem_quot secs 86400) 3600) @ ''h'')"

definition shortName :: "string \<Rightarrow> string" where
  "shortName s = (if length s > 20 then take 18 s @ ellipsis else s)"

lemma HexShort_prefix: "b \<noteq> [] \<Longrightarrow> HexShort b = hex_encode (take 4 b)"
proof -
  let ?f = "\<lambda>c :: 8 word. [hex_digit (unat (drop_bit 4 c)), hex_digit (unat (c AND 15))]"
  let ?idx = "[0..<(if length b > 4 then 4 else length b)]"
  assume "b \<noteq> []"
  then have "HexShort b = concat (map ?f (map (\<lambda>i. b ! i) ?idx))" by (simp add: HexShort_def Let_def comp_def)
  also have "map (\<lambda>i. b ! i) ?idx = take 4 b" by (auto simp: map_nth intro: nth_equalityI)
  also have "concat (map ?f (take 4 b)) = hex_encode (take 4 b)" using HexFull_encode [of "take 4 b"] by (simp add: HexFull_def)
  finally show ?thesis .
qed

section \<open>Reading back what was written\<close>

lemma hex_val_upper: "n < 16 \<Longrightarrow> hex_val (upper_hex n) = Some n"
  by (auto simp: hex_val_def upper_hex_def Let_def)

lemma ord_upper_hex: "n < 16 \<Longrightarrow> ord_of (upper_hex n) = (if n < 10 then 48 + n else 55 + n)"
  by (simp add: upper_hex_def)

lemma unescape_escape_char: "QueryUnescape (escape_char c @ s) = map_option (Cons c) (QueryUnescape s)"
proof -
  have "hex_val (upper_hex (ord_of c div 16)) = Some (ord_of c div 16)" "hex_val (upper_hex (ord_of c mod 16)) = Some (ord_of c mod 16)"
    using nat_of_char_less_256 [of c] by (simp_all add: hex_val_upper less_mult_imp_div_less)
  moreover have "chr_of (16 * (ord_of c div 16) + ord_of c mod 16) = c" by simp
  moreover have "c \<noteq> CHR ''%'' \<and> c \<noteq> CHR ''+''" if "unreserved c" using that by (auto simp: unreserved_def Let_def)
  ultimately show ?thesis by (auto simp: escape_char_def)
qed

lemma unescape_escape: "QueryUnescape (QueryEscape s) = Some s"
  by (induction s) (simp_all add: QueryEscape_def unescape_escape_char)

lemma escape_plain: "c \<in> set (QueryEscape s) \<Longrightarrow> c \<notin> {CHR ''&'', CHR ''='', CHR '';'', CHR ''?''}"
proof -
  assume "c \<in> set (QueryEscape s)"
  then obtain d where d: "c \<in> set (escape_char d)" by (auto simp: QueryEscape_def)
  have hex: "upper_hex n \<notin> {CHR ''&'', CHR ''='', CHR '';'', CHR ''?''}" if "n < 16" for n
    using ord_upper_hex [OF that] by (auto simp: ord_eq_iff split: if_splits)
  have "ord_of d div 16 < 16" using nat_of_char_less_256 [of d] by (simp add: less_mult_imp_div_less)
  with d hex [of "ord_of d div 16"] hex [of "ord_of d mod 16"] show ?thesis
    by (auto simp: escape_char_def unreserved_def Let_def split: if_splits)
qed

lemma escape_nonempty: "QueryEscape s = [] \<longleftrightarrow> s = []"
  by (cases s) (simp_all add: QueryEscape_def escape_char_def)

definition pair_text :: "string \<times> string \<Rightarrow> string" where
  "pair_text x = QueryEscape (fst x) @ ''='' @ QueryEscape (snd x)"

lemma cut_at_append: "c \<notin> set p \<Longrightarrow> cut_at c (p @ c # s) = (p, s)"
  by (auto simp: cut_at_def takeWhile_tail dropWhile_append takeWhile_eq_all_conv)

lemma pair_text_plain: "c \<in> set (pair_text x) \<Longrightarrow> c \<notin> {CHR ''&'', CHR '';'', CHR ''?''}"
  using escape_plain by (auto simp: pair_text_def)

lemma query_pair_text: "query_pair (pair_text x) = Some x"
proof -
  have "CHR ''='' \<notin> set (QueryEscape (fst x))" using escape_plain by blast
  then have "cut_at CHR ''='' (pair_text x) = (QueryEscape (fst x), QueryEscape (snd x))"
    using cut_at_append by (simp add: pair_text_def)
  moreover have "CHR '';'' \<notin> set (pair_text x)" using pair_text_plain by blast
  moreover have "pair_text x \<noteq> []" by (simp add: pair_text_def)
  ultimately show ?thesis by (simp add: query_pair_def unescape_escape)
qed

lemma set_insert_values: "set (foldr insert_value q []) = set q"
proof -
  have "set (insert_value x q) = insert x (set q)" for x q by (induction q) auto
  then show ?thesis by (induction q) auto
qed

lemma distinct_insert_values: "distinct (map fst q) \<Longrightarrow> distinct (map fst (foldr insert_value q []))"
proof -
  have i: "fst x \<notin> fst ` set q \<Longrightarrow> distinct (map fst q) \<Longrightarrow> distinct (map fst (insert_value x q))" for x q
  proof (induction q)
    case (Cons y q)
    have "set (insert_value x q) = insert x (set q)" by (induction q) auto
    then show ?case using Cons by auto
  qed simp
  show "distinct (map fst q) \<Longrightarrow> distinct (map fst (foldr insert_value q []))"
  proof (induction q)
    case (Cons x q)
    then show ?case using i [of x "foldr insert_value q []"] set_insert_values [of q] by simp
  qed simp
qed

lemma ParseQuery_encode: "q \<noteq> [] \<Longrightarrow> ParseQuery (encode_values q) = foldr insert_value q []"
proof -
  let ?q = "foldr insert_value q []"
  assume "q \<noteq> []"
  then have "map pair_text ?q \<noteq> []" using set_insert_values [of q] by auto
  then have "split_on CHR ''&'' (join_on CHR ''&'' (map pair_text ?q)) = map pair_text ?q"
    using pair_text_plain by (intro split_join_on) auto
  moreover have "encode_values q = join_on CHR ''&'' (map pair_text ?q)"
    by (simp add: encode_values_def pair_text_def [abs_def] case_prod_unfold)
  moreover have "List.map_filter query_pair (map pair_text xs) = xs" for xs
    by (induction xs) (simp_all add: List.map_filter_simps query_pair_text)
  ultimately show ?thesis by (simp add: ParseQuery_def)
qed

lemma query_get_link:
  assumes "distinct (map fst q)"
  shows "query_get (let enc = encode_values q in if enc = [] then ''/nodes'' else ''/nodes?'' @ enc) k = (case map_of q k of None \<Rightarrow> [] | Some v \<Rightarrow> v)"
proof (cases "q = []")
  case True
  have "ParseQuery [] = []" by (simp add: ParseQuery_def query_pair_def List.map_filter_simps)
  then show ?thesis using True by (simp add: encode_values_def query_get_def cut_at_def)
next
  case False
  then obtain x where "x \<in> set (foldr insert_value q [])" using set_insert_values [of q] by (metis set_empty ex_in_conv)
  then have "encode_values q \<noteq> []" using ParseQuery_encode [OF False] by (auto simp: ParseQuery_def query_pair_def List.map_filter_simps)
  moreover have "cut_at CHR ''?'' (''/nodes?'' @ s) = (''/nodes'', s)" for s using cut_at_append [of "CHR ''?''" "''/nodes''"] by simp
  moreover have "map_of (foldr insert_value q []) = map_of q"
    using assms distinct_insert_values [OF assms] set_insert_values by (metis map_of_inject_set)
  ultimately show ?thesis using ParseQuery_encode [OF False] by (simp add: query_get_def)
qed

lemma nodes_values_keys: "distinct (map fst (nodes_values srt dir filt page sz))"
  by (auto simp: nodes_values_def)

lemma nodes_values_get:
  "map_of (nodes_values srt dir filt page sz) ''q'' = (if nf_Q filt \<noteq> [] then Some (nf_Q filt) else None)"
  "map_of (nodes_values srt dir filt page sz) ''type'' = (if nf_Type filt \<noteq> [] then Some (nf_Type filt) else None)"
  "map_of (nodes_values srt dir filt page sz) ''sort'' = (if srt \<noteq> [] then Some srt else None)"
  "map_of (nodes_values srt dir filt page sz) ''dir'' = (if dir \<noteq> [] then Some dir else None)"
  "map_of (nodes_values srt dir filt page sz) ''page'' = (if page > 1 then Some (itoa page) else None)"
  "map_of (nodes_values srt dir filt page sz) ''size'' = (if sz > 0 then Some (itoa sz) else None)"
  by (simp_all add: nodes_values_def map_of_append map_add_def split: option.splits)

lemma query_get_nodes: "query_get (nodesURL srt dir filt page sz) k =
    (case map_of (nodes_values srt dir filt page sz) k of None \<Rightarrow> [] | Some v \<Rightarrow> v)"
  unfolding nodesURL_def by (rule query_get_link [OF nodes_values_keys])

section \<open>Property\<close>

text \<open>C35 (roundtrip): following a link of the nodes page asks for exactly what the link was made of: the
  filter, whatever characters it has, the order, the page and the page length.\<close>

theorem nodes_link_roundtrip:
  assumes "1 \<le> page" "page < 2 ^ 63" "1 \<le> sz" "sz \<le> 500"
  shows "nodes_request (query_get (nodesURL srt dir filt page sz)) =
    \<lparr>np_Rows = [], np_Filter = filt, np_Sort = srt, np_Dir = dir, np_Page = page, np_Size = sz, np_Total = 0, np_Types = []\<rparr>"
proof -
  have "atoi_or_zero (itoa page) = page" "atoi_or_zero (itoa sz) = sz"
    using assms by (simp_all add: atoi_or_zero_def atoi_itoa)
  moreover have "atoi_or_zero [] = 0" by (simp add: atoi_or_zero_def atoi_def parse_uint_def)
  ultimately show ?thesis using assms
    by (simp add: nodes_request_def query_get_nodes nodes_values_get Let_def)
qed

lemma nodes_link_roundtrip_witness:
  "nodes_request (query_get (nodesURL ''name'' ''asc'' \<lparr>nf_Q = ''a&b=c d'', nf_Type = ''ROOM''\<rparr> 3 50)) =
    \<lparr>np_Rows = [], np_Filter = \<lparr>nf_Q = ''a&b=c d'', nf_Type = ''ROOM''\<rparr>, np_Sort = ''name'', np_Dir = ''asc'', np_Page = 3, np_Size = 50,
     np_Total = 0, np_Types = []\<rparr>"
  by (rule nodes_link_roundtrip) simp_all

end
