(* ===== verification/Web_Topology.thy ===== *)
theory Web_Topology
  imports Web_Pages Web_Links
begin

text \<open>
  The page of a node and the topology (\<^verbatim>\<open>queryNodeDetail\<close> and \<^verbatim>\<open>queryTopology\<close> in
  \<^verbatim>\<open>internal/web/queries.go\<close>) with its layout (\<^verbatim>\<open>internal/web/templates/helpers_topo.go\<close>). The sine
  and cosine of \<^verbatim>\<open>math\<close> are arguments.
\<close>

section \<open>One node\<close>

record NodePacket =
  nk_TS :: time
  nk_Observer :: string
  nk_ObserverID :: bytes
  nk_PacketType :: string
  nk_Route :: string
  nk_RSSI :: "int option"
  nk_SNR :: "f64 option"

record NodeDetail =
  nt_Node :: NodeRow
  nt_RecentPackets :: "NodePacket list"

definition node_packet :: "db \<Rightarrow> packet_row \<Rightarrow> NodePacket" where
  "node_packet d p = \<lparr>nk_TS = po_ts p, nk_Observer = origin_of d (po_observer_id p), nk_ObserverID = po_observer_id p,
     nk_PacketType = po_packet_type p, nk_Route = po_route p, nk_RSSI = po_rssi p, nk_SNR = po_snr p\<rparr>"

definition recent_of_prefix :: "web_env \<Rightarrow> bytes \<Rightarrow> time \<Rightarrow> db \<Rightarrow> NodePacket list" where
  "recent_of_prefix W prefix1 now d = map (node_packet d) (take 100 (newest_first W po_ts
     (filter (\<lambda>p. po_source_prefix p = Some prefix1 \<and> now - 24 * hour \<le> po_ts p) (t_packet_observations d))))"

definition queryNodeDetail :: "web_env \<Rightarrow> bytes \<Rightarrow> (nat \<Rightarrow> view option) \<Rightarrow> NodeDetail option" where
  "queryNodeDetail W pubkey v =
     (case query_row (\<lambda>now d. map scan_node (filter (\<lambda>(k, r). k = pubkey) (t_nodes d))) (v 0) of
        None \<Rightarrow> None
      | Some n \<Rightarrow>
          if pubkey = [] then Some \<lparr>nt_Node = n, nt_RecentPackets = []\<rparr>
          else let prefix1 = take 1 pubkey in
            Some \<lparr>nt_Node = n, nt_RecentPackets = rows_or_none (query_rows (recent_of_prefix W prefix1) (v 1))\<rparr>)"

section \<open>Topology\<close>

record TopoNode =
  tn_ID :: string
  tn_Label :: string
  tn_IsObserver :: bool
  tn_X :: f64
  tn_Y :: f64

record TopoEdge =
  te_From :: string
  te_To :: string
  te_FromX :: f64
  te_FromY :: f64
  te_ToX :: f64
  te_ToY :: f64
  te_Packets :: int
  te_AvgRSSI :: f64

record TopologyData =
  td_Nodes :: "TopoNode list"
  td_Edges :: "TopoEdge list"

definition edgeColor :: "f64 \<Rightarrow> string" where
  "edgeColor rssi = (if rssi \<ge> Fin (- 70) then ''#2fb344'' else if rssi \<ge> Fin (- 90) then ''#f59f00'' else ''#d6336c'')"

definition edgeWidth :: "int \<Rightarrow> f64" where
  "edgeWidth packets =
     (if packets \<le> 1 then rnd (6 / 10)
      else let w = rnd (6 / 10) + rnd (3 / 10) * f64_of_int (wrap64 (packets - 1)) in if w > Fin 5 then Fin 5 else w)"

definition two_pi :: f64 where
  "two_pi = rnd (6283185307179586476925286766559 / 10 ^ 30)"

text \<open>The position of the \<open>k\<close>-th of \<open>n\<close> nodes on the circle of radius \<open>r\<close>.\<close>

definition circle_at :: "(f64 \<Rightarrow> f64) \<Rightarrow> (f64 \<Rightarrow> f64) \<Rightarrow> f64 \<Rightarrow> nat \<Rightarrow> nat \<Rightarrow> f64 \<times> f64" where
  "circle_at cosine sine r n k =
     (let theta = two_pi * f64_of_int (int k) / f64_of_int (int (max 1 n))
      in (Fin 500 + r * cosine theta, Fin 350 + r * sine theta))"

fun place :: "(f64 \<Rightarrow> f64) \<Rightarrow> (f64 \<Rightarrow> f64) \<Rightarrow> f64 \<Rightarrow> nat \<Rightarrow> nat \<Rightarrow> nat list \<Rightarrow> TopoNode list \<Rightarrow> TopoNode list" where
  "place cosine sine r n k [] nodes = nodes"
| "place cosine sine r n k (i # is) nodes =
     (let (x, y) = circle_at cosine sine r n k
      in place cosine sine r n (k + 1) is (nodes[i := (nodes ! i)\<lparr>tn_X := x, tn_Y := y\<rparr>]))"

definition LayoutTopology :: "(f64 \<Rightarrow> f64) \<Rightarrow> (f64 \<Rightarrow> f64) \<Rightarrow> TopoNode list \<Rightarrow> TopoNode list" where
  "LayoutTopology cosine sine nodes =
     (let obs = filter (\<lambda>i. tn_IsObserver (nodes ! i)) [0..<length nodes];
          src = filter (\<lambda>i. \<not> tn_IsObserver (nodes ! i)) [0..<length nodes];
          nodes1 = place cosine sine (Fin 280) (length obs) 0 obs nodes
      in place cosine sine (Fin 140) (length src) 0 src nodes1)"

definition observer_node :: "bytes \<times> observers_row \<Rightarrow> TopoNode" where
  "observer_node x = \<lparr>tn_ID = ''obs:'' @ HexFull (fst x), tn_Label = o_origin_name (snd x), tn_IsObserver = True, tn_X = Fin 0, tn_Y = Fin 0\<rparr>"

definition source_node :: "bytes \<Rightarrow> TopoNode" where
  "source_node sp = \<lparr>tn_ID = ''src:'' @ HexFull sp, tn_Label = HexShort sp, tn_IsObserver = False, tn_X = Fin 0, tn_Y = Fin 0\<rparr>"

definition nrow_pair :: "nrow \<Rightarrow> bytes \<times> bytes" where
  "nrow_pair x = (nrow_observer x, nrow_prefix x)"

definition edge_scan :: "env \<Rightarrow> (bytes \<times> bytes) \<times> nrow list \<Rightarrow> TopoEdge option" where
  "edge_scan E g = (case g of ((obs, sp), rows) \<Rightarrow>
     map_option (\<lambda>rssi. \<lparr>te_From = ''obs:'' @ HexFull obs, te_To = ''src:'' @ HexFull sp, te_FromX = Fin 0, te_FromY = Fin 0,
       te_ToX = Fin 0, te_ToY = Fin 0, te_Packets = sum_list (map (rn_packets \<circ> snd) rows), te_AvgRSSI = rssi\<rparr>)
     (avg_float E (map (rn_avg_rssi \<circ> snd) rows)))"

text \<open>The later node of an id wins in the map of positions.\<close>

definition position_of :: "TopoNode list \<Rightarrow> string \<Rightarrow> (f64 \<times> f64) option" where
  "position_of nodes i = map_of (rev (map (\<lambda>n. (tn_ID n, (tn_X n, tn_Y n))) nodes)) i"

definition resolve_edge :: "TopoNode list \<Rightarrow> TopoEdge \<Rightarrow> TopoEdge" where
  "resolve_edge nodes e =
     (let e1 = (case position_of nodes (te_From e) of None \<Rightarrow> e | Some (x, y) \<Rightarrow> e\<lparr>te_FromX := x, te_FromY := y\<rparr>)
      in case position_of nodes (te_To e) of None \<Rightarrow> e1 | Some (x, y) \<Rightarrow> e1\<lparr>te_ToX := x, te_ToY := y\<rparr>)"

definition queryTopology :: "web_env \<Rightarrow> (f64 \<Rightarrow> f64) \<Rightarrow> (f64 \<Rightarrow> f64) \<Rightarrow> (nat \<Rightarrow> view option) \<Rightarrow> TopologyData option" where
  "queryTopology W cosine sine v =
     (case query_rows (\<lambda>now d. sort_key (\<lambda>(k, r). we_rank W (o_origin_name r)) (scan_order W (t_observers d))) (v 0) of
        None \<Rightarrow> None
      | Some observers \<Rightarrow>
          let sources = rows_or_none (query_rows (\<lambda>now d. scan_order W (remdups (map nrow_prefix (recent_neighbors now d)))) (v 1));
              edges = scan_rows (we_scan_fatal W) (edge_scan (we_env W))
                (rows_or_none (query_rows (\<lambda>now d. scan_order W (groups nrow_pair (recent_neighbors now d))) (v 2)));
              nodes = LayoutTopology cosine sine (map observer_node observers @ map source_node sources)
          in Some \<lparr>td_Nodes = nodes, td_Edges = map (resolve_edge nodes) edges\<rparr>)"

end
