(* ===== verification/Web_Server.thy ===== *)
theory Web_Server
  imports Web_Topology
begin

text \<open>
  The handlers of the web server (\<^verbatim>\<open>internal/web/handlers.go\<close>) and how a stream of events is opened and
  closed (\<^verbatim>\<open>internal/web/server.go\<close>). A handler is given what its queries meet and the parameters of the
  request; its templates are arguments, and so is the order of the router, a third-party package.
\<close>

section \<open>Pages\<close>

text \<open>An answer is the status of \<^verbatim>\<open>http.Error\<close>, or the value a template renders.\<close>

datatype 'a reply = HttpError nat | Rendered 'a

definition overview :: "web_env \<Rightarrow> time \<Rightarrow> (nat \<Rightarrow> view option) \<Rightarrow> OverviewData reply" where
  "overview W gen v = (case queryOverview W gen v of (d, ok) \<Rightarrow> if \<not> ok then HttpError 500 else Rendered d)"

definition observers :: "web_env \<Rightarrow> view option \<Rightarrow> (nat \<Rightarrow> view option) \<Rightarrow> ObserverRow list reply" where
  "observers W v0 v = (case queryObservers W v0 v of None \<Rightarrow> HttpError 500 | Some rows \<Rightarrow> Rendered rows)"

definition observerDetail :: "web_env \<Rightarrow> string \<Rightarrow> (nat \<Rightarrow> view option) \<Rightarrow> ObserverDetail reply" where
  "observerDetail W param v =
     (case observerIDFromURL param of
        None \<Rightarrow> HttpError 400
      | Some i \<Rightarrow> (case queryObserverDetail W i v of None \<Rightarrow> HttpError 500 | Some d \<Rightarrow> Rendered d))"

definition neighbors :: "web_env \<Rightarrow> view option \<Rightarrow> NeighborRow list reply" where
  "neighbors W v = (case queryNeighbors W v of None \<Rightarrow> HttpError 500 | Some rows \<Rightarrow> Rendered rows)"

definition nodes :: "web_env \<Rightarrow> (string \<Rightarrow> string) \<Rightarrow> view option \<Rightarrow> view option \<Rightarrow> NodesPage reply" where
  "nodes W param v0 v1 =
     (case queryNodes W v0 v1 (nodes_request param) of (d, ok) \<Rightarrow> if \<not> ok then HttpError 500 else Rendered d)"

definition nodeDetail :: "web_env \<Rightarrow> string \<Rightarrow> (nat \<Rightarrow> view option) \<Rightarrow> NodeDetail reply" where
  "nodeDetail W param v =
     (let (pubkey, ok) = hex_decode (TrimSpace param) in
      if \<not> ok \<or> pubkey = [] then HttpError 400
      else case queryNodeDetail W pubkey v of None \<Rightarrow> HttpError 404 | Some d \<Rightarrow> Rendered d)"

definition live :: "web_env \<Rightarrow> view option \<Rightarrow> LivePacket list reply" where
  "live W v = (case queryLiveInitial W v 100 of None \<Rightarrow> HttpError 500 | Some rows \<Rightarrow> Rendered rows)"

definition anomalies :: "web_env \<Rightarrow> view option \<Rightarrow> AnomalyRow list reply" where
  "anomalies W v = (case queryAnomalies W v of None \<Rightarrow> HttpError 500 | Some rows \<Rightarrow> Rendered rows)"

definition topology :: "web_env \<Rightarrow> (f64 \<Rightarrow> f64) \<Rightarrow> (f64 \<Rightarrow> f64) \<Rightarrow> (nat \<Rightarrow> view option) \<Rightarrow> TopologyData reply" where
  "topology W cosine sine v = (case queryTopology W cosine sine v of None \<Rightarrow> HttpError 500 | Some d \<Rightarrow> Rendered d)"

text \<open>\<^verbatim>\<open>/readyz\<close>: the answer's status, by whether the database answers.\<close>

definition readyz :: "bool \<Rightarrow> nat" where
  "readyz ping = (if \<not> ping then 503 else 200)"

section \<open>Streams\<close>

text \<open>What \<open>send\<close> of an endpoint writes for one event, the whole page rendered anew.\<close>

definition overview_send :: "web_env \<Rightarrow> (OverviewData \<Rightarrow> string) \<Rightarrow> time \<times> (nat \<Rightarrow> view option) \<Rightarrow> unit \<Rightarrow> string list \<times> unit" where
  "overview_send W render x u =
     (case queryOverview W (fst x) (snd x) of (d, ok) \<Rightarrow> if \<not> ok then ([], u) else ([Patch ''body'' ''outer'' (render d)], u))"

definition anomalies_send :: "web_env \<Rightarrow> (AnomalyRow list \<Rightarrow> string) \<Rightarrow> view option \<Rightarrow> unit \<Rightarrow> string list \<times> unit" where
  "anomalies_send W render v u =
     (case queryAnomalies W v of None \<Rightarrow> ([], u) | Some rows \<Rightarrow> ([Patch ''body'' ''outer'' (render rows)], u))"

definition observer_send ::
  "web_env \<Rightarrow> (ObserverDetail \<Rightarrow> string) \<Rightarrow> bytes \<Rightarrow> (nat \<Rightarrow> view option) \<Rightarrow> unit \<Rightarrow> string list \<times> unit"
where
  "observer_send W render i v u =
     (case queryObserverDetail W i v of None \<Rightarrow> ([], u) | Some d \<Rightarrow> ([Patch ''body'' ''outer'' (render d)], u))"

definition sseOverview :: "web_env \<Rightarrow> (OverviewData \<Rightarrow> string) \<Rightarrow> (time \<times> (nat \<Rightarrow> view option)) sse_choice list \<Rightarrow> string list" where
  "sseOverview W render cs = handleSSE (overview_send W render) cs ()"

definition sseAnomalies :: "web_env \<Rightarrow> (AnomalyRow list \<Rightarrow> string) \<Rightarrow> view option sse_choice list \<Rightarrow> string list" where
  "sseAnomalies W render cs = handleSSE (anomalies_send W render) cs ()"

definition sseObserver ::
  "web_env \<Rightarrow> (ObserverDetail \<Rightarrow> string) \<Rightarrow> string \<Rightarrow> (nat \<Rightarrow> view option) sse_choice list \<Rightarrow> string list reply"
where
  "sseObserver W render param cs =
     (case observerIDFromURL param of
        None \<Rightarrow> HttpError 400
      | Some i \<Rightarrow> Rendered (handleSSE (observer_send W render i) cs ()))"

text \<open>
  The start of \<^verbatim>\<open>handleSSE\<close>: a writer that cannot flush is an error, before anything is subscribed. Its
  end is the deferred \<^verbatim>\<open>unsubscribe\<close>.
\<close>

definition NewDatastarWriter :: "bool \<Rightarrow> (string \<times> string) list option" where
  "NewDatastarWriter flusher =
     (if \<not> flusher then None
      else Some [(''Content-Type'', ''text/event-stream''), (''Cache-Control'', ''no-cache''),
        (''Connection'', ''keep-alive''), (''X-Accel-Buffering'', ''no'')])"

definition open_stream :: "bool \<Rightarrow> string list \<Rightarrow> 'p Hub \<Rightarrow> (nat \<times> 64 word) reply \<times> 'p Hub" where
  "open_stream flusher topics h =
     (case NewDatastarWriter flusher of
        None \<Rightarrow> (HttpError 500, h)
      | Some headers \<Rightarrow> (let (x, h') = Subscribe 64 topics h in (Rendered x, h')))"

definition close_stream :: "string list \<Rightarrow> nat \<times> 64 word \<Rightarrow> 'p Hub \<Rightarrow> 'p Hub option" where
  "close_stream topics x h = close_chan (fst x) (unsubscribe_locked (snd x) topics h)"

end
