(* ===== verification/Config.thy ===== *)
theory Config
  imports Event_Decoder
begin

text \<open>
  The configuration of the services (\<^verbatim>\<open>internal/config/config.go\<close>). The process environment is a
  function from names to values, empty where a variable is unset, as \<^verbatim>\<open>os.Getenv\<close> has it; the files
  are a partial function from paths to contents; the upper case of a text that is not ASCII, which
  depends on the Unicode tables, is an argument.
\<close>

section \<open>Model\<close>

record Broker =
  br_Name :: string
  br_URL :: string
  br_Username :: string
  br_Password :: string
  br_TopicPrefix :: string

datatype level = LevelDebug | LevelInfo | LevelWarn | LevelError

record Config =
  cf_LogLevel :: level
  cf_DatabaseURL :: string
  cf_IngestDatabaseURL :: string
  cf_Brokers :: "Broker list"
  cf_HTTPAddr :: string

datatype config_err = DatabaseURLRequired | BrokersJSON | BrokersRead string | BrokersConfig string | NoBrokers

record os =
  os_Getenv :: "string \<Rightarrow> string"
  os_ReadFile :: "string \<Rightarrow> string option"
  unicode_upper :: "string \<Rightarrow> string"

definition envDefault :: "os \<Rightarrow> string \<Rightarrow> string \<Rightarrow> string" where
  "envDefault E k d = (if os_Getenv E k \<noteq> [] then os_Getenv E k else d)"

definition parseLevel :: "string \<Rightarrow> level" where
  "parseLevel s = (let l = to_lower s in
     if l = ''debug'' then LevelDebug
     else if l = ''warn'' \<or> l = ''warning'' then LevelWarn
     else if l = ''error'' then LevelError
     else LevelInfo)"

definition loadCommon :: "os \<Rightarrow> Config" where
  "loadCommon E = \<lparr>cf_LogLevel = parseLevel (envDefault E ''MESHBUG_LOG_LEVEL'' ''info''), cf_DatabaseURL = [],
     cf_IngestDatabaseURL = [], cf_Brokers = [], cf_HTTPAddr = []\<rparr>"

definition loadDatabase :: "os \<Rightarrow> Config \<Rightarrow> config_err + Config" where
  "loadDatabase E c =
     (let u = os_Getenv E ''MESHBUG_DATABASE_URL''; i = os_Getenv E ''MESHBUG_INGEST_DATABASE_URL'' in
      if u = [] then Inl DatabaseURLRequired
      else Inr (c\<lparr>cf_DatabaseURL := u, cf_IngestDatabaseURL := if i = [] then u else i\<rparr>))"

subsection \<open>The brokers\<close>

definition no_broker :: Broker where
  "no_broker = \<lparr>br_Name = [], br_URL = [], br_Username = [], br_Password = [], br_TopicPrefix = []\<rparr>"

definition set_broker :: "string \<Rightarrow> string \<Rightarrow> json \<Rightarrow> Broker \<Rightarrow> Broker option" where
  "set_broker k txt v b =
     (if field_matches ''name'' k then map_option (\<lambda>x. b\<lparr>br_Name := x\<rparr>) (set_text v (br_Name b))
      else if field_matches ''url'' k then map_option (\<lambda>x. b\<lparr>br_URL := x\<rparr>) (set_text v (br_URL b))
      else if field_matches ''username'' k then map_option (\<lambda>x. b\<lparr>br_Username := x\<rparr>) (set_text v (br_Username b))
      else if field_matches ''password'' k then map_option (\<lambda>x. b\<lparr>br_Password := x\<rparr>) (set_text v (br_Password b))
      else if field_matches ''topicPrefix'' k then map_option (\<lambda>x. b\<lparr>br_TopicPrefix := x\<rparr>) (set_text v (br_TopicPrefix b))
      else Some b)"

fun those_brokers :: "json list \<Rightarrow> Broker list option" where
  "those_brokers [] = Some []"
| "those_brokers (v # vs) =
     (case (case v of JNull \<Rightarrow> Some no_broker | JObj ms \<Rightarrow> set_members set_broker ms no_broker | _ \<Rightarrow> None) of
        None \<Rightarrow> None
      | Some b \<Rightarrow> map_option (Cons b) (those_brokers vs))"

definition unmarshal_brokers :: "string \<Rightarrow> Broker list option" where
  "unmarshal_brokers raw = (case parse_document raw of
     Some JNull \<Rightarrow> Some []
   | Some (JArr vs) \<Rightarrow> those_brokers vs
   | _ \<Rightarrow> None)"

text \<open>\<^verbatim>\<open>strings.ToUpper(strings.ReplaceAll(name, "-", "_"))\<close>.\<close>

definition upper :: "char \<Rightarrow> char" where
  "upper c = (if 97 \<le> ord_of c \<and> ord_of c \<le> 122 then chr_of (ord_of c - 32) else c)"

definition env_key :: "os \<Rightarrow> string \<Rightarrow> string" where
  "env_key E name =
     (let s = map (\<lambda>c. if c = CHR ''-'' then CHR ''_'' else c) name
      in if list_all (\<lambda>c. ord_of c < 128) s then map upper s else unicode_upper E s)"

definition broker_secrets :: "os \<Rightarrow> Broker \<Rightarrow> Broker" where
  "broker_secrets E b =
     (let u = os_Getenv E (''MESHBUG_BROKER_'' @ env_key E (br_Name b) @ ''_USERNAME'');
          p = os_Getenv E (''MESHBUG_BROKER_'' @ env_key E (br_Name b) @ ''_PASSWORD'');
          b1 = (if u \<noteq> [] then b\<lparr>br_Username := u\<rparr> else b)
      in if p \<noteq> [] then b1\<lparr>br_Password := p\<rparr> else b1)"

definition configured_brokers :: "os \<Rightarrow> config_err + Broker list" where
  "configured_brokers E =
     (let raw = os_Getenv E ''MESHBUG_BROKERS_JSON''; path = os_Getenv E ''MESHBUG_BROKERS_CONFIG'' in
      if raw \<noteq> [] then (case unmarshal_brokers raw of None \<Rightarrow> Inl BrokersJSON | Some bs \<Rightarrow> Inr bs)
      else if path \<noteq> [] then
        (case os_ReadFile E path of
           None \<Rightarrow> Inl (BrokersRead path)
         | Some raw \<Rightarrow> (case unmarshal_brokers raw of
             None \<Rightarrow> Inl (BrokersConfig path)
           | Some bs \<Rightarrow> Inr (map (broker_secrets E) bs)))
      else Inr [])"

definition dev_broker :: "os \<Rightarrow> Broker list" where
  "dev_broker E =
     (let url = os_Getenv E ''MQTT_BROKER'' in
      if url \<noteq> [] then [\<lparr>br_Name = ''default'', br_URL = url, br_Username = os_Getenv E ''MQTT_USER'',
        br_Password = os_Getenv E ''MQTT_PASSWORD'', br_TopicPrefix = ''meshcore/''\<rparr>]
      else [])"

definition complete_prefix :: "Broker \<Rightarrow> Broker" where
  "complete_prefix b =
     (let b1 = (if br_TopicPrefix b = [] then b\<lparr>br_TopicPrefix := ''meshcore/''\<rparr> else b)
      in if has_suffix (br_TopicPrefix b1) ''/'' then b1 else b1\<lparr>br_TopicPrefix := br_TopicPrefix b1 @ ''/''\<rparr>)"

definition loadBrokers :: "os \<Rightarrow> Config \<Rightarrow> config_err + Config" where
  "loadBrokers E c =
     (case configured_brokers E of
        Inl e \<Rightarrow> Inl e
      | Inr bs \<Rightarrow> let bs' = (if bs = [] then dev_broker E else bs)
                 in Inr (c\<lparr>cf_Brokers := map complete_prefix bs'\<rparr>))"

definition loadWeb :: "os \<Rightarrow> Config \<Rightarrow> Config" where
  "loadWeb E c = c\<lparr>cf_HTTPAddr := envDefault E ''MESHBUG_HTTP_ADDR'' '':8080''\<rparr>"

subsection \<open>One loader per service\<close>

definition LoadMigrate :: "os \<Rightarrow> config_err + Config" where
  "LoadMigrate E = loadDatabase E (loadCommon E)"

definition LoadIngest :: "os \<Rightarrow> config_err + Config" where
  "LoadIngest E =
     (case loadDatabase E (loadCommon E) of
        Inl e \<Rightarrow> Inl e
      | Inr c \<Rightarrow> (case loadBrokers E c of
          Inl e \<Rightarrow> Inl e
        | Inr c \<Rightarrow> if cf_Brokers c = [] then Inl NoBrokers else Inr c))"

definition LoadProject :: "os \<Rightarrow> config_err + Config" where
  "LoadProject E = loadDatabase E (loadCommon E)"

definition LoadWeb :: "os \<Rightarrow> config_err + Config" where
  "LoadWeb E = map_sum id (loadWeb E) (loadDatabase E (loadCommon E))"

section \<open>What a configuration promises\<close>

text \<open>
  The clean prefix of a broker: \<^verbatim>\<open>meshcore/\<close> where none is given, and a slash at the end, so that the
  topic filters appended to it start a level of their own.
\<close>

definition broker_ok :: "Broker \<Rightarrow> bool" where
  "broker_ok b \<longleftrightarrow> br_TopicPrefix b \<noteq> [] \<and> last (br_TopicPrefix b) = CHR ''/''"

lemma has_suffix_slash: "has_suffix s ''/'' \<longleftrightarrow> s \<noteq> [] \<and> last s = CHR ''/''"
proof (cases s rule: rev_cases)
  case (snoc t c)
  then show ?thesis by (simp add: has_suffix_def)
qed (simp add: has_suffix_def)

lemma complete_prefix_ok: "broker_ok (complete_prefix b)"
  by (simp add: complete_prefix_def broker_ok_def Let_def has_suffix_slash)

lemma complete_prefix_id: "broker_ok b \<Longrightarrow> complete_prefix b = b"
  by (simp add: complete_prefix_def broker_ok_def has_suffix_slash)

lemma loadDatabase_cases:
  "loadDatabase E c = (if os_Getenv E ''MESHBUG_DATABASE_URL'' = [] then Inl DatabaseURLRequired
     else Inr (c\<lparr>cf_DatabaseURL := os_Getenv E ''MESHBUG_DATABASE_URL'', cf_IngestDatabaseURL :=
       if os_Getenv E ''MESHBUG_INGEST_DATABASE_URL'' = [] then os_Getenv E ''MESHBUG_DATABASE_URL''
       else os_Getenv E ''MESHBUG_INGEST_DATABASE_URL''\<rparr>))"
  by (simp add: loadDatabase_def Let_def)

section \<open>Properties\<close>

text \<open>C28 (error): the ingest service gets a configuration exactly when the database address is set, the
  configured brokers can be read, and there is one, by the configuration or by the fallback for
  development; the configuration then has both addresses, and every broker a topic prefix that ends
  in a slash.\<close>

theorem LoadIngest_complete:
  "case LoadIngest E of
     Inl e \<Rightarrow> os_Getenv E ''MESHBUG_DATABASE_URL'' = [] \<and> e = DatabaseURLRequired \<or> configured_brokers E = Inl e \<or>
       configured_brokers E = Inr [] \<and> os_Getenv E ''MQTT_BROKER'' = [] \<and> e = NoBrokers
   | Inr c \<Rightarrow> cf_DatabaseURL c = os_Getenv E ''MESHBUG_DATABASE_URL'' \<and> cf_DatabaseURL c \<noteq> [] \<and> cf_IngestDatabaseURL c \<noteq> [] \<and>
       cf_Brokers c \<noteq> [] \<and> list_all broker_ok (cf_Brokers c) \<and>
       (\<exists>bs. configured_brokers E = Inr bs \<and> map br_URL (cf_Brokers c) = (if bs = [] then [os_Getenv E ''MQTT_BROKER''] else map br_URL bs))"
proof -
  have url: "br_URL (complete_prefix b) = br_URL b" for b by (simp add: complete_prefix_def Let_def)
  show ?thesis
  proof (cases "os_Getenv E ''MESHBUG_DATABASE_URL'' = []")
    case True
    then show ?thesis by (simp add: LoadIngest_def loadDatabase_cases)
  next
    case False
    obtain c0 where c0: "loadDatabase E (loadCommon E) = Inr c0" "cf_DatabaseURL c0 = os_Getenv E ''MESHBUG_DATABASE_URL''"
      "cf_IngestDatabaseURL c0 \<noteq> []"
      using False by (simp add: loadDatabase_cases)
    show ?thesis
    proof (cases "configured_brokers E")
      case (Inl e)
      then show ?thesis by (simp add: LoadIngest_def c0(1) loadBrokers_def)
    next
      case (Inr bs)
      let ?bs = "if bs = [] then dev_broker E else bs"
      have "LoadIngest E = (if ?bs = [] then Inl NoBrokers else Inr (c0\<lparr>cf_Brokers := map complete_prefix ?bs\<rparr>))"
        by (simp add: LoadIngest_def c0(1) loadBrokers_def Inr Let_def)
      moreover have "?bs = [] \<longleftrightarrow> bs = [] \<and> os_Getenv E ''MQTT_BROKER'' = []" by (simp add: dev_broker_def Let_def)
      moreover have "map br_URL (map complete_prefix ?bs) = map br_URL ?bs" by (simp add: url)
      moreover have "map br_URL (dev_broker E) = [os_Getenv E ''MQTT_BROKER'']" if "dev_broker E \<noteq> []"
        using that by (auto simp: dev_broker_def Let_def split: if_splits)
      ultimately show ?thesis using c0 False Inr by (cases "bs = []") (simp_all add: list_all_iff complete_prefix_ok del: map_map)
    qed
  qed
qed

lemma LoadIngest_complete_witness:
  "case LoadIngest \<lparr>os_Getenv = (\<lambda>k. if k = ''MESHBUG_DATABASE_URL'' then ''db'' else if k = ''MQTT_BROKER'' then ''tcp'' else []),
      os_ReadFile = (\<lambda>p. None), unicode_upper = (\<lambda>s. s)\<rparr> of Inl e \<Rightarrow> False | Inr c \<Rightarrow> map br_URL (cf_Brokers c) = [''tcp'']"
proof -
  let ?E = "\<lparr>os_Getenv = (\<lambda>k. if k = ''MESHBUG_DATABASE_URL'' then ''db'' else if k = ''MQTT_BROKER'' then ''tcp'' else []),
      os_ReadFile = (\<lambda>p. None), unicode_upper = (\<lambda>s. s)\<rparr>"
  have "configured_brokers ?E = Inr []" by (simp add: configured_brokers_def)
  then show ?thesis using LoadIngest_complete [of ?E] by (auto split: sum.splits)
qed

end
