(* ===== verification/MQTT_Client.thy ===== *)
theory MQTT_Client
  imports Config
begin

text \<open>
  The MQTT client of the ingest service (\<^verbatim>\<open>internal/mqtt/mqtt.go\<close>): the options it connects to a
  broker with, the topic filters it subscribes to, and the callback that forwards a message. The
  library paho and the broker are not modelled; that a broker delivers on a subscription only topics
  the filter matches is stated with \<open>topic_matches\<close>.
\<close>

section \<open>Model\<close>

record mqtt_Message =
  mm_Broker :: string
  mm_Topic :: string
  mm_Payload :: string
  mm_ReceivedAt :: time

record Manager =
  mg_brokers :: "Broker list"
  mg_cap :: nat
  mg_out :: "mqtt_Message list"

definition NewManager :: "Broker list \<Rightarrow> Manager" where
  "NewManager brokers = \<lparr>mg_brokers = brokers, mg_cap = 1024, mg_out = []\<rparr>"

record client_options =
  co_Server :: string
  co_ClientID :: string
  co_Username :: string
  co_Password :: string
  co_CleanSession :: bool
  co_AutoReconnect :: bool
  co_ConnectRetry :: bool
  co_ConnectRetryInterval :: duration
  co_MaxReconnectInterval :: duration
  co_KeepAlive :: duration
  co_MinTLS12 :: bool

definition isTLS :: "string \<Rightarrow> bool" where
  "isTLS url \<longleftrightarrow> has_prefix url ''wss://'' \<or> has_prefix url ''ssl://'' \<or> has_prefix url ''tls://'' \<or> has_prefix url ''mqtts://''"

text \<open>The options of the client for a broker, made at the instant \<open>nanos\<close>.\<close>

definition client_of :: "int \<Rightarrow> Broker \<Rightarrow> client_options" where
  "client_of nanos b = \<lparr>co_Server = br_URL b, co_ClientID = ''meshbug-'' @ br_Name b @ ''-'' @ itoa nanos,
     co_Username = br_Username b, co_Password = br_Password b, co_CleanSession = True, co_AutoReconnect = True,
     co_ConnectRetry = True, co_ConnectRetryInterval = 5 * second, co_MaxReconnectInterval = 60 * second,
     co_KeepAlive = 30 * second, co_MinTLS12 = isTLS (br_URL b)\<rparr>"

definition subscriptions :: "Broker \<Rightarrow> string list" where
  "subscriptions b = map (\<lambda>suffix. br_TopicPrefix b @ suffix) [''+/+/status'', ''+/+/packets'']"

text \<open>
  The callback of a subscription: the send proceeds when the channel has room; when the context is
  done it may give up instead; \<open>None\<close> while it waits.
\<close>

definition forward :: "bool \<Rightarrow> bool \<Rightarrow> Broker \<Rightarrow> string \<Rightarrow> string \<Rightarrow> time \<Rightarrow> Manager \<Rightarrow> Manager option" where
  "forward ctx_done give_up b topic payload received m =
     (if ctx_done \<and> (give_up \<or> mg_cap m \<le> length (mg_out m)) then Some m
      else if length (mg_out m) < mg_cap m then
        Some (m\<lparr>mg_out := mg_out m @ [\<lparr>mm_Broker = br_Name b, mm_Topic = topic, mm_Payload = payload, mm_ReceivedAt = received\<rparr>]\<rparr>)
      else None)"

section \<open>Topic filters\<close>

fun levels_match :: "string list \<Rightarrow> string list \<Rightarrow> bool" where
  "levels_match [] [] = True"
| "levels_match (f # fs) (l # ls) \<longleftrightarrow> (f = ''+'' \<or> f = l) \<and> levels_match fs ls"
| "levels_match _ _ = False"

definition topic_matches :: "string \<Rightarrow> string \<Rightarrow> bool" where
  "topic_matches filt topic \<longleftrightarrow> levels_match (split_on CHR ''/'' filt) (split_on CHR ''/'' topic)"

text \<open>A prefix of plain levels, each followed by a slash.\<close>

definition plain_prefix :: "string list \<Rightarrow> string" where
  "plain_prefix ps = concat (map (\<lambda>p. p @ ''/'') ps)"

lemma split_plain_prefix:
  "\<forall>p \<in> set ps. CHR ''/'' \<notin> set p \<Longrightarrow> split_on CHR ''/'' (plain_prefix ps @ s) = ps @ split_on CHR ''/'' s"
  by (induction ps) (simp_all add: plain_prefix_def split_on_append)

lemma levels_match_append:
  "\<forall>p \<in> set ps. p \<noteq> ''+'' \<Longrightarrow> levels_match (ps @ fs) ls \<longleftrightarrow> (\<exists>ls'. ls = ps @ ls' \<and> levels_match fs ls')"
proof (induction ps arbitrary: ls)
  case (Cons p ps)
  then show ?case by (cases ls) auto
qed simp

lemma split_suffixes:
  "split_on CHR ''/'' ''+/+/status'' = [''+'', ''+'', ''status'']" "split_on CHR ''/'' ''+/+/packets'' = [''+'', ''+'', ''packets'']"
  by simp_all

lemma levels_match_pattern: "k \<noteq> ''+'' \<Longrightarrow> levels_match [''+'', ''+'', k] ls \<longleftrightarrow> (\<exists>r h. ls = [r, h, k])"
  by (cases ls; cases "tl ls"; cases "tl (tl ls)"; cases "tl (tl (tl ls))") auto

lemma subscribed_levels:
  assumes "br_TopicPrefix b = plain_prefix ps" "\<forall>p \<in> set ps. CHR ''/'' \<notin> set p \<and> p \<noteq> ''+''"
    "f \<in> set (subscriptions b)" "topic_matches f topic"
  obtains r h k where "split_on CHR ''/'' topic = ps @ [r, h, k]" "k \<in> {''status'', ''packets''}"
proof -
  obtain k where k: "k \<in> {''status'', ''packets''}" "f = plain_prefix ps @ ''+/+/'' @ k"
    using assms(1,3) by (auto simp: subscriptions_def)
  have "split_on CHR ''/'' (''+/+/'' @ k) = [''+'', ''+'', k]" using k(1) split_suffixes by auto
  then have "split_on CHR ''/'' f = ps @ [''+'', ''+'', k]" using assms(2) unfolding k(2) by (simp add: split_plain_prefix)
  then obtain r h where "split_on CHR ''/'' topic = ps @ [r, h, k]"
    using assms(2,4) k(1) levels_match_pattern [of k] by (auto simp: topic_matches_def levels_match_append)
  then show thesis using that k(1) by blast
qed

section \<open>Properties\<close>

definition observer_segment :: "string \<Rightarrow> bool" where
  "observer_segment h \<longleftrightarrow> snd (hex_decode h) \<and> length (fst (hex_decode h)) = 32"

lemma parse_levels:
  "split_on CHR ''/'' (trim_prefix topic prefix) = [r, h, k] \<Longrightarrow>
    parseTopicHash prefix topic = (if observer_segment h then Some (fst (hex_decode h), r, k) else None)"
  by (cases "hex_decode h") (simp add: parseTopicHash_def observer_segment_def Let_def)

lemma default_prefix: "''meshcore/'' = plain_prefix [''meshcore'']"
  by (simp add: plain_prefix_def)

text \<open>C29 (functional): under the default prefix every topic the subscriptions deliver has a region, an
  observer and a kind, which is status or packets, and the decoder reads exactly these three, unless
  the observer is not a 32-byte key in hex.\<close>

theorem subscribed_topics_decode:
  assumes "br_TopicPrefix b = ''meshcore/''" "f \<in> set (subscriptions b)" "topic_matches f topic"
  shows "\<exists>r h k. topic = ''meshcore/'' @ join_on CHR ''/'' [r, h, k] \<and> k \<in> {''status'', ''packets''} \<and>
    parseTopicHash ''meshcore/'' topic = (if observer_segment h then Some (fst (hex_decode h), r, k) else None)"
proof -
  obtain r h k where t: "split_on CHR ''/'' topic = [''meshcore''] @ [r, h, k]" and k: "k \<in> {''status'', ''packets''}"
    by (rule subscribed_levels [OF assms(1) [unfolded default_prefix] _ assms(2,3)]) auto
  have topic: "topic = ''meshcore/'' @ join_on CHR ''/'' [r, h, k]"
    using arg_cong [OF t, of "join_on CHR ''/''"] by (simp add: join_split_on)
  have "split_on CHR ''/'' (''meshcore/'' @ join_on CHR ''/'' [r, h, k]) = ''meshcore'' # split_on CHR ''/'' (join_on CHR ''/'' [r, h, k])"
    using split_on_append [of "CHR ''/''" "''meshcore''"] by simp
  then have "''meshcore'' # split_on CHR ''/'' (join_on CHR ''/'' [r, h, k]) = [''meshcore''] @ [r, h, k]"
    using t topic by metis
  then have "split_on CHR ''/'' (join_on CHR ''/'' [r, h, k]) = [r, h, k]"
    by (simp only: append_Cons append_Nil list.inject)
  then have "split_on CHR ''/'' (trim_prefix topic ''meshcore/'') = [r, h, k]"
    unfolding topic trim_prefix_append .
  then have "parseTopicHash ''meshcore/'' topic = (if observer_segment h then Some (fst (hex_decode h), r, k) else None)"
    by (rule parse_levels)
  then show ?thesis using topic k by blast
qed

text \<open>C30 (error): a broker may be configured with another prefix of one level; then the decoder, which
  knows only the default prefix, takes the region for the observer and drops every message of that
  broker, unless the region happens to be a 32-byte key.\<close>

theorem other_prefix_dropped:
  assumes "br_TopicPrefix b = q @ ''/''" "CHR ''/'' \<notin> set q" "q \<noteq> ''+''" "q \<noteq> ''meshcore''"
    "f \<in> set (subscriptions b)" "topic_matches f (re_Topic raw)"
    "\<not> observer_segment (split_on CHR ''/'' (re_Topic raw) ! 1)"
  shows "Decode mc raw = None"
proof -
  have "br_TopicPrefix b = plain_prefix [q]" using assms(1) by (simp add: plain_prefix_def)
  then obtain r h k where t: "split_on CHR ''/'' (re_Topic raw) = [q] @ [r, h, k]"
    by (rule subscribed_levels [OF _ _ assms(5,6)]) (use assms(2,3) in auto)
  have "\<not> has_prefix (re_Topic raw) ''meshcore/''"
  proof
    assume "has_prefix (re_Topic raw) ''meshcore/''"
    then have "re_Topic raw = ''meshcore/'' @ drop (length ''meshcore/'') (re_Topic raw)"
      by (metis has_prefix_def append_take_drop_id)
    then obtain s where s: "re_Topic raw = ''meshcore'' @ CHR ''/'' # s" by simp
    have "split_on CHR ''/'' (re_Topic raw) = ''meshcore'' # split_on CHR ''/'' s"
      unfolding s by (rule split_on_append) simp
    then show False using t assms(4) by simp
  qed
  then have "split_on CHR ''/'' (trim_prefix (re_Topic raw) ''meshcore/'') = [q, r, h, k]"
    using t by (simp add: trim_prefix_def)
  moreover have "\<not> observer_segment r" using assms(7) t by simp
  ultimately have "parseTopicHash ''meshcore/'' (re_Topic raw) = None"
    by (cases "hex_decode r") (simp add: parseTopicHash_def observer_segment_def Let_def)
  then show ?thesis by (simp add: Decode_def)
qed

definition sample_broker :: "string \<Rightarrow> Broker" where
  "sample_broker prefix = no_broker\<lparr>br_TopicPrefix := prefix\<rparr>"

lemma subscribed_topics_decode_witness:
  "\<exists>r h k. sample_topic ''status'' = ''meshcore/'' @ join_on CHR ''/'' [r, h, k] \<and> k \<in> {''status'', ''packets''} \<and>
    parseTopicHash ''meshcore/'' (sample_topic ''status'') = (if observer_segment h then Some (fst (hex_decode h), r, k) else None)"
proof (rule subscribed_topics_decode)
  show "br_TopicPrefix (sample_broker ''meshcore/'') = ''meshcore/''" by (simp add: sample_broker_def)
  show "''meshcore/+/+/status'' \<in> set (subscriptions (sample_broker ''meshcore/''))"
    by (simp add: sample_broker_def subscriptions_def)
  show "topic_matches ''meshcore/+/+/status'' (sample_topic ''status'')" by code_simp
qed

lemma other_prefix_dropped_witness:
  "Decode sample_mc (status_raw\<lparr>re_Topic := ''mesh/BUF/'' @ replicate 64 CHR ''0'' @ ''/status''\<rparr>) = None"
proof (rule other_prefix_dropped)
  show "br_TopicPrefix (sample_broker ''mesh/'') = ''mesh'' @ ''/''" by (simp add: sample_broker_def)
  show "''mesh/+/+/status'' \<in> set (subscriptions (sample_broker ''mesh/''))"
    by (simp add: sample_broker_def subscriptions_def)
  show "topic_matches ''mesh/+/+/status'' (re_Topic (status_raw\<lparr>re_Topic := ''mesh/BUF/'' @ replicate 64 CHR ''0'' @ ''/status''\<rparr>))"
    "\<not> observer_segment (split_on CHR ''/'' (re_Topic (status_raw\<lparr>re_Topic := ''mesh/BUF/'' @ replicate 64 CHR ''0'' @ ''/status''\<rparr>)) ! 1)"
    by code_simp+
qed simp_all

end
