(* ===== verification/Ingest.thy ===== *)
theory Ingest
  imports MQTT_Client Notify Raw_Log
begin

text \<open>
  The ingest service (\<^verbatim>\<open>internal/ingest/ingest.go\<close>): messages of the MQTT client are gathered in a batch
  that is appended to the raw log when it is full, when the timer fires and at the end. An execution
  is the sequence of choices of the \<^verbatim>\<open>select\<close>, each with what the database does to the write
  that follows from it; the reset of the timer after a full batch, which only delays the next tick,
  is left to that sequence.
\<close>

section \<open>Model\<close>

definition NotifyChannel :: string where
  "NotifyChannel = ''meshbug_raw''"

definition ingest_batchSize :: nat where "ingest_batchSize = 500"

record Ingester =
  ig_batch :: "mqtt_Message list"
  ig_log :: raw_store
  ig_pool :: pool

datatype choice = CtxDone | Tick | Received mqtt_Message | InClosed

datatype run_end = CtxErr | NoErr

text \<open>Whether the query for the ids and the copy would succeed.\<close>

record db_write =
  wr_alloc :: bool
  wr_copy :: bool

definition raw_input :: "mqtt_Message \<Rightarrow> RawEventInput" where
  "raw_input m = \<lparr>ri_Broker = mm_Broker m, ri_Topic = mm_Topic m, ri_Payload = mm_Payload m, ri_ReceivedAt = mm_ReceivedAt m\<rparr>"

definition flush :: "db_write \<Rightarrow> Ingester \<Rightarrow> Ingester" where
  "flush w s =
     (if ig_batch s = [] then s
      else let (l, r) = InsertRawEvents (wr_alloc w) (wr_copy w) (map raw_input (ig_batch s)) (ig_log s);
               pl = (case r of
                   Inl e \<Rightarrow> ig_pool s
                 | Inr n \<Rightarrow> if n > 0 then snd (Publish NotifyChannel [(''count'', PInt n)] (ig_pool s)) else ig_pool s)
           in \<lparr>ig_batch = [], ig_log = l, ig_pool = pl\<rparr>)"

definition receive_message :: "mqtt_Message \<Rightarrow> db_write \<Rightarrow> Ingester \<Rightarrow> Ingester" where
  "receive_message m w s =
     (let s1 = s\<lparr>ig_batch := ig_batch s @ [m]\<rparr>
      in if length (ig_batch s1) \<ge> ingest_batchSize then flush w s1 else s1)"

text \<open>\<open>None\<close> while the loop goes on.\<close>

fun Ingest_Run :: "(choice \<times> db_write) list \<Rightarrow> Ingester \<Rightarrow> Ingester \<times> run_end option" where
  "Ingest_Run [] s = (s, None)"
| "Ingest_Run ((c, w) # cs) s =
     (case c of
        CtxDone \<Rightarrow> (flush w s, Some CtxErr)
      | Tick \<Rightarrow> Ingest_Run cs (flush w s)
      | Received m \<Rightarrow> Ingest_Run cs (receive_message m w s)
      | InClosed \<Rightarrow> (flush w s, Some NoErr))"

section \<open>What an execution captures\<close>

text \<open>The messages an execution has received by its end.\<close>

fun received :: "(choice \<times> db_write) list \<Rightarrow> mqtt_Message list" where
  "received [] = []"
| "received ((c, w) # cs) =
     (case c of CtxDone \<Rightarrow> [] | InClosed \<Rightarrow> [] | Tick \<Rightarrow> received cs | Received m \<Rightarrow> m # received cs)"

definition input_of :: "RawEvent \<Rightarrow> RawEventInput" where
  "input_of e = \<lparr>ri_Broker = re_Broker e, ri_Topic = re_Topic e, ri_Payload = re_Payload e, ri_ReceivedAt = re_ReceivedAt e\<rparr>"

text \<open>A batch and whether it was written; what the written ones leave in the log and on the channel.\<close>

type_synonym batches = "(mqtt_Message list \<times> bool) list"

definition written :: "batches \<Rightarrow> mqtt_Message list list" where
  "written bs = map fst (filter snd bs)"

definition stored_input :: "mqtt_Message \<Rightarrow> RawEventInput" where
  "stored_input m = (raw_input m)\<lparr>ri_ReceivedAt := timestamptz (mm_ReceivedAt m)\<rparr>"

definition count_payload :: "mqtt_Message list \<Rightarrow> payload" where
  "count_payload b = [(''count'', PInt (int (length b)))]"

definition count_note :: "mqtt_Message list \<Rightarrow> Notification" where
  "count_note b = \<lparr>nt_Channel = NotifyChannel, nt_Payload = marshal_payload (count_payload b)\<rparr>"

definition captured :: "Ingester \<Rightarrow> batches \<Rightarrow> Ingester \<Rightarrow> bool" where
  "captured s bs s' \<longleftrightarrow> raw_extends (ig_log s) (ig_log s') \<and>
     map input_of (rs_events (ig_log s')) = map input_of (rs_events (ig_log s)) @ map stored_input (concat (written bs)) \<and>
     ig_pool s' = publish_all NotifyChannel (map count_payload (written bs)) (ig_pool s) \<and>
     (\<forall>(b, ok) \<in> set bs. b \<noteq> [] \<and> length b \<le> ingest_batchSize)"

definition ingest_ok :: "Ingester \<Rightarrow> bool" where
  "ingest_ok s \<longleftrightarrow> raw_ok (ig_log s) \<and> length (ig_batch s) < ingest_batchSize"

lemma captured_refl: "ingest_ok s \<Longrightarrow> captured s [] s"
  by (simp add: captured_def ingest_ok_def written_def publish_all_def)

lemma captured_trans: "captured a bs b \<Longrightarrow> captured b cs c \<Longrightarrow> captured a (bs @ cs) c"
  by (auto simp: captured_def written_def publish_all_def intro: raw_extends_trans)

lemma insert_inputs:
  assumes "InsertRawEvents a c msgs d = (d', r)"
  shows "map input_of (rs_events d') = map input_of (rs_events d) @
      (if a \<and> c then map (\<lambda>m. m\<lparr>ri_ReceivedAt := timestamptz (ri_ReceivedAt m)\<rparr>) msgs else [])"
    and "a \<and> c \<Longrightarrow> r = Inr (int (length msgs))" and "msgs \<noteq> [] \<Longrightarrow> \<not> (a \<and> c) \<Longrightarrow> \<exists>e. r = Inl e"
proof -
  have "map input_of (map2 raw_row ids msgs) = map (\<lambda>m. m\<lparr>ri_ReceivedAt := timestamptz (ri_ReceivedAt m)\<rparr>) msgs"
    if "length ids = length msgs" for ids
    using that by (intro nth_equalityI) (auto simp: raw_row_def input_of_def)
  then show "map input_of (rs_events d') = map input_of (rs_events d) @
      (if a \<and> c then map (\<lambda>m. m\<lparr>ri_ReceivedAt := timestamptz (ri_ReceivedAt m)\<rparr>) msgs else [])"
    using assms by (auto simp: InsertRawEvents_def alloc_ids_def copy_in_def Let_def split: if_splits)
qed (use assms in \<open>auto simp: InsertRawEvents_def Let_def split: if_splits prod.splits\<close>)

lemma count_field_length: "length (json_string ''count'') = 7"
  by code_simp

lemma count_payload_fits:
  assumes "b \<noteq> []" "length b \<le> ingest_batchSize" shows "length (marshal_payload (count_payload b)) \<le> 7900"
  using length_itoa [of "int (length b)"] assms
  by (simp add: marshal_payload_def count_field_length count_payload_def ingest_batchSize_def)

lemma stored_inputs: "map (\<lambda>m. m\<lparr>ri_ReceivedAt := timestamptz (ri_ReceivedAt m)\<rparr>) (map raw_input ms) = map stored_input ms"
  by (simp add: stored_input_def raw_input_def)

lemma flush_captures:
  assumes "raw_ok (ig_log s)" "length (ig_batch s) \<le> ingest_batchSize" "ig_batch s \<noteq> []"
  shows "captured s [(ig_batch s, wr_alloc w \<and> wr_copy w)] (flush w s)" and "ig_batch (flush w s) = []"
proof -
  let ?msgs = "map raw_input (ig_batch s)" and ?ok = "wr_alloc w \<and> wr_copy w"
  obtain l r where i: "InsertRawEvents (wr_alloc w) (wr_copy w) ?msgs (ig_log s) = (l, r)" by fastforce
  note new = insert_inputs(1) [OF i, unfolded stored_inputs]
  show "ig_batch (flush w s) = []" using assms(3) i by (simp add: flush_def)
  show "captured s [(ig_batch s, ?ok)] (flush w s)"
  proof (cases ?ok)
    case True
    have "r = Inr (int (length (ig_batch s)))" using insert_inputs(2) [OF i True] by simp
    then have "flush w s = \<lparr>ig_batch = [], ig_log = l, ig_pool = publish_all NotifyChannel [count_payload (ig_batch s)] (ig_pool s)\<rparr>"
      using assms(3) i by (simp add: flush_def publish_all_def count_payload_def)
    then show ?thesis
      using True assms InsertRawEvents_extends(2) [OF assms(1) i] new by (simp add: captured_def written_def)
  next
    case False
    obtain e where "r = Inl e" using insert_inputs(3) [OF i _ False] assms(3) by auto
    then have "flush w s = \<lparr>ig_batch = [], ig_log = l, ig_pool = ig_pool s\<rparr>" using assms(3) i by (simp add: flush_def)
    then show ?thesis
      using False assms InsertRawEvents_extends(2) [OF assms(1) i] new
      by (auto simp: captured_def written_def publish_all_def)
  qed
qed

lemma captured_ok: "captured s bs s' \<Longrightarrow> raw_ok (ig_log s')"
  by (auto simp: captured_def raw_extends_def)

lemma flush_ok:
  assumes "ingest_ok s" obtains bs where "captured s bs (flush w s)" "concat (map fst bs) = ig_batch s" "ingest_ok (flush w s)" "ig_batch (flush w s) = []"
    "list_all (\<lambda>x. snd x = (wr_alloc w \<and> wr_copy w)) bs"
proof (cases "ig_batch s = []")
  case True
  then show thesis using that [of "[]"] assms captured_refl [OF assms] by (simp add: flush_def)
next
  case False
  have "raw_ok (ig_log s)" "length (ig_batch s) \<le> ingest_batchSize" using assms by (simp_all add: ingest_ok_def)
  from flush_captures [OF this False, of w] show thesis
    by (intro that [of "[(ig_batch s, wr_alloc w \<and> wr_copy w)]"]) (auto simp: ingest_ok_def ingest_batchSize_def dest: captured_ok)
qed

lemma receive_ok:
  assumes "ingest_ok s" obtains bs where "captured s bs (receive_message m w s)"
    "concat (map fst bs) @ ig_batch (receive_message m w s) = ig_batch s @ [m]" "ingest_ok (receive_message m w s)"
    "list_all (\<lambda>x. snd x = (wr_alloc w \<and> wr_copy w)) bs"
proof -
  let ?s = "s\<lparr>ig_batch := ig_batch s @ [m]\<rparr>"
  show thesis
  proof (cases "length (ig_batch ?s) \<ge> ingest_batchSize")
    case True
    have "raw_ok (ig_log ?s)" "length (ig_batch ?s) \<le> ingest_batchSize" "ig_batch ?s \<noteq> []"
      using assms by (simp_all add: ingest_ok_def)
    from flush_captures [OF this, of w] True show thesis
      by (intro that [of "[(ig_batch ?s, wr_alloc w \<and> wr_copy w)]"])
        (auto simp: receive_message_def captured_def ingest_ok_def ingest_batchSize_def raw_extends_def)
  next
    case False
    then show thesis using assms captured_refl [OF assms]
      by (intro that [of "[]"]) (auto simp: receive_message_def captured_def ingest_ok_def)
  qed
qed

lemma Run_captures:
  "ingest_ok s \<Longrightarrow> Ingest_Run cs s = (s', r) \<Longrightarrow>
    \<exists>bs. captured s bs s' \<and> concat (map fst bs) @ ig_batch s' = ig_batch s @ received cs \<and> ingest_ok s' \<and>
      (r \<noteq> None \<longrightarrow> ig_batch s' = []) \<and> ((\<forall>(c, w) \<in> set cs. wr_alloc w \<and> wr_copy w) \<longrightarrow> list_all snd bs)"
proof (induction cs arbitrary: s)
  case Nil
  then show ?case using captured_refl [OF Nil.prems(1)] by (intro exI [of _ "[]"]) simp
next
  case (Cons x cs)
  obtain c w where x: "x = (c, w)" by fastforce
  have step: ?case if "captured s bs t" "concat (map fst bs) @ ig_batch t = ig_batch s @ ms" "ingest_ok t"
    "list_all (\<lambda>x. snd x = (wr_alloc w \<and> wr_copy w)) bs" "Ingest_Run cs t = (s', r)" "received (x # cs) = ms @ received cs" for bs t ms
  proof -
    from Cons.IH [OF that(3,5)] obtain bs' where i: "captured t bs' s'" "concat (map fst bs') @ ig_batch s' = ig_batch t @ received cs"
      "ingest_ok s'" "r \<noteq> None \<longrightarrow> ig_batch s' = []" "(\<forall>(c, w) \<in> set cs. wr_alloc w \<and> wr_copy w) \<longrightarrow> list_all snd bs'" by blast
    have "concat (map fst (bs @ bs')) @ ig_batch s' = ig_batch s @ received (x # cs)"
      unfolding that(6) using i(2) that(2) by (metis append_assoc concat_append map_append)
    moreover have "(\<forall>(c, w) \<in> set (x # cs). wr_alloc w \<and> wr_copy w) \<longrightarrow> list_all snd (bs @ bs')"
      using i(5) that(4) by (auto simp: x list_all_iff)
    ultimately show ?thesis using captured_trans [OF that(1) i(1)] i(3,4) by blast
  qed
  obtain bf where f: "captured s bf (flush w s)" "concat (map fst bf) = ig_batch s" "ingest_ok (flush w s)" "ig_batch (flush w s) = []"
    "list_all (\<lambda>x. snd x = (wr_alloc w \<and> wr_copy w)) bf" using flush_ok [OF Cons.prems(1)] by blast
  show ?case
  proof (cases c)
    case Tick
    then show ?thesis using f Cons.prems(2) by (intro step [of bf "flush w s" "[]"]) (simp_all add: x)
  next
    case (Received m)
    obtain bs where b: "captured s bs (receive_message m w s)" "concat (map fst bs) @ ig_batch (receive_message m w s) = ig_batch s @ [m]"
      "ingest_ok (receive_message m w s)" "list_all (\<lambda>x. snd x = (wr_alloc w \<and> wr_copy w)) bs" using receive_ok [OF Cons.prems(1)] by blast
    then show ?thesis using Received Cons.prems(2) by (intro step [of bs "receive_message m w s" "[m]"]) (simp_all add: x)
  qed (use f Cons.prems(2) in \<open>auto simp: x list_all_iff\<close>)
qed

section \<open>Properties\<close>

text \<open>C31 (functional): whatever the loop meets, the messages it received, in order, are cut into batches of
  at most 500 and the part still waiting; the written batches are appended to the log in order, each
  message with its broker, topic and payload as they came and its receive time in whole microseconds,
  and for each written batch one notification of its size is published, once and in order, with its error
  ignored: all of them are sent when no publication fails. The batches whose write fails are gone;
  nothing waits when the loop has ended, and when no write fails every message is in the log.\<close>

theorem ingest_captures:
  assumes "ingest_ok s" "Ingest_Run cs s = (s', r)" "ig_batch s = []"
  shows "\<exists>bs. concat (map fst bs) @ ig_batch s' = received cs \<and> (\<forall>(b, ok) \<in> set bs. b \<noteq> [] \<and> length b \<le> 500) \<and>
    length (ig_batch s') < 500 \<and> (r \<noteq> None \<longrightarrow> ig_batch s' = []) \<and> raw_extends (ig_log s) (ig_log s') \<and>
    map input_of (rs_events (ig_log s')) = map input_of (rs_events (ig_log s)) @ map stored_input (concat (written bs)) \<and>
    ig_pool s' = publish_all NotifyChannel (map count_payload (written bs)) (ig_pool s) \<and>
    (pl_ok (ig_pool s) = [] \<longrightarrow> pl_sent (ig_pool s') = pl_sent (ig_pool s) @ map count_note (written bs)) \<and>
    ((\<forall>(c, w) \<in> set cs. wr_alloc w \<and> wr_copy w) \<longrightarrow> concat (written bs) @ ig_batch s' = received cs)"
proof -
  obtain bs where b: "captured s bs s'" "concat (map fst bs) @ ig_batch s' = received cs" "ingest_ok s'"
    "r \<noteq> None \<longrightarrow> ig_batch s' = []" "(\<forall>(c, w) \<in> set cs. wr_alloc w \<and> wr_copy w) \<longrightarrow> list_all snd bs"
    using Run_captures [OF assms(1,2)] assms(3) by auto
  have "written bs = map fst bs" if "list_all snd bs" using that by (simp add: written_def list_all_iff filter_id_conv)
  moreover have "pl_sent (ig_pool s') = pl_sent (ig_pool s) @ map count_note (written bs)" if "pl_ok (ig_pool s) = []"
  proof -
    have "length (marshal_payload p) \<le> 7900" if "p \<in> set (map count_payload (written bs))" for p
      using that b(1) count_payload_fits by (auto simp: captured_def written_def)
    note sent = publish_all_ok [OF that this, of _ NotifyChannel]
    have "ig_pool s' = publish_all NotifyChannel (map count_payload (written bs)) (ig_pool s)" using b(1) by (simp add: captured_def)
    also note sent
    finally show ?thesis by (simp add: count_note_def comp_def)
  qed
  ultimately show ?thesis using b
    by (intro exI [of _ bs]) (auto simp: captured_def ingest_ok_def ingest_batchSize_def)
qed

text \<open>C32 (error): the last batch is written with the context whose end asked for it, so that the write fails;
  messages received after the last full batch or tick before a shutdown are lost.\<close>

theorem shutdown_loses_batch:
  assumes "ingest_ok s" "length (ig_batch s) + length ms < 500" "\<not> wr_alloc w"
  shows "Ingest_Run (map (\<lambda>m. (Received m, v)) ms @ [(CtxDone, w)]) s = (s\<lparr>ig_batch := []\<rparr>, Some CtxErr)"
  using assms
proof (induction ms arbitrary: s)
  case Nil
  then show ?case by (auto simp: flush_def InsertRawEvents_def)
next
  case (Cons m ms)
  have "receive_message m v s = s\<lparr>ig_batch := ig_batch s @ [m]\<rparr>"
    using Cons.prems(2) by (simp add: receive_message_def ingest_batchSize_def)
  moreover have "ingest_ok (s\<lparr>ig_batch := ig_batch s @ [m]\<rparr>)"
    using Cons.prems(1,2) by (simp add: ingest_ok_def ingest_batchSize_def)
  ultimately show ?case using Cons.IH [of "s\<lparr>ig_batch := ig_batch s @ [m]\<rparr>"] Cons.prems by simp
qed

definition fresh_ingest :: Ingester where
  "fresh_ingest = \<lparr>ig_batch = [], ig_log = \<lparr>rs_events = [], rs_seq = 0\<rparr>, ig_pool = \<lparr>pl_sent = [], pl_ok = []\<rparr>\<rparr>"

definition sample_message :: mqtt_Message where
  "sample_message = \<lparr>mm_Broker = ''default'', mm_Topic = ''meshcore/BUF/0/status'', mm_Payload = ''{}'', mm_ReceivedAt = 2007\<rparr>"

lemma fresh_ingest_ok: "ingest_ok fresh_ingest" "ig_batch fresh_ingest = []"
  by (simp_all add: ingest_ok_def fresh_ingest_def raw_ok_def ingest_batchSize_def)

lemma ingest_captures_witness:
  "\<exists>s'. Ingest_Run [(Received sample_message, \<lparr>wr_alloc = True, wr_copy = True\<rparr>), (Tick, \<lparr>wr_alloc = True, wr_copy = True\<rparr>)]
      fresh_ingest = (s', None) \<and> map input_of (rs_events (ig_log s')) = [(raw_input sample_message)\<lparr>ri_ReceivedAt := 2000\<rparr>]"
proof -
  let ?cs = "[(Received sample_message, \<lparr>wr_alloc = True, wr_copy = True\<rparr>), (Tick, \<lparr>wr_alloc = True, wr_copy = True\<rparr>)]"
  obtain s' where r: "Ingest_Run ?cs fresh_ingest = (s', None)"
    by (simp add: receive_message_def ingest_batchSize_def fresh_ingest_def)
  moreover have "ig_batch s' = []"
    using r by (auto simp: receive_message_def ingest_batchSize_def fresh_ingest_def flush_def Let_def split: prod.splits)
  moreover have "stored_input sample_message = (raw_input sample_message)\<lparr>ri_ReceivedAt := 2000\<rparr>"
    by (simp add: stored_input_def sample_message_def timestamptz_def truncate_time_def microsecond_def)
  ultimately show ?thesis using ingest_captures [OF fresh_ingest_ok(1) r fresh_ingest_ok(2)] by (auto simp: fresh_ingest_def)
qed

lemma shutdown_loses_batch_witness:
  "Ingest_Run [(Received sample_message, \<lparr>wr_alloc = True, wr_copy = True\<rparr>), (CtxDone, \<lparr>wr_alloc = False, wr_copy = False\<rparr>)]
    fresh_ingest = (fresh_ingest, Some CtxErr)"
  using shutdown_loses_batch [OF fresh_ingest_ok(1), of "[sample_message]" "\<lparr>wr_alloc = False, wr_copy = False\<rparr>" "\<lparr>wr_alloc = True, wr_copy = True\<rparr>"]
  by (simp add: fresh_ingest_def)

end
