(* ===== verification/Go_Calendar.thy ===== *)
theory Go_Calendar
  imports Prelude
begin

text \<open>
  Dates of the \<^verbatim>\<open>time\<close> package in UTC: the year, month and day of an instant, \<^verbatim>\<open>time.Date\<close> and
  \<^verbatim>\<open>AddDate\<close>, which let months and days run over. Months are counted from the year zero.
\<close>

section \<open>Days and months\<close>

definition one_day :: duration where "one_day = 24 * hour"

definition leap_year :: "int \<Rightarrow> bool" where
  "leap_year y \<longleftrightarrow> y mod 4 = 0 \<and> (y mod 100 \<noteq> 0 \<or> y mod 400 = 0)"

text \<open>The days from 1 January of the year one to that of a year, and to the first of a month.\<close>

definition year_start :: "int \<Rightarrow> int" where
  "year_start y = 365 * (y - 1) + (y - 1) div 4 - (y - 1) div 100 + (y - 1) div 400"

definition days_before :: "int list" where
  "days_before = [0, 31, 59, 90, 120, 151, 181, 212, 243, 273, 304, 334]"

definition month_start :: "int \<Rightarrow> int" where
  "month_start i = year_start (i div 12) + days_before ! nat (i mod 12) + (if leap_year (i div 12) \<and> 1 < i mod 12 then 1 else 0)"

definition month_length :: "int \<Rightarrow> int" where
  "month_length i = (let m = i mod 12 in
     if m = 1 then (if leap_year (i div 12) then 29 else 28) else if m = 3 \<or> m = 5 \<or> m = 8 \<or> m = 10 then 30 else 31)"

lemma div_step:
  fixes y k :: int assumes "0 < k"
  shows "y div k = (y - 1) div k + (if y mod k = 0 then 1 else 0)"
proof (cases "y mod k = 0")
  case True
  have "(y - 1) div k = y div k - 1"
    using True assms mult_div_mod_eq [of k y] by (intro int_div_pos_eq [where r = "k - 1"]) (simp_all add: algebra_simps)
  with True show ?thesis by simp
next
  case False
  have "0 \<le> y mod k" "y mod k < k" using assms by simp_all
  then have "(y - 1) div k = y div k"
    using False mult_div_mod_eq [of k y] by (intro int_div_pos_eq [where r = "y mod k - 1"]) simp_all
  with False show ?thesis by simp
qed

lemma year_start_next: "year_start (y + 1) = year_start y + (if leap_year y then 366 else 365)"
proof -
  have "y mod 400 = 0 \<Longrightarrow> y mod 100 = 0" "y mod 100 = 0 \<Longrightarrow> y mod 4 = 0"
    by (auto simp: mod_eq_0_iff_dvd intro: dvd_trans [of "100 :: int" 400] dvd_trans [of "4 :: int" 100])
  then have imp: "y mod 400 = 0 \<longrightarrow> y mod 100 = 0" "y mod 100 = 0 \<longrightarrow> y mod 4 = 0" by blast+
  have sum: "365 * y + q4 - q100 + q400 = 365 * (y - 1) + p4 - p100 + p400 + (if a \<and> (\<not> b \<or> c) then 366 else 365)"
    if "c \<longrightarrow> b" "b \<longrightarrow> a" "q4 = p4 + (if a then 1 else 0)" "q100 = p100 + (if b then 1 else 0)" "q400 = p400 + (if c then 1 else 0)"
    for q4 p4 q100 p100 q400 p400 :: int and a b c using that by (cases a; cases b; cases c) simp_all
  show ?thesis unfolding year_start_def leap_year_def add_diff_cancel_right'
    by (rule sum [OF imp div_step div_step div_step]) simp_all
qed

lemma month_cases:
  fixes i :: int
  obtains "i mod 12 = 11" "(i + 1) mod 12 = 0" "(i + 1) div 12 = i div 12 + 1"
  | "i mod 12 < 11" "0 \<le> i mod 12" "(i + 1) mod 12 = i mod 12 + 1" "(i + 1) div 12 = i div 12"
proof (cases "i mod 12 = 11")
  case True
  then have e: "i + 1 = 12 * (i div 12 + 1) + 0" using mult_div_mod_eq [of 12 i] by simp
  then show thesis using True by (intro that(1) int_div_pos_eq [OF e] int_mod_pos_eq [OF e]) simp_all
next
  case False
  have "0 \<le> i mod 12" "i mod 12 < 12" by simp_all
  then have m: "0 \<le> i mod 12" "i mod 12 < 11" using False by linarith+
  have e: "i + 1 = 12 * (i div 12) + (i mod 12 + 1)" using mult_div_mod_eq [of 12 i] by simp
  show thesis using m by (intro that(2) int_div_pos_eq [OF e] int_mod_pos_eq [OF e]) simp_all
qed

lemma below_eleven:
  fixes k :: int assumes "0 \<le> k" "k < 11"
  obtains "k = 0" | "k = 1" | "k = 2" | "k = 3" | "k = 4" | "k = 5" | "k = 6" | "k = 7" | "k = 8" | "k = 9" | "k = 10"
proof -
  have "k = 0 \<or> k = 1 \<or> k = 2 \<or> k = 3 \<or> k = 4 \<or> k = 5 \<or> k = 6 \<or> k = 7 \<or> k = 8 \<or> k = 9 \<or> k = 10" using assms by presburger
  then show thesis using that by blast
qed

lemma month_start_next: "month_start (i + 1) = month_start i + month_length i"
proof (cases rule: month_cases [of i])
  case 1
  then show ?thesis by (simp add: month_start_def month_length_def days_before_def year_start_next Let_def)
next
  case 2
  show ?thesis
    by (rule below_eleven [OF 2(2,1)]) (use 2(3,4) in \<open>simp_all add: month_start_def month_length_def days_before_def Let_def\<close>)
qed

lemma month_length_bounds: "28 \<le> month_length i" "month_length i \<le> 31"
  by (simp_all add: month_length_def Let_def)

lemma month_start_less: "month_start i < month_start (i + 1)"
  using month_start_next [of i] month_length_bounds(1) [of i] by simp

lemma month_start_mono: "i \<le> j \<Longrightarrow> month_start i \<le> month_start j"
proof (induction j rule: int_ge_induct)
  case (step j)
  then show ?case using month_start_less [of j] by simp
qed simp

section \<open>The date of an instant\<close>

text \<open>The month a day lies in, found from a month that is not after it.\<close>

function find_month :: "int \<Rightarrow> int \<Rightarrow> int" where
  "find_month i n = (if month_start (i + 1) \<le> n then find_month (i + 1) n else i)"
  by pat_completeness auto
termination
proof (relation "measure (\<lambda>(i, n). nat (n - month_start i))")
  fix i n
  assume "month_start (i + 1) \<le> n"
  then show "((i + 1, n), (i, n)) \<in> measure (\<lambda>(i, n). nat (n - month_start i))" using month_start_less [of i] by simp
qed simp

declare find_month.simps [simp del]

definition month_of :: "time \<Rightarrow> int" where
  "month_of t = (let n = t div one_day in find_month (12 * (n div 366 + 1)) n)"

definition Year :: "time \<Rightarrow> int" where "Year t = month_of t div 12"
definition Month :: "time \<Rightarrow> int" where "Month t = month_of t mod 12 + 1"
definition Day :: "time \<Rightarrow> int" where "Day t = t div one_day - month_start (month_of t) + 1"

text \<open>\<^verbatim>\<open>time.Date\<close> at midnight, and \<^verbatim>\<open>AddDate\<close>.\<close>

definition Date :: "int \<Rightarrow> int \<Rightarrow> int \<Rightarrow> time" where
  "Date y m d = (month_start (12 * y + (m - 1)) + (d - 1)) * one_day"

definition AddDate :: "time \<Rightarrow> int \<Rightarrow> int \<Rightarrow> int \<Rightarrow> time" where
  "AddDate t y m d = Date (Year t + y) (Month t + m) (Day t + d) + t mod one_day"

lemma one_day_pos [simp]: "0 < one_day" "one_day \<noteq> 0"
  by (simp_all add: one_day_def hour_def minute_def second_def)

lemma find_month_spec:
  "month_start i \<le> n \<Longrightarrow> month_start (find_month i n) \<le> n \<and> n < month_start (find_month i n + 1)"
proof (induction i n rule: find_month.induct)
  case (1 i n)
  then show ?case by (cases "month_start (i + 1) \<le> n") (simp_all add: find_month.simps [of i n])
qed

lemma month_unique: "month_start i \<le> n \<Longrightarrow> n < month_start (i + 1) \<Longrightarrow> month_start j \<le> n \<Longrightarrow> n < month_start (j + 1) \<Longrightarrow> i = j"
  using month_start_mono [of "i + 1" j] month_start_mono [of "j + 1" i] by (cases i j rule: linorder_cases) simp_all

lemma month_of_day:
  assumes "0 \<le> t"
  shows "month_start (month_of t) \<le> t div one_day" "t div one_day < month_start (month_of t + 1)"
proof -
  let ?n = "t div one_day"
  have n: "0 \<le> ?n" using assms by (simp add: pos_imp_zdiv_nonneg_iff)
  have "month_start (12 * (?n div 366 + 1)) = year_start (?n div 366 + 1)" by (simp add: month_start_def days_before_def)
  moreover have "year_start (?n div 366 + 1) \<le> ?n"
  proof -
    let ?q = "?n div 366"
    have q: "0 \<le> ?q" using n by (simp only: pos_imp_zdiv_nonneg_iff)
    have "366 * ?q \<le> ?n" using mult_div_mod_eq [of 366 ?n] pos_mod_sign [of 366 ?n] by linarith
    moreover have "?q div 4 \<le> ?q" using zdiv_mono2 [OF q, of 1 4] by simp
    moreover have "?q div 400 \<le> ?q div 100" using zdiv_mono2 [OF q, of 100 400] by simp
    ultimately show ?thesis unfolding year_start_def by simp
  qed
  ultimately show "month_start (month_of t) \<le> ?n" "?n < month_start (month_of t + 1)"
    using find_month_spec [of "12 * (?n div 366 + 1)" ?n] by (simp_all add: month_of_def Let_def)
qed

lemma div_day_le: "i \<le> t div one_day \<longleftrightarrow> i * one_day \<le> t"
proof -
  have "t = t div one_day * one_day + t mod one_day" "0 \<le> t mod one_day" "t mod one_day < one_day" by simp_all
  moreover have "i \<le> t div one_day \<Longrightarrow> i * one_day \<le> t div one_day * one_day" by simp
  moreover have "t div one_day + 1 \<le> i \<Longrightarrow> (t div one_day + 1) * one_day \<le> i * one_day"
    by (rule mult_right_mono) (simp_all add: less_imp_le)
  moreover have "(t div one_day + 1) * one_day = t div one_day * one_day + one_day" by (simp add: distrib_right)
  ultimately show ?thesis by linarith
qed

lemma month_of_iff:
  "0 \<le> t \<Longrightarrow> month_of t = i \<longleftrightarrow> month_start i * one_day \<le> t \<and> t < month_start (i + 1) * one_day"
  using month_of_day [of t] month_unique [of i "t div one_day" "month_of t"]
  by (auto simp: div_day_le simp flip: not_le)

lemma Date_of_month: "Date (Year t) (Month t) d = (month_start (month_of t) + (d - 1)) * one_day"
  by (simp add: Date_def Year_def Month_def)

lemma date_of_month_start:
  assumes "0 \<le> month_start i" "0 \<le> d" "d < month_length i"
  shows "month_of ((month_start i + d) * one_day) = i" "Day ((month_start i + d) * one_day) = d + 1"
proof -
  have n: "0 \<le> (month_start i + d) * one_day" using assms by (simp add: less_imp_le)
  moreover have "(month_start i + d) * one_day < month_start (i + 1) * one_day" "month_start i * one_day \<le> (month_start i + d) * one_day"
    using assms by (simp_all add: month_start_next)
  ultimately show m: "month_of ((month_start i + d) * one_day) = i" by (simp only: month_of_iff)
  show "Day ((month_start i + d) * one_day) = d + 1" by (simp add: Day_def m)
qed

lemma month_of_nonneg:
  assumes "0 \<le> t" shows "0 \<le> month_start (month_of t)"
proof -
  have "12 \<le> month_of t"
  proof (rule ccontr)
    assume "\<not> 12 \<le> month_of t"
    then have "month_start (month_of t + 1) \<le> month_start 12" by (intro month_start_mono) simp
    moreover have "month_start 12 = 0" by (simp add: month_start_def year_start_def days_before_def)
    moreover have "0 \<le> t div one_day" using assms by (simp add: pos_imp_zdiv_nonneg_iff)
    ultimately show False using month_of_day(2) [OF assms] by linarith
  qed
  then have "month_start 12 \<le> month_start (month_of t)" by (rule month_start_mono)
  then show ?thesis by (simp add: month_start_def year_start_def days_before_def)
qed

text \<open>The first of the month of an instant, and that of the next month.\<close>

lemma first_of_month:
  assumes "0 \<le> t"
  shows "Date (Year t) (Month t) 1 = month_start (month_of t) * one_day"
    and "AddDate (Date (Year t) (Month t) 1) 0 1 0 = month_start (month_of t + 1) * one_day"
proof -
  let ?i = "month_of t"
  show s: "Date (Year t) (Month t) 1 = month_start ?i * one_day" by (simp add: Date_of_month)
  have "month_of (month_start ?i * one_day) = ?i" "Day (month_start ?i * one_day) = 1"
    using date_of_month_start [OF month_of_nonneg [OF assms], of 0] month_length_bounds(1) [of ?i] by simp_all
  then show "AddDate (Date (Year t) (Month t) 1) 0 1 0 = month_start (?i + 1) * one_day"
    unfolding s by (simp add: AddDate_def Date_def Year_def Month_def algebra_simps)
qed

text \<open>A month later lies in the next month, or where that is too short in the one after.\<close>

lemma month_after:
  assumes "0 \<le> t"
  shows "0 \<le> AddDate t 0 1 0"
    and "month_of (AddDate t 0 1 0) = (if Day t \<le> month_length (month_of t + 1) then month_of t + 1 else month_of t + 2)"
proof -
  let ?i = "month_of t" and ?d = "Day t - 1" and ?r = "t mod one_day"
  have d: "0 \<le> ?d" "?d < month_length ?i" using month_of_day [OF assms] by (simp_all add: Day_def month_start_next)
  have r: "0 \<le> ?r" "?r < one_day" by simp_all
  have a: "AddDate t 0 1 0 = (month_start (?i + 1) + ?d) * one_day + ?r"
    by (simp add: AddDate_def Date_def Year_def Month_def algebra_simps)
  have pos: "0 \<le> month_start (?i + 1)" using month_of_nonneg [OF assms] month_start_less [of ?i] by simp
  have "0 \<le> (month_start (?i + 1) + ?d) * one_day" using pos d(1) by (simp add: less_imp_le)
  then show n: "0 \<le> AddDate t 0 1 0" using r unfolding a by simp
  have q: "AddDate t 0 1 0 div one_day = month_start (?i + 1) + ?d" unfolding a by (rule int_div_pos_eq [OF _ r]) (simp add: mult.commute)
  note m = month_of_day [OF n, unfolded q]
  have m: "month_of (AddDate t 0 1 0) = j"
    if "month_start j \<le> month_start (?i + 1) + ?d" "month_start (?i + 1) + ?d < month_start (j + 1)" for j
    using month_unique [OF _ _ that] month_of_day [OF n, unfolded q] by blast
  show "month_of (AddDate t 0 1 0) = (if Day t \<le> month_length (?i + 1) then ?i + 1 else ?i + 2)"
  proof (cases "Day t \<le> month_length (?i + 1)")
    case True
    have "month_of (AddDate t 0 1 0) = ?i + 1" by (rule m) (use True d month_start_next [of "?i + 1"] in simp_all)
    then show ?thesis using True by simp
  next
    case False
    have next2: "month_start (?i + 2) = month_start (?i + 1) + month_length (?i + 1)" "month_start (?i + 2 + 1) = month_start (?i + 2) + month_length (?i + 2)"
      using month_start_next [of "?i + 1"] month_start_next [of "?i + 2"] by (simp_all add: add.assoc)
    have "month_of (AddDate t 0 1 0) = ?i + 2"
      using False d month_length_bounds [of ?i] month_length_bounds [of "?i + 1"] month_length_bounds [of "?i + 2"]
      by (intro m) (use next2 in linarith)+
    then show ?thesis using False by simp
  qed
qed

end
