(* ===== verification/Store_Partitions.thy ===== *)
theory Store_Partitions
  imports Go_Calendar Go_Strings
begin

text \<open>
  The monthly partitions of the raw log and of the packets (\<^verbatim>\<open>internal/store/partitions.go\<close>): which ones
  a service makes at its start and every six hours, and what stands in its way.
\<close>

section \<open>Model\<close>

text \<open>
  What the database knows: the rows of \<^verbatim>\<open>_partition_state\<close>, the partitions with their table and range,
  and the instants of the rows in the default partition of a table. A statement fails when the
  connection does (the \<open>fuse\<close> of a connection, as in transactions); another session may make the same
  partition at the same moment (\<open>pc_race\<close>), which is the error 42P07. A range is written in RFC 3339
  and read back by the server; the model passes on the instants.
\<close>

record part_db =
  pd_state :: "(string \<times> time \<times> time) list"
  pd_relations :: "(string \<times> string \<times> time \<times> time) list"
  pd_default :: "(string \<times> time) list"

datatype part_err = ConnectionLost | PgError string

record part_conn =
  pc_db :: part_db
  pc_fuse :: "nat option"
  pc_race :: "string \<Rightarrow> bool"

definition burned :: "part_conn \<Rightarrow> part_conn" where
  "burned c = c\<lparr>pc_fuse := map_option (\<lambda>n. n - 1) (pc_fuse c)\<rparr>"

text \<open>\<^verbatim>\<open>%0wd\<close> of a number that is not negative.\<close>

definition zero_padded :: "nat \<Rightarrow> int \<Rightarrow> string" where
  "zero_padded w i = replicate (w - length (itoa i)) CHR ''0'' @ itoa i"

definition partition_name :: "string \<Rightarrow> time \<Rightarrow> string" where
  "partition_name table start = table @ ''_'' @ zero_padded 4 (Year start) @ ''_'' @ zero_padded 2 (Month start)"

text \<open>
  \<^verbatim>\<open>CREATE TABLE IF NOT EXISTS ... PARTITION OF\<close>: ranges of a table may not overlap, and none may hold a
  row that is in the default partition.
\<close>

definition create_partition :: "string \<Rightarrow> string \<Rightarrow> time \<Rightarrow> time \<Rightarrow> part_db \<Rightarrow> part_err + part_db" where
  "create_partition name table lo hi d =
     (if map_of (pd_relations d) name \<noteq> None then Inr d
      else if list_ex (\<lambda>(n, t, l, h). t = table \<and> lo < h \<and> l < hi) (pd_relations d) then Inl (PgError ''42P17'')
      else if list_ex (\<lambda>(t, x). t = table \<and> lo \<le> x \<and> x < hi) (pd_default d) then Inl (PgError ''23514'')
      else Inr (d\<lparr>pd_relations := pd_relations d @ [(name, table, lo, hi)]\<rparr>))"

definition exec_create :: "string \<Rightarrow> string \<Rightarrow> time \<Rightarrow> time \<Rightarrow> part_conn \<Rightarrow> part_conn \<times> part_err option" where
  "exec_create name table lo hi c =
     (if pc_fuse c = Some 0 then (c, Some ConnectionLost)
      else case create_partition name table lo hi (pc_db c) of
             Inl e \<Rightarrow> (burned c, Some e)
           | Inr d \<Rightarrow> (burned (c\<lparr>pc_db := d\<rparr>), if pc_race c name then Some (PgError ''42P07'') else None))"

definition record_partition :: "string \<Rightarrow> time \<Rightarrow> time \<Rightarrow> part_conn \<Rightarrow> part_conn \<times> part_err option" where
  "record_partition name lo hi c =
     (if pc_fuse c = Some 0 then (c, Some ConnectionLost)
      else let d = pc_db c in
        (burned (c\<lparr>pc_db := (if map_of (pd_state d) name \<noteq> None then d else d\<lparr>pd_state := pd_state d @ [(name, lo, hi)]\<rparr>)\<rparr>), None))"

definition ensurePartition :: "string \<Rightarrow> time \<Rightarrow> part_conn \<Rightarrow> part_conn \<times> part_err option" where
  "ensurePartition table month c =
     (let start = Date (Year month) (Month month) 1; stop = AddDate start 0 1 0; name = partition_name table start in
      if pc_fuse c = Some 0 then (c, Some ConnectionLost)
      else if map_of (pd_state (pc_db c)) name \<noteq> None then (burned c, None)
      else case exec_create name table start stop (burned c) of (c1, e) \<Rightarrow>
        if e \<noteq> None \<and> e \<noteq> Some (PgError ''42P07'') then (c1, e) else record_partition name start stop c1)"

fun ensure_all :: "(time \<times> string) list \<Rightarrow> part_conn \<Rightarrow> part_conn \<times> part_err option" where
  "ensure_all [] c = (c, None)"
| "ensure_all ((month, table) # rest) c =
     (case ensurePartition table month c of (c1, e) \<Rightarrow> if e \<noteq> None then (c1, e) else ensure_all rest c1)"

definition EnsurePartitions :: "time \<Rightarrow> string list \<Rightarrow> part_conn \<Rightarrow> part_conn \<times> part_err option" where
  "EnsurePartitions now tables c =
     ensure_all (concat (map (\<lambda>month. map (\<lambda>table. (month, table)) tables) [now, AddDate now 0 1 0])) c"

section \<open>Names\<close>

text \<open>The partition of a table for a month, and the months with four digits of year.\<close>

definition month_name :: "string \<Rightarrow> int \<Rightarrow> string" where
  "month_name table i = table @ ''_'' @ zero_padded 4 (i div 12) @ ''_'' @ zero_padded 2 (i mod 12 + 1)"

definition month_part :: "string \<Rightarrow> int \<Rightarrow> string \<times> string \<times> time \<times> time" where
  "month_part table i = (month_name table i, table, month_start i * one_day, month_start (i + 1) * one_day)"

definition dated :: "int \<Rightarrow> bool" where
  "dated i \<longleftrightarrow> 0 \<le> i \<and> i < 120000"

lemma zero_padded:
  assumes "0 \<le> i" "i < 10 ^ w" "0 < w"
  shows "length (zero_padded w i) = w" "digits_val 0 (zero_padded w i) = Some (nat i)"
proof -
  have "length (nat_digits (nat i)) \<le> w" using assms by (intro length_nat_digits) (simp_all add: nat_less_iff)
  then show "length (zero_padded w i) = w" using assms(1) by (simp add: zero_padded_def itoa_def)
  have "digits_val 0 (replicate n CHR ''0'') = Some 0" for n
    by (induction n) (simp_all add: digit_val_def)
  then show "digits_val 0 (zero_padded w i) = Some (nat i)" using assms(1) by (simp add: zero_padded_def itoa_def digits_val_append)
qed

lemma month_name_inj:
  assumes "dated i" "dated j" "month_name table i = month_name table' j"
  shows "table = table'" "i = j"
proof -
  have y: "0 \<le> k div 12" "k div 12 < 10 ^ 4" "0 \<le> k mod 12 + 1" "k mod 12 + 1 < 10 ^ 2" if "dated k" for k
  proof -
    have "0 \<le> k mod 12" "k mod 12 < 12" "12 * (k div 12) + k mod 12 = k" by simp_all
    then have "0 \<le> k div 12" "k div 12 < 10000" "0 \<le> k mod 12 + 1" "k mod 12 + 1 < 100" using that unfolding dated_def by linarith+
    then show "0 \<le> k div 12" "k div 12 < 10 ^ 4" "0 \<le> k mod 12 + 1" "k mod 12 + 1 < 10 ^ 2" by simp_all
  qed
  note yi = y [OF assms(1)] and yj = y [OF assms(2)]
  note l = zero_padded(1) [OF yi(1,2)] zero_padded(1) [OF yi(3,4)] zero_padded(1) [OF yj(1,2)] zero_padded(1) [OF yj(3,4)]
  have "table = table' \<and> zero_padded 4 (i div 12) = zero_padded 4 (j div 12) \<and> zero_padded 2 (i mod 12 + 1) = zero_padded 2 (j mod 12 + 1)"
    using assms(3) l by (simp add: month_name_def append_eq_append_conv)
  then have t: "table = table'" and e: "zero_padded 4 (i div 12) = zero_padded 4 (j div 12)" "zero_padded 2 (i mod 12 + 1) = zero_padded 2 (j mod 12 + 1)"
    by blast+
  have "nat (i div 12) = nat (j div 12)" "nat (i mod 12 + 1) = nat (j mod 12 + 1)"
    using zero_padded(2) [OF yi(1,2)] zero_padded(2) [OF yj(1,2)] zero_padded(2) [OF yi(3,4)] zero_padded(2) [OF yj(3,4)]
    unfolding e by (simp_all only: option.inject zero_less_numeral)
  then have "i div 12 = j div 12" "i mod 12 + 1 = j mod 12 + 1" using yi(1,3) yj(1,3) by (simp_all only: eq_nat_nat_iff)
  then have "12 * (i div 12) + i mod 12 = 12 * (j div 12) + j mod 12" by (simp only: add_right_cancel)
  then show "i = j" by (simp only: mult_div_mod_eq)
  show "table = table'" by (rule t)
qed

lemma ensurePartition_month:
  assumes "0 \<le> month"
  shows "ensurePartition table month c =
     (case month_part table (month_of month) of (name, _, start, stop) \<Rightarrow>
      if pc_fuse c = Some 0 then (c, Some ConnectionLost)
      else if map_of (pd_state (pc_db c)) name \<noteq> None then (burned c, None)
      else case exec_create name table start stop (burned c) of (c1, e) \<Rightarrow>
        if e \<noteq> None \<and> e \<noteq> Some (PgError ''42P07'') then (c1, e) else record_partition name start stop c1)"
proof -
  have "month_of (month_start (month_of month) * one_day) = month_of month"
    using date_of_month_start [OF month_of_nonneg [OF assms], of 0] month_length_bounds(1) [of "month_of month"] by simp
  then have n: "partition_name table (month_start (month_of month) * one_day) = month_name table (month_of month)"
    by (simp add: partition_name_def month_name_def Year_def Month_def)
  have f: "AddDate (month_start (month_of month) * one_day) 0 1 0 = month_start (month_of month + 1) * one_day"
    using first_of_month [OF assms] by simp
  show ?thesis unfolding ensurePartition_def Let_def first_of_month(1) [OF assms] n f month_part_def by (simp only: prod.case)
qed

section \<open>What the calls keep\<close>

text \<open>Every partition is that of a month, and every recorded one exists.\<close>

definition parts_ok :: "part_db \<Rightarrow> bool" where
  "parts_ok d \<longleftrightarrow> distinct (map fst (pd_relations d)) \<and>
     (\<forall>x \<in> set (pd_relations d). \<exists>table i. dated i \<and> x = month_part table i) \<and> fst ` set (pd_state d) \<subseteq> fst ` set (pd_relations d)"

lemma recorded_exists:
  assumes "parts_ok d" "dated i" "month_name table i \<in> fst ` set (pd_state d)"
  shows "month_part table i \<in> set (pd_relations d)"
proof -
  obtain x where x: "x \<in> set (pd_relations d)" "fst x = month_name table i" using assms by (auto simp: parts_ok_def)
  then obtain t j where j: "dated j" "x = month_part t j" using assms(1) unfolding parts_ok_def by blast
  then have "month_name t j = month_name table i" using x(2) by (simp add: month_part_def)
  from month_name_inj [OF j(1) assms(2) this] j(2) x(1) show ?thesis by simp
qed

lemma create_partition_cases:
  assumes "create_partition name table lo hi d = Inr d'"
  shows "pd_state d' = pd_state d" "pd_default d' = pd_default d" "name \<in> fst ` set (pd_relations d')"
    and "d' = d \<or> name \<notin> fst ` set (pd_relations d) \<and> d' = d\<lparr>pd_relations := pd_relations d @ [(name, table, lo, hi)]\<rparr>"
  using assms by (auto simp: create_partition_def map_of_eq_None_iff split: if_splits simp del: map_of_eq_Some_iff)

lemma create_no_duplicate: "create_partition name table lo hi d \<noteq> Inl (PgError ''42P07'')"
  by (simp add: create_partition_def)

text \<open>The steps a call can make: nothing, a partition, or a partition and its record.\<close>

lemma ensurePartition_steps:
  assumes "0 \<le> month" "ensurePartition table month c = (c', e)"
    and part: "month_part table (month_of month) = (name, table, start, stop)"
  obtains "pc_db c' = pc_db c" "e \<noteq> None"
  | "pc_db c' = pc_db c" "e = None" "name \<in> fst ` set (pd_state (pc_db c))"
  | d where "create_partition name table start stop (pc_db c) = Inr d" "pc_db c' = d" "e \<noteq> None"
  | d where "create_partition name table start stop (pc_db c) = Inr d" "name \<notin> fst ` set (pd_state (pc_db c))"
      "pc_db c' = d\<lparr>pd_state := pd_state d @ [(name, start, stop)]\<rparr>" "e = None"
proof -
  note steps = that
  note r = assms(2) [unfolded ensurePartition_month [OF assms(1)] part, simplified]
  show thesis
  proof (cases "pc_fuse c = Some 0 \<or> map_of (pd_state (pc_db c)) name \<noteq> None")
    case True
    then show thesis using r steps(1,2) by (auto simp: burned_def map_of_eq_None_iff split: if_splits simp del: map_of_eq_Some_iff)
  next
    case False
    then have n: "name \<notin> fst ` set (pd_state (pc_db c))" by (simp add: map_of_eq_None_iff)
    have b: "pc_db (burned x) = pc_db x" for x by (simp add: burned_def)
    show thesis
    proof (cases "pc_fuse (burned c) = Some 0")
      case True
      then show thesis using r False steps(1) by (auto simp: exec_create_def b)
    next
      case fuse: False
      show thesis
      proof (cases "create_partition name table start stop (pc_db c)")
        case (Inl x)
        then have "x \<noteq> PgError ''42P07''" using create_no_duplicate by metis
        then show thesis using r False fuse Inl steps(1) by (auto simp: exec_create_def b)
      next
        case (Inr d)
        define c1 where "c1 = burned ((burned c)\<lparr>pc_db := d\<rparr>)"
        have d: "pc_db c1 = d" by (simp add: c1_def b)
        have "record_partition name start stop c1 = (c', e)" using r False fuse Inr by (auto simp: exec_create_def b c1_def split: if_splits)
        moreover have "map_of (pd_state d) name = None" using n create_partition_cases(1) [OF Inr] by (simp add: map_of_eq_None_iff)
        ultimately have "c' = c1 \<and> e \<noteq> None \<or> pc_db c' = d\<lparr>pd_state := pd_state d @ [(name, start, stop)]\<rparr> \<and> e = None"
          by (cases "pc_fuse c1 = Some 0") (auto simp: record_partition_def Let_def d b)
        then show thesis using steps(3) [OF Inr] steps(4) [OF Inr n] d by blast
      qed
    qed
  qed
qed

lemma parts_ok_create:
  assumes "parts_ok d" "dated i" "month_part table i = (name, table, start, stop)" "create_partition name table start stop d = Inr d'"
  shows "parts_ok d'" "parts_ok (d'\<lparr>pd_state := pd_state d' @ [(name, start, stop)]\<rparr>)"
proof -
  show ok: "parts_ok d'"
    using create_partition_cases(4) [OF assms(4)]
  proof
    assume "name \<notin> fst ` set (pd_relations d) \<and> d' = d\<lparr>pd_relations := pd_relations d @ [(name, table, start, stop)]\<rparr>"
    moreover have "\<exists>t j. dated j \<and> (name, table, start, stop) = month_part t j" using assms(2,3) by metis
    ultimately show ?thesis using assms(1) by (simp add: parts_ok_def) blast
  qed (use assms(1) in simp)
  then show "parts_ok (d'\<lparr>pd_state := pd_state d' @ [(name, start, stop)]\<rparr>)"
    using create_partition_cases(3) [OF assms(4)] by (simp add: parts_ok_def)
qed

lemma ensurePartition_keeps:
  assumes "0 \<le> month" "dated (month_of month)" "parts_ok (pc_db c)" "ensurePartition table month c = (c', e)"
  shows "parts_ok (pc_db c')" and "fst ` set (pd_state (pc_db c)) \<subseteq> fst ` set (pd_state (pc_db c'))"
    and "e = None \<Longrightarrow> month_name table (month_of month) \<in> fst ` set (pd_state (pc_db c'))"
proof -
  let ?i = "month_of month"
  obtain start stop where p: "month_part table ?i = (month_name table ?i, table, start, stop)" by (simp add: month_part_def)
  have "parts_ok (pc_db c') \<and> fst ` set (pd_state (pc_db c)) \<subseteq> fst ` set (pd_state (pc_db c')) \<and>
      (e = None \<longrightarrow> month_name table ?i \<in> fst ` set (pd_state (pc_db c')))"
    using assms(1,4) p
  proof (cases rule: ensurePartition_steps)
    case (3 d)
    then show ?thesis using parts_ok_create(1) [OF assms(3,2) p 3(1)] create_partition_cases(1) [OF 3(1)] by auto
  next
    case (4 d)
    then show ?thesis using parts_ok_create(2) [OF assms(3,2) p 4(1)] create_partition_cases(1) [OF 4(1)] by auto
  qed (use assms(3) in auto)
  then show "parts_ok (pc_db c')" and "fst ` set (pd_state (pc_db c)) \<subseteq> fst ` set (pd_state (pc_db c'))"
    and "e = None \<Longrightarrow> month_name table (month_of month) \<in> fst ` set (pd_state (pc_db c'))" by blast+
qed

lemma ensure_all_keeps:
  assumes "parts_ok (pc_db c)" "\<forall>(month, table) \<in> set todo. 0 \<le> month \<and> dated (month_of month)" "ensure_all todo c = (c', e)"
  shows "parts_ok (pc_db c') \<and> fst ` set (pd_state (pc_db c)) \<subseteq> fst ` set (pd_state (pc_db c')) \<and>
    (e = None \<longrightarrow> (\<forall>(month, table) \<in> set todo. month_name table (month_of month) \<in> fst ` set (pd_state (pc_db c'))))"
  using assms
proof (induction todo arbitrary: c)
  case (Cons x todo)
  obtain month table where x: "x = (month, table)" by fastforce
  obtain c1 e1 where r: "ensurePartition table month c = (c1, e1)" by fastforce
  have m: "0 \<le> month" "dated (month_of month)" using Cons.prems(2) by (auto simp: x)
  note k = ensurePartition_keeps [OF m Cons.prems(1) r]
  show ?case
  proof (cases "e1 = None")
    case True
    then have "ensure_all todo c1 = (c', e)" using Cons.prems(3) by (simp add: x r)
    from Cons.IH [OF k(1) _ this] Cons.prems(2) k(2,3) True show ?thesis by (auto simp: x)
  next
    case False
    then show ?thesis using Cons.prems(3) k(1,2) by (auto simp: x r)
  qed
qed auto

lemma EnsurePartitions_todo: "EnsurePartitions now tables c =
    ensure_all (map (Pair now) tables @ map (Pair (AddDate now 0 1 0)) tables) c"
  by (simp add: EnsurePartitions_def)

text \<open>With every partition recorded a call does nothing.\<close>

lemma ensure_all_idle:
  assumes "pc_fuse c = None" "\<forall>(month, table) \<in> set todo. 0 \<le> month \<and> month_name table (month_of month) \<in> fst ` set (pd_state (pc_db c))"
  shows "ensure_all todo c = (c, None)"
  using assms(2)
proof (induction todo)
  case (Cons x todo)
  obtain month table where x: "x = (month, table)" by fastforce
  have b: "burned c = c" using assms(1) by (simp add: burned_def)
  have m: "0 \<le> month" "map_of (pd_state (pc_db c)) (month_name table (month_of month)) \<noteq> None"
    using Cons.prems by (auto simp: x map_of_eq_None_iff simp del: map_of_eq_Some_iff)
  then have "ensurePartition table month c = (c, None)"
    by (simp add: ensurePartition_month month_part_def assms(1) b del: map_of_eq_Some_iff not_None_eq)
  then show ?case using Cons by (simp add: x)
qed simp

text \<open>While nothing lies in the default partition and the connection lasts, a call succeeds.\<close>

lemma create_partition_succeeds:
  assumes "parts_ok d" "dated i" "pd_default d = []" "month_part table i = (name, table, start, stop)"
  shows "create_partition name table start stop d \<noteq> Inl x"
proof -
  have same: "i = j" if "dated j" "month_start i * one_day < month_start (j + 1) * one_day" "month_start j * one_day < month_start (i + 1) * one_day" for j
    using that(2,3) month_start_mono [of "i + 1" j] month_start_mono [of "j + 1" i] by (cases i j rule: linorder_cases) simp_all
  have "\<not> list_ex (\<lambda>(n, t, l, h). t = table \<and> start < h \<and> l < stop) (pd_relations d)"
    if n: "name \<notin> fst ` set (pd_relations d)"
  proof
    assume "list_ex (\<lambda>(n, t, l, h). t = table \<and> start < h \<and> l < stop) (pd_relations d)"
    then obtain n l h where x: "(n, table, l, h) \<in> set (pd_relations d)" "start < h" "l < stop" by (auto simp: list_ex_iff)
    then obtain t j where j: "dated j" "(n, table, l, h) = month_part t j" using assms(1) unfolding parts_ok_def by blast
    moreover have "start = month_start i * one_day" "stop = month_start (i + 1) * one_day" using assms(4) by (simp_all add: month_part_def)
    ultimately have "i = j" using same [OF j(1)] x(2,3) by (simp add: month_part_def)
    then have "n = name" using j(2) assms(4) by (simp add: month_part_def)
    then show False using n x(1) by force
  qed
  then show ?thesis using assms(3) by (simp add: create_partition_def map_of_eq_None_iff del: map_of_eq_Some_iff)
qed

lemma ensure_all_succeeds:
  assumes "parts_ok (pc_db c)" "pd_default (pc_db c) = []" "pc_fuse c = None" "\<forall>(month, table) \<in> set todo. 0 \<le> month \<and> dated (month_of month)"
  shows "snd (ensure_all todo c) = None"
  using assms
proof (induction todo arbitrary: c)
  case (Cons x todo)
  obtain m table where x: "x = (m, table)" by fastforce
  have m: "0 \<le> m" "dated (month_of m)" using Cons.prems(4) by (auto simp: x)
  obtain name start stop where p: "month_part table (month_of m) = (name, table, start, stop)" by (simp add: month_part_def)
  obtain c1 e1 where r: "ensurePartition table m c = (c1, e1)" by fastforce
  have b: "burned c = c" using Cons.prems(3) by (simp add: burned_def)
  obtain d where d: "create_partition name table start stop (pc_db c) = Inr d"
    using create_partition_succeeds [OF Cons.prems(1) m(2) Cons.prems(2) p] by (cases "create_partition name table start stop (pc_db c)") auto
  have "e1 = None \<and> pc_fuse c1 = None \<and> pd_default (pc_db c1) = []"
    using r Cons.prems(2,3) create_partition_cases(2) [OF d]
    by (auto simp: ensurePartition_month [OF m(1)] p b exec_create_def d record_partition_def burned_def Let_def split: if_splits)
  then show ?case using Cons.IH [OF ensurePartition_keeps(1) [OF m Cons.prems(1) r]] Cons.prems(4) by (simp add: x r)
qed simp

section \<open>A row in the way\<close>

text \<open>The row of an instant goes to the partition of its month, or to the default partition.\<close>

definition insert_row :: "string \<Rightarrow> time \<Rightarrow> part_db \<Rightarrow> part_db" where
  "insert_row table t d =
     (if list_ex (\<lambda>(n, t', lo, hi). t' = table \<and> lo \<le> t \<and> t < hi) (pd_relations d) then d
      else d\<lparr>pd_default := pd_default d @ [(table, t)]\<rparr>)"

text \<open>A month of a table without a partition that has a row in the default partition.\<close>

definition blocked :: "part_db \<Rightarrow> string \<Rightarrow> time \<Rightarrow> bool" where
  "blocked d table t \<longleftrightarrow> month_name table (month_of t) \<notin> fst ` set (pd_relations d) \<and> (table, t) \<in> set (pd_default d)"

lemma create_blocked:
  assumes "blocked d table t" "0 \<le> t" "month_part table (month_of t) = (name, table, start, stop)"
  shows "create_partition name table start stop d \<noteq> Inr d'"
proof -
  have n: "name \<notin> fst ` set (pd_relations d)" and "start \<le> t" "t < stop"
    using assms month_of_iff [of t "month_of t"] by (auto simp: blocked_def month_part_def)
  then have "list_ex (\<lambda>(t', x). t' = table \<and> start \<le> x \<and> x < stop) (pd_default d)"
    using assms(1) unfolding blocked_def list_ex_iff by blast
  then show ?thesis using n by (simp add: create_partition_def map_of_eq_None_iff del: map_of_eq_Some_iff)
qed

text \<open>A call touches the partitions of its months only.\<close>

lemma ensurePartition_names:
  assumes "0 \<le> month" "ensurePartition table month c = (c', e)"
  shows "fst ` set (pd_relations (pc_db c')) \<subseteq> insert (month_name table (month_of month)) (fst ` set (pd_relations (pc_db c)))"
    and "pd_default (pc_db c') = pd_default (pc_db c)"
proof -
  obtain start stop where p: "month_part table (month_of month) = (month_name table (month_of month), table, start, stop)"
    by (simp add: month_part_def)
  have "fst ` set (pd_relations (pc_db c')) \<subseteq> insert (month_name table (month_of month)) (fst ` set (pd_relations (pc_db c))) \<and>
      pd_default (pc_db c') = pd_default (pc_db c)"
    using assms p
  proof (cases rule: ensurePartition_steps)
    case (3 d)
    then show ?thesis using create_partition_cases [OF 3(1)] by auto
  next
    case (4 d)
    then show ?thesis using create_partition_cases [OF 4(1)] by auto
  qed auto
  then show "fst ` set (pd_relations (pc_db c')) \<subseteq> insert (month_name table (month_of month)) (fst ` set (pd_relations (pc_db c)))"
    and "pd_default (pc_db c') = pd_default (pc_db c)" by blast+
qed

lemma subset_chain: "A \<subseteq> B \<union> D \<Longrightarrow> D \<subseteq> insert n C \<Longrightarrow> A \<subseteq> insert n (B \<union> C)"
  by blast

lemma ensure_all_names:
  assumes "\<forall>(month, table) \<in> set todo. 0 \<le> month" "ensure_all todo c = (c', e)"
  shows "fst ` set (pd_relations (pc_db c')) \<subseteq> (\<lambda>(month, table). month_name table (month_of month)) ` set todo \<union> fst ` set (pd_relations (pc_db c)) \<and>
    pd_default (pc_db c') = pd_default (pc_db c)"
  using assms
proof (induction todo arbitrary: c)
  case (Cons x todo)
  obtain month table where x: "x = (month, table)" by fastforce
  obtain c1 e1 where r: "ensurePartition table month c = (c1, e1)" by fastforce
  have m: "0 \<le> month" using Cons.prems(1) by (auto simp: x)
  note names = ensurePartition_names [OF m r]
  show ?case
  proof (cases "e1 = None")
    case True
    then have "ensure_all todo c1 = (c', e)" using Cons.prems(2) by (simp add: x r)
    from Cons.IH [OF _ this] Cons.prems(1)
    have "fst ` set (pd_relations (pc_db c')) \<subseteq> (\<lambda>(month, table). month_name table (month_of month)) ` set todo \<union> fst ` set (pd_relations (pc_db c1))"
      "pd_default (pc_db c') = pd_default (pc_db c1)" by simp_all
    then show ?thesis using subset_chain [OF _ names(1)] names(2) unfolding x by simp
  next
    case False
    then show ?thesis using Cons.prems(2) names by (auto simp: x r)
  qed
qed auto

lemma ensurePartition_blocked:
  assumes "0 \<le> month" "dated (month_of month)" "parts_ok (pc_db c)" "blocked (pc_db c) table t" "0 \<le> t" "dated (month_of t)"
    and r: "ensurePartition table' month c = (c', e)"
  shows "blocked (pc_db c') table t" and "table' = table \<Longrightarrow> month_of month = month_of t \<Longrightarrow> e \<noteq> None"
proof -
  let ?same = "table' = table \<and> month_of month = month_of t"
  note names = ensurePartition_names [OF assms(1) r]
  have "e \<noteq> None \<and> pc_db c' = pc_db c" if ?same
  proof -
    obtain start stop where p: "month_part table (month_of month) = (month_name table (month_of month), table, start, stop)"
      by (simp add: month_part_def)
    from r that have r: "ensurePartition table month c = (c', e)" by simp
    have n: "month_name table (month_of month) \<notin> fst ` set (pd_state (pc_db c))"
      using assms(3,4) that by (auto simp: parts_ok_def blocked_def)
    from assms(1) r p show ?thesis
    proof (cases rule: ensurePartition_steps)
      case (3 d)
      then show ?thesis using create_blocked [OF assms(4,5)] p that by metis
    next
      case (4 d)
      then show ?thesis using create_blocked [OF assms(4,5)] p that by metis
    qed (use n in auto)
  qed
  moreover have "month_name table (month_of t) \<noteq> month_name table' (month_of month)" if "\<not> ?same"
    using that month_name_inj [OF assms(2,6), of table' table] by metis
  ultimately show "blocked (pc_db c') table t" and "table' = table \<Longrightarrow> month_of month = month_of t \<Longrightarrow> e \<noteq> None"
    using names assms(4) unfolding blocked_def by (cases ?same; auto)+
qed

lemma ensure_all_blocked:
  assumes "parts_ok (pc_db c)" "\<forall>(month, table) \<in> set todo. 0 \<le> month \<and> dated (month_of month)" "blocked (pc_db c) table t" "0 \<le> t"
    and "dated (month_of t)" "ensure_all todo c = (c', e)"
  shows "blocked (pc_db c') table t \<and> (\<forall>month. (month, table) \<in> set todo \<longrightarrow> month_of month = month_of t \<longrightarrow> e \<noteq> None)"
  using assms
proof (induction todo arbitrary: c)
  case (Cons x todo)
  obtain m table' where x: "x = (m, table')" by fastforce
  obtain c1 e1 where r: "ensurePartition table' m c = (c1, e1)" by fastforce
  have m: "0 \<le> m" "dated (month_of m)" using Cons.prems(2) by (auto simp: x)
  note b = ensurePartition_blocked [OF m Cons.prems(1,3,4,5) r]
  show ?case
  proof (cases "e1 = None")
    case True
    then have "ensure_all todo c1 = (c', e)" using Cons.prems(6) by (simp add: x r)
    from Cons.IH [OF ensurePartition_keeps(1) [OF m Cons.prems(1) r] _ b(1) Cons.prems(4,5) this] Cons.prems(2) b(2) True
    show ?thesis by (auto simp: x)
  next
    case False
    then show ?thesis using Cons.prems(6) b(1) by (auto simp: x r)
  qed
qed simp

section \<open>Properties\<close>

definition covered :: "part_db \<Rightarrow> string \<Rightarrow> time \<Rightarrow> bool" where
  "covered d table t \<longleftrightarrow> (\<exists>(name, t', lo, hi) \<in> set (pd_relations d). t' = table \<and> lo \<le> t \<and> t < hi \<and> name \<in> fst ` set (pd_state d))"

lemma covered_month:
  assumes "parts_ok d" "0 \<le> t" "dated (month_of t)" "month_name table (month_of t) \<in> fst ` set (pd_state d)"
  shows "covered d table t"
proof -
  have "month_start (month_of t) * one_day \<le> t" "t < month_start (month_of t + 1) * one_day" using assms(2) month_of_iff [of t "month_of t"] by simp_all
  then show ?thesis using recorded_exists [OF assms(1,3,4)] assms(4) 
    unfolding covered_def month_part_def by (intro bexI [rotated]) (assumption, simp)
qed

lemma dated_now:
  assumes "0 \<le> now" "month_of now + k < 120000" "0 \<le> k" shows "dated (month_of now + k)"
proof -
  have "month_start 0 < 0" by (simp add: month_start_def year_start_def days_before_def)
  then have "0 \<le> month_of now" using month_of_nonneg [OF assms(1)] month_start_mono [of "month_of now" 0] by linarith
  then show ?thesis using assms(2,3) by (simp add: dated_def)
qed

lemma todo_dated:
  assumes "0 \<le> now" "month_of now + 2 < 120000"
  shows "\<forall>(month, table) \<in> set (map (Pair now) tables @ map (Pair (AddDate now 0 1 0)) tables). 0 \<le> month \<and> dated (month_of month)"
  using month_after [OF assms(1)] dated_now [OF assms(1), of 0] dated_now [OF assms(1), of 1] dated_now [OF assms(1), of 2] assms by auto

text \<open>C38 (invariant): a call that succeeds leaves a recorded partition for every instant of the month it is made in
  and, on the days the next month also has, of the next month, for each of its tables; every partition
  stays that of a whole month and every record that of an existing partition; and a repetition of the
  call succeeds without changing anything.\<close>

theorem partitions_cover_months:
  assumes "parts_ok (pc_db c)" "0 \<le> now" "month_of now + 2 < 120000" "EnsurePartitions now tables c = (c', None)"
  shows "parts_ok (pc_db c') \<and>
    (\<forall>table \<in> set tables. \<forall>t \<ge> 0. month_of t = month_of now \<or> month_of t = month_of now + 1 \<and> Day now \<le> month_length (month_of now + 1)
      \<longrightarrow> covered (pc_db c') table t) \<and>
    (\<forall>c2. pc_db c2 = pc_db c' \<and> pc_fuse c2 = None \<longrightarrow> EnsurePartitions now tables c2 = (c2, None))"
proof -
  let ?next = "AddDate now 0 1 0" and ?todo = "map (Pair now) tables @ map (Pair (AddDate now 0 1 0)) tables"
  have d: "dated (month_of now)" "dated (month_of now + 1)" "dated (month_of now + 2)"
    using dated_now [OF assms(2), of 0] dated_now [OF assms(2), of 1] dated_now [OF assms(2), of 2] assms(3) by simp_all
  have n: "0 \<le> ?next" "dated (month_of ?next)" using month_after [OF assms(2)] d by simp_all
  note k = ensure_all_keeps [OF assms(1) todo_dated [OF assms(2,3)] assms(4) [unfolded EnsurePartitions_todo]]
  have rec: "month_name table (month_of now) \<in> fst ` set (pd_state (pc_db c'))" "month_name table (month_of ?next) \<in> fst ` set (pd_state (pc_db c'))"
    if "table \<in> set tables" for table
  proof -
    have "\<forall>x \<in> set ?todo. case x of (month, table) \<Rightarrow> month_name table (month_of month) \<in> fst ` set (pd_state (pc_db c'))" using k by blast
    from bspec [OF this, of "(now, table)"] bspec [OF this, of "(?next, table)"] that
    show "month_name table (month_of now) \<in> fst ` set (pd_state (pc_db c'))" "month_name table (month_of ?next) \<in> fst ` set (pd_state (pc_db c'))"
      by simp_all
  qed
  have "covered (pc_db c') table t"
    if "table \<in> set tables" "0 \<le> t" "month_of t = month_of now \<or> month_of t = month_of now + 1 \<and> Day now \<le> month_length (month_of now + 1)" for table t
    using that(3)
  proof
    assume "month_of t = month_of now"
    then show ?thesis using k that(1,2) rec(1) d(1) by (intro covered_month) simp_all
  next
    assume "month_of t = month_of now + 1 \<and> Day now \<le> month_length (month_of now + 1)"
    then show ?thesis using k that(1,2) rec(2) n(2) month_after(2) [OF assms(2)] by (intro covered_month) simp_all
  qed
  moreover have "EnsurePartitions now tables c2 = (c2, None)" if "pc_db c2 = pc_db c'" "pc_fuse c2 = None" for c2
    unfolding EnsurePartitions_todo by (rule ensure_all_idle [OF that(2)]) (use rec assms(2) n(1) that(1) in auto)
  ultimately show ?thesis using k by blast
qed

definition fresh_conn :: part_conn where
  "fresh_conn = \<lparr>pc_db = \<lparr>pd_state = [], pd_relations = [], pd_default = []\<rparr>, pc_fuse = None, pc_race = (\<lambda>_. False)\<rparr>"

lemma fresh_succeeds:
  assumes "0 \<le> now" "month_of now + 2 < 120000"
  obtains c' where "EnsurePartitions now tables fresh_conn = (c', None)"
proof -
  have "snd (EnsurePartitions now tables fresh_conn) = None"
    unfolding EnsurePartitions_todo by (rule ensure_all_succeeds [OF _ _ _ todo_dated [OF assms]]) (simp_all add: parts_ok_def fresh_conn_def)
  then show thesis using that by (metis prod.collapse)
qed

lemma partitions_cover_months_witness:
  "\<exists>c'. EnsurePartitions (Date 2026 3 10) [''raw_events''] fresh_conn = (c', None) \<and> covered (pc_db c') ''raw_events'' (Date 2026 4 30)"
proof -
  have now: "0 \<le> Date 2026 3 10" "month_of (Date 2026 3 10) + 2 < 120000" by code_simp+
  then obtain c' where r: "EnsurePartitions (Date 2026 3 10) [''raw_events''] fresh_conn = (c', None)" by (rule fresh_succeeds)
  have "parts_ok (pc_db fresh_conn)" by (simp add: parts_ok_def fresh_conn_def)
  moreover have "0 \<le> Date 2026 4 30" by code_simp
  moreover have "month_of (Date 2026 4 30) = month_of (Date 2026 3 10) + 1" "Day (Date 2026 3 10) \<le> month_length (month_of (Date 2026 3 10) + 1)"
    by code_simp+
  ultimately have "covered (pc_db c') ''raw_events'' (Date 2026 4 30)"
    using partitions_cover_months [OF _ now r] by simp
  with r show ?thesis by blast
qed

text \<open>C39 (error): on a day that the next month does not have, a call leaves the next month out: \<^verbatim>\<open>AddDate\<close> is then in the
  month after. Rows of that month go to the default partition once it has begun, and from the first of
  them on every call fails in that month, for ever if it is repeated.\<close>

theorem skipped_month_blocks:
  assumes "parts_ok (pc_db c)" "0 \<le> now" "month_of now + 3 < 120000" "EnsurePartitions now tables c = (c', None)"
    and "month_length (month_of now + 1) < Day now" "table \<in> set tables" "month_name table (month_of now + 1) \<notin> fst ` set (pd_relations (pc_db c))"
    and "0 \<le> t" "month_of t = month_of now + 1" "pc_db c2 = insert_row table t (pc_db c')"
    and "0 \<le> later" "month_of later = month_of t" "EnsurePartitions later tables c2 = (c3, e)"
  shows "e \<noteq> None \<and> blocked (pc_db c3) table t"
proof -
  let ?next = "AddDate now 0 1 0" and ?i = "month_of now"
  have d: "dated ?i" "dated (?i + 1)" "dated (?i + 2)"
    using dated_now [OF assms(2), of 0] dated_now [OF assms(2), of 1] dated_now [OF assms(2), of 2] assms(3) by simp_all
  have n: "month_of ?next = ?i + 2" using month_after(2) [OF assms(2)] assms(5) by simp
  have now: "month_of now + 2 < 120000" using assms(3) by simp
  note todo = todo_dated [OF assms(2) now, of tables] and run = assms(4) [unfolded EnsurePartitions_todo]
  have ok: "parts_ok (pc_db c')" using ensure_all_keeps [OF assms(1) todo run] by blast
  have "\<forall>(month, table) \<in> set (map (Pair now) tables @ map (Pair ?next) tables). 0 \<le> month" using todo by blast
  note names = ensure_all_names [OF this run]
  have ne: "month_name table (?i + 1) = month_name table' ?i \<longleftrightarrow> False" "month_name table (?i + 1) = month_name table' (?i + 2) \<longleftrightarrow> False" for table'
    using month_name_inj(2) [OF d(2,1), of table table'] month_name_inj(2) [OF d(2,3), of table table'] by auto
  then have "month_name table (?i + 1) \<notin> (\<lambda>(month, table). month_name table (month_of month)) ` set (map (Pair now) tables @ map (Pair ?next) tables)"
    by (auto simp: n ne)
  then have free: "month_name table (month_of t) \<notin> fst ` set (pd_relations (pc_db c'))"
    using conjunct1 [OF names] assms(7) unfolding assms(9) by (meson UnE subsetD)
  have "\<not> list_ex (\<lambda>(n, t', lo, hi). t' = table \<and> lo \<le> t \<and> t < hi) (pd_relations (pc_db c'))"
  proof
    assume "list_ex (\<lambda>(n, t', lo, hi). t' = table \<and> lo \<le> t \<and> t < hi) (pd_relations (pc_db c'))"
    then obtain j where "dated j" "month_part table j \<in> set (pd_relations (pc_db c'))" "month_start j * one_day \<le> t" "t < month_start (j + 1) * one_day"
      using ok by (fastforce simp: list_ex_iff parts_ok_def month_part_def)
    then show False using free month_of_iff [OF assms(8), of j] by (force simp: month_part_def)
  qed
  then have d2: "pc_db c2 = (pc_db c')\<lparr>pd_default := pd_default (pc_db c') @ [(table, t)]\<rparr>" unfolding assms(10) insert_row_def by (rule if_not_P)
  have b: "blocked (pc_db c2) table t" "parts_ok (pc_db c2)" using free ok unfolding d2 by (simp_all add: blocked_def parts_ok_def)
  have later: "month_of later + 2 < 120000" using assms(3,9,12) by simp
  have "dated (month_of t)" using d(2) assms(9) by simp
  from ensure_all_blocked [OF b(2) todo_dated [OF assms(11) later] b(1) assms(8) this assms(13) [unfolded EnsurePartitions_todo]] assms(6,12)
  show ?thesis by auto
qed

lemma skipped_month_blocks_witness:
  "\<exists>c' e c3. EnsurePartitions (Date 2026 1 31) [''raw_events''] fresh_conn = (c', None) \<and>
    EnsurePartitions (Date 2026 2 2) [''raw_events''] (c'\<lparr>pc_db := insert_row ''raw_events'' (Date 2026 2 1) (pc_db c')\<rparr>) = (c3, e) \<and> e \<noteq> None"
proof -
  have now: "0 \<le> Date 2026 1 31" "month_of (Date 2026 1 31) + 2 < 120000" by code_simp+
  then obtain c' where r: "EnsurePartitions (Date 2026 1 31) [''raw_events''] fresh_conn = (c', None)" by (rule fresh_succeeds)
  let ?c2 = "c'\<lparr>pc_db := insert_row ''raw_events'' (Date 2026 2 1) (pc_db c')\<rparr>"
  obtain c3 e where r2: "EnsurePartitions (Date 2026 2 2) [''raw_events''] ?c2 = (c3, e)" by fastforce
  have p: "parts_ok (pc_db fresh_conn)" by (simp add: parts_ok_def fresh_conn_def)
  have d: "0 \<le> Date 2026 1 31" "month_of (Date 2026 1 31) + 3 < 120000" "month_length (month_of (Date 2026 1 31) + 1) < Day (Date 2026 1 31)"
    "0 \<le> Date 2026 2 1" "month_of (Date 2026 2 1) = month_of (Date 2026 1 31) + 1" "0 \<le> Date 2026 2 2" "month_of (Date 2026 2 2) = month_of (Date 2026 2 1)"
    by code_simp+
  have "e \<noteq> None"
    using skipped_month_blocks [OF p d(1,2) r d(3) _ _ d(4,5) _ d(6,7) r2] by (simp add: fresh_conn_def)
  with r r2 show ?thesis by blast
qed

end
