(* ===== verification/Store_Migrations.thy ===== *)
theory Store_Migrations
  imports Go_Strings
begin

text \<open>
  The schema migrations and the check every service makes before it starts
  (\<^verbatim>\<open>internal/store/migrations.go\<close>). The library that applies a migration, golang-migrate, is a
  parameter, with the connections and the listing of the embedded files.
\<close>

section \<open>Model\<close>

text \<open>
  What one schema of one database has: whether it exists, and the row of its \<^verbatim>\<open>_schema_migrations\<close>,
  if any. \<^verbatim>\<open>Up\<close> gets the files of the directory; \<open>NoChange\<close> is \<^verbatim>\<open>ErrNoChange\<close>.
\<close>

record schema_cell =
  sc_created :: bool
  sc_version :: "nat option"
  sc_dirty :: bool

datatype up_result = UpDone | NoChange | UpFailed

record migrate_env =
  me_connect :: "string \<Rightarrow> bool"
  me_create :: "string \<Rightarrow> string \<Rightarrow> bool"
  me_open :: "string \<Rightarrow> string \<Rightarrow> bool"
  me_files :: "string \<Rightarrow> string list option"
  me_up :: "string list \<Rightarrow> schema_cell \<Rightarrow> schema_cell \<times> up_result"
  me_readable :: "string \<Rightarrow> string \<Rightarrow> bool"

type_synonym databases = "string \<Rightarrow> string \<Rightarrow> schema_cell"

datatype migrate_err = ConnectFailed | CreateFailed | OpenFailed | MigrateFailed | NoMigrations | VersionUnreadable | DirtySchema nat | WrongVersion nat nat

definition ingestSet :: string where "ingestSet = ''ingest''"
definition projectSet :: string where "projectSet = ''project''"

definition quoteIdentifier :: "string \<Rightarrow> string" where
  "quoteIdentifier s = [CHR 0x22] @ concat (map (\<lambda>c. if c = CHR 0x22 then [CHR 0x22, CHR 0x22] else [c]) s) @ [CHR 0x22]"

definition ensureSchema :: "migrate_env \<Rightarrow> string \<Rightarrow> string \<Rightarrow> databases \<Rightarrow> databases \<times> migrate_err option" where
  "ensureSchema M url schema w =
     (if \<not> me_connect M url then (w, Some ConnectFailed)
      else if \<not> me_create M url schema then (w, Some CreateFailed)
      else (w(url := (w url)(schema := (w url schema)\<lparr>sc_created := True\<rparr>)), None))"

text \<open>The version in a file name, if it is one of an up migration.\<close>

definition up_version :: "string \<Rightarrow> nat option" where
  "up_version name =
     (if \<not> has_suffix name ''.up.sql'' then None
      else let idx = (if CHR ''_'' \<in> set name then int (length (takeWhile (\<lambda>c. c \<noteq> CHR ''_'') name)) else - 1) in
        if idx \<le> 0 then None
        else (case parse_uint (take (nat idx) name) of None \<Rightarrow> None | Some v \<Rightarrow> if v < 2 ^ 64 then Some v else None))"

definition latestEmbeddedVersion :: "migrate_env \<Rightarrow> string \<Rightarrow> nat option" where
  "latestEmbeddedVersion M sset =
     (case me_files M sset of
        None \<Rightarrow> None
      | Some entries \<Rightarrow>
          let mx = fold (\<lambda>name mx. case up_version name of None \<Rightarrow> mx | Some v \<Rightarrow> if v > mx then v else mx) entries 0
          in if mx = 0 then None else Some mx)"

definition runOne :: "migrate_env \<Rightarrow> string \<Rightarrow> string \<Rightarrow> databases \<Rightarrow> databases \<times> migrate_err option" where
  "runOne M url sset w =
     (case ensureSchema M url sset w of (w1, e) \<Rightarrow>
        if e \<noteq> None then (w1, e)
        else (case me_files M sset of
          None \<Rightarrow> (w1, Some OpenFailed)
        | Some files \<Rightarrow>
            if \<not> me_open M url sset then (w1, Some OpenFailed)
            else (case me_up M files (w1 url sset) of (cell, r) \<Rightarrow>
              ((w1(url := (w1 url)(sset := cell))), if r \<noteq> UpDone \<and> r \<noteq> NoChange then Some MigrateFailed else None))))"

text \<open>\<^verbatim>\<open>m.Version\<close>: zero and clean without a row.\<close>

definition version_row :: "schema_cell \<Rightarrow> nat \<times> bool" where
  "version_row cell = (case sc_version cell of None \<Rightarrow> (0, False) | Some v \<Rightarrow> (v, sc_dirty cell))"

definition checkOne :: "migrate_env \<Rightarrow> string \<Rightarrow> string \<Rightarrow> databases \<Rightarrow> databases \<times> migrate_err option" where
  "checkOne M url sset w =
     (case ensureSchema M url sset w of (w1, e) \<Rightarrow>
        if e \<noteq> None then (w1, e)
        else if me_files M sset = None \<or> \<not> me_open M url sset then (w1, Some OpenFailed)
        else (case latestEmbeddedVersion M sset of
          None \<Rightarrow> (w1, Some NoMigrations)
        | Some want \<Rightarrow>
            if \<not> me_readable M url sset then (w1, Some VersionUnreadable)
            else (case version_row (w1 url sset) of (have, dirty) \<Rightarrow>
              if dirty then (w1, Some (DirtySchema have))
              else if have \<noteq> want then (w1, Some (WrongVersion have want)) else (w1, None))))"

text \<open>The two targets in turn, up to the first error.\<close>

definition each_target ::
  "(string \<Rightarrow> string \<Rightarrow> databases \<Rightarrow> databases \<times> migrate_err option) \<Rightarrow> string \<Rightarrow> string \<Rightarrow> databases \<Rightarrow> databases \<times> migrate_err option"
where
  "each_target f ingestURL projectURL w =
     (case f ingestURL ingestSet w of (w1, e) \<Rightarrow> if e \<noteq> None then (w1, e) else f projectURL projectSet w1)"

definition RunMigrations :: "migrate_env \<Rightarrow> string \<Rightarrow> string \<Rightarrow> databases \<Rightarrow> databases \<times> migrate_err option" where
  "RunMigrations M = each_target (runOne M)"

definition CheckMigrations :: "migrate_env \<Rightarrow> string \<Rightarrow> string \<Rightarrow> databases \<Rightarrow> databases \<times> migrate_err option" where
  "CheckMigrations M = each_target (checkOne M)"

section \<open>When a check passes\<close>

definition at_latest :: "migrate_env \<Rightarrow> string \<Rightarrow> schema_cell \<Rightarrow> bool" where
  "at_latest M sset cell \<longleftrightarrow> sc_version cell \<noteq> None \<and> sc_version cell = latestEmbeddedVersion M sset \<and> \<not> sc_dirty cell"

lemma latest_positive: "latestEmbeddedVersion M sset = Some v \<Longrightarrow> 0 < v"
  by (auto simp: latestEmbeddedVersion_def Let_def split: option.splits if_splits)

lemma checkOne_passes:
  "checkOne M url sset w = (w', None) \<longleftrightarrow>
    me_connect M url \<and> me_create M url sset \<and> me_files M sset \<noteq> None \<and> me_open M url sset \<and> me_readable M url sset \<and>
    at_latest M sset (w url sset) \<and> w' = w(url := (w url)(sset := (w url sset)\<lparr>sc_created := True\<rparr>))"
  using latest_positive [of M sset]
  by (auto simp: checkOne_def ensureSchema_def at_latest_def version_row_def split: option.splits if_splits)

lemma runOne_passes:
  assumes "runOne M url sset w = (w', None)"
  shows "me_connect M url" "me_create M url sset" "me_open M url sset"
    and "\<exists>files cell r. me_files M sset = Some files \<and> me_up M files ((w url sset)\<lparr>sc_created := True\<rparr>) = (cell, r) \<and> r \<noteq> UpFailed \<and>
      w' = w(url := (w url)(sset := cell))"
  using assms by (cases "me_up M (the (me_files M sset)) ((w url sset)\<lparr>sc_created := True\<rparr>)",
      auto simp: runOne_def ensureSchema_def split: option.splits if_splits)+

section \<open>The library\<close>

text \<open>
  What golang-migrate documents. A migration is a file \<^verbatim>\<open>{version}_{title}.up.{extension}\<close> or
  \<^verbatim>\<open>{version}_{title}.down.{extension}\<close>, the version a decimal number; other files are ignored. \<^verbatim>\<open>Up\<close>
  without an error, or with \<^verbatim>\<open>ErrNoChange\<close>, leaves the schema clean at the newest version of the source; it is an
  error when the source has no migration or the schema is dirty. This says nothing of how the
  program finds the version it expects.
\<close>

definition migration_file :: "nat \<Rightarrow> string \<Rightarrow> string \<Rightarrow> string \<Rightarrow> bool" where
  "migration_file v dir ext name \<longleftrightarrow>
     (\<exists>digits title. parse_uint digits = Some v \<and> name = digits @ ''_'' @ title @ ''.'' @ dir @ ''.'' @ ext)"

definition has_version :: "string list \<Rightarrow> nat \<Rightarrow> bool" where
  "has_version files v \<longleftrightarrow> (\<exists>name \<in> set files. \<exists>dir \<in> {''up'', ''down''}. \<exists>ext. migration_file v dir ext name)"

definition newest_version :: "string list \<Rightarrow> nat \<Rightarrow> bool" where
  "newest_version files v \<longleftrightarrow> has_version files v \<and> (\<forall>u. has_version files u \<longrightarrow> u \<le> v)"

definition up_law :: "migrate_env \<Rightarrow> bool" where
  "up_law M \<longleftrightarrow> (\<forall>sset files cell cell' r. me_files M sset = Some files \<longrightarrow> me_up M files cell = (cell', r) \<longrightarrow> r \<noteq> UpFailed \<longrightarrow>
     (\<exists>v. newest_version files v \<and> sc_version cell' = Some v) \<and> \<not> sc_dirty cell' \<and> sc_created cell' = sc_created cell)"

text \<open>
  The embedded directories are named as the comment in \<^verbatim>\<open>latestEmbeddedVersion\<close> says: every file is an
  SQL migration with a version from one on, and every version has an up migration.
\<close>

definition well_named :: "string list \<Rightarrow> bool" where
  "well_named files \<longleftrightarrow> (\<forall>name \<in> set files. \<exists>v. 0 < v \<and> v < 2 ^ 64 \<and>
     (\<exists>dir \<in> {''up'', ''down''}. migration_file v dir ''sql'' name) \<and> (\<exists>up \<in> set files. migration_file v ''up'' ''sql'' up))"

lemma digits_no_underscore: "digits_val acc s = Some v \<Longrightarrow> CHR ''_'' \<notin> set s"
proof (induction s arbitrary: acc)
  case (Cons c s)
  have "digit_val CHR ''_'' = None" by (simp add: digit_val_def)
  with Cons show ?case by (auto split: option.splits)
qed simp

lemma migration_file_version:
  assumes "migration_file v dir ext name"
  shows "parse_uint (takeWhile (\<lambda>c. c \<noteq> CHR ''_'') name) = Some v" "takeWhile (\<lambda>c. c \<noteq> CHR ''_'') name \<noteq> []" "CHR ''_'' \<in> set name"
proof -
  obtain digits title where d: "parse_uint digits = Some v" "name = digits @ ''_'' @ title @ ''.'' @ dir @ ''.'' @ ext"
    using assms by (auto simp: migration_file_def)
  then have "CHR ''_'' \<notin> set digits" "digits \<noteq> []"
    using digits_no_underscore by (auto simp: parse_uint_def split: if_splits)
  then have "takeWhile (\<lambda>c. c \<noteq> CHR ''_'') name = digits" unfolding d(2) by (subst takeWhile_append2) auto
  then show "parse_uint (takeWhile (\<lambda>c. c \<noteq> CHR ''_'') name) = Some v" "takeWhile (\<lambda>c. c \<noteq> CHR ''_'') name \<noteq> []"
    "CHR ''_'' \<in> set name" using d \<open>digits \<noteq> []\<close> by simp_all
qed

lemma up_version_file: "up_version name = (if has_suffix name ''.up.sql'' \<and> CHR ''_'' \<in> set name \<and> takeWhile (\<lambda>c. c \<noteq> CHR ''_'') name \<noteq> []
    then (case parse_uint (takeWhile (\<lambda>c. c \<noteq> CHR ''_'') name) of None \<Rightarrow> None | Some v \<Rightarrow> if v < 2 ^ 64 then Some v else None)
    else None)"
proof -
  have "take (length (takeWhile P xs)) xs = takeWhile P xs" for P and xs :: string by (induction xs) auto
  then show ?thesis by (simp add: up_version_def Let_def)
qed

lemma up_migration_version:
  assumes "migration_file v ''up'' ''sql'' name" "v < 2 ^ 64" shows "up_version name = Some v"
proof -
  obtain front where "name = front @ ''.up.sql''"
    using assms(1) by (force simp: migration_file_def)
  then have "has_suffix name ''.up.sql''" by (simp add: has_suffix_def)
  then show ?thesis using migration_file_version [OF assms(1)] assms(2) by (simp add: up_version_file)
qed

lemma up_version_has:
  assumes "well_named files" "name \<in> set files" "up_version name = Some v" shows "has_version files v"
proof -
  obtain u dir where u: "dir \<in> {''up'', ''down''}" "migration_file u dir ''sql'' name"
    using assms(1,2) unfolding well_named_def by blast
  then have "u = v" using migration_file_version(1) [OF u(2)] assms(3) by (auto simp: up_version_file split: if_splits)
  then show ?thesis using u assms(2) unfolding has_version_def by blast
qed

lemma has_version_up:
  assumes "well_named files" "has_version files v"
  shows "0 < v" "\<exists>name \<in> set files. up_version name = Some v"
proof -
  obtain name dir ext where n: "name \<in> set files" "migration_file v dir ext name" using assms(2) unfolding has_version_def by blast
  obtain u dir' up where u: "0 < u" "u < 2 ^ 64" "migration_file u dir' ''sql'' name" "up \<in> set files" "migration_file u ''up'' ''sql'' up"
    using assms(1) n(1) unfolding well_named_def by blast
  have "u = v" using migration_file_version(1) [OF n(2)] migration_file_version(1) [OF u(3)] by simp
  then show "0 < v" "\<exists>name \<in> set files. up_version name = Some v" using u up_migration_version [OF u(5,2)] by auto
qed

lemma fold_max_versions:
  fixes mx :: nat
  shows "fold (\<lambda>name mx. case up_version name of None \<Rightarrow> mx | Some v \<Rightarrow> if v > mx then v else mx) files mx =
    Max (insert mx {v. \<exists>name \<in> set files. up_version name = Some v})"
proof (induction files arbitrary: mx)
  case (Cons name files)
  let ?V = "\<lambda>xs. {v. \<exists>name \<in> set xs. up_version name = Some v}"
  have fin: "finite (?V xs)" for xs
  proof -
    have "?V xs \<subseteq> the ` up_version ` set xs" by force
    then show ?thesis by (rule finite_subset) simp
  qed
  show ?case
  proof (cases "up_version name")
    case None
    then have "?V (name # files) = ?V files" by auto
    then show ?thesis using Cons.IH [of mx] None by simp
  next
    case (Some v)
    have "?V (name # files) = insert v (?V files)" using Some by auto
    moreover have "Max (insert (if v > mx then v else mx) (?V files)) = Max (insert mx (insert v (?V files)))"
      using fin [of files] by (cases "?V files = {}") (auto simp: max_def)
    ultimately show ?thesis using Cons.IH [of "if v > mx then v else mx"] Some by simp
  qed
qed simp

text \<open>The version that the program expects is the newest of the directory, as the library understands it.\<close>

lemma latest_is_newest:
  assumes "me_files M sset = Some files" "well_named files" "newest_version files v" shows "latestEmbeddedVersion M sset = Some v"
proof -
  let ?V = "{v. \<exists>name \<in> set files. up_version name = Some v}"
  have "?V = {u. has_version files u}" using up_version_has [OF assms(2)] has_version_up(2) [OF assms(2)] by blast
  moreover have "has_version files v" "\<And>u. has_version files u \<Longrightarrow> u \<le> v" using assms(3) by (auto simp: newest_version_def)
  moreover from this have "finite {u. has_version files u}" by (meson finite_nat_set_iff_bounded_le mem_Collect_eq)
  ultimately have "Max (insert 0 ?V) = v" by (intro Max_eqI) auto
  moreover have "0 < v" using has_version_up(1) [OF assms(2)] assms(3) by (simp add: newest_version_def)
  ultimately show ?thesis using assms(1) by (simp add: latestEmbeddedVersion_def fold_max_versions)
qed

lemma newest_of_latest:
  assumes "me_files M sset = Some files" "well_named files" "latestEmbeddedVersion M sset = Some v" shows "newest_version files v"
proof -
  let ?V = "{v. \<exists>name \<in> set files. up_version name = Some v}"
  have V: "?V = {u. has_version files u}" using up_version_has [OF assms(2)] has_version_up(2) [OF assms(2)] by blast
  have "?V \<subseteq> the ` up_version ` set files" by force
  then have fin: "finite ?V" by (rule finite_subset) simp
  have v: "v = Max (insert 0 ?V)" "0 < v" using assms(1,3) by (auto simp: latestEmbeddedVersion_def fold_max_versions Let_def split: if_splits)
  then have "v \<in> insert 0 ?V" using Max_in [of "insert 0 ?V"] fin by simp
  then have "has_version files v" using v(2) V by auto
  moreover have "u \<le> v" if "has_version files u" for u using that fin V v(1) by (metis (mono_tags, lifting) Max_ge finite_insert insertCI mem_Collect_eq)
  ultimately show ?thesis by (simp add: newest_version_def)
qed

lemma runOne_latest:
  assumes "up_law M" "runOne M url sset w = (w', None)" "\<forall>files. me_files M sset = Some files \<longrightarrow> well_named files"
  shows "at_latest M sset (w' url sset)" "sc_created (w' url sset)" "\<And>s. s \<noteq> sset \<Longrightarrow> w' u s = w u s" "me_files M sset \<noteq> None"
proof -
  obtain files cell r where r: "me_files M sset = Some files" "me_up M files ((w url sset)\<lparr>sc_created := True\<rparr>) = (cell, r)" "r \<noteq> UpFailed"
    "w' = w(url := (w url)(sset := cell))" using runOne_passes(4) [OF assms(2)] by blast
  have "(\<exists>v. newest_version files v \<and> sc_version cell = Some v) \<and> \<not> sc_dirty cell \<and> sc_created cell = sc_created ((w url sset)\<lparr>sc_created := True\<rparr>)"
    using assms(1) r(1,2,3) unfolding up_law_def by blast
  then have "at_latest M sset cell" "sc_created cell"
    using latest_is_newest [OF r(1) assms(3) [rule_format, OF r(1)]] by (auto simp: at_latest_def)
  then show "at_latest M sset (w' url sset)" "sc_created (w' url sset)" using r(4) by simp_all
  show "s \<noteq> sset \<Longrightarrow> w' u s = w u s" for s using r(4) by simp
  show "me_files M sset \<noteq> None" using r(1) by simp
qed

lemma created_again: "sc_created cell \<Longrightarrow> cell\<lparr>sc_created := True\<rparr> = cell"
  by (cases cell) simp

section \<open>Property\<close>

text \<open>The schema is clean at the newest version of its directory.\<close>

definition at_newest :: "migrate_env \<Rightarrow> string \<Rightarrow> schema_cell \<Rightarrow> bool" where
  "at_newest M sset cell \<longleftrightarrow> \<not> sc_dirty cell \<and>
     (\<exists>files v. me_files M sset = Some files \<and> newest_version files v \<and> sc_version cell = Some v)"

text \<open>C40 (functional): with migration files named as the directories name them, and a migration library that
  brings a schema to the newest version of its files, as golang-migrate documents: after the migrations
  were applied without error the check of every service passes and changes nothing; and whatever the
  databases hold, a check that passes has found both schemas clean at the newest version among the
  files of their directories, so no service starts on a schema that lacks a migration.\<close>

theorem services_start_after_migrate:
  assumes "up_law M" "RunMigrations M iu pu w = (w', None)" "\<forall>sset files. me_files M sset = Some files \<longrightarrow> well_named files"
    and "me_readable M iu ingestSet" "me_readable M pu projectSet"
  shows "CheckMigrations M iu pu w' = (w', None) \<and>
    (\<forall>x. snd (CheckMigrations M iu pu x) = None \<longrightarrow> at_newest M ingestSet (x iu ingestSet) \<and> at_newest M projectSet (x pu projectSet))"
proof -
  have sets: "ingestSet \<noteq> projectSet" by (simp add: ingestSet_def projectSet_def)
  obtain w1 where r: "runOne M iu ingestSet w = (w1, None)" "runOne M pu projectSet w1 = (w', None)"
    using assms(2) by (auto simp: RunMigrations_def each_target_def split: prod.splits if_splits)
  have wn: "\<And>sset files. me_files M sset = Some files \<Longrightarrow> well_named files" using assms(3) by blast
  have wi: "\<forall>files. me_files M ingestSet = Some files \<longrightarrow> well_named files"
    and wp: "\<forall>files. me_files M projectSet = Some files \<longrightarrow> well_named files" using assms(3) by blast+
  note i = runOne_latest [OF assms(1) r(1) wi] and p = runOne_latest [OF assms(1) r(2) wp]
  have iw: "w' iu ingestSet = w1 iu ingestSet" using p(3) sets by metis
  have id: "w'(url := (w' url)(sset := (w' url sset)\<lparr>sc_created := True\<rparr>)) = w'" if "sc_created (w' url sset)" for url sset
    using created_again [OF that] by simp
  have ci: "checkOne M iu ingestSet w' = (w', None)"
    unfolding checkOne_passes using runOne_passes(1,2,3) [OF r(1)] i(1,2,4) assms(4) id [of iu ingestSet, symmetric]
    unfolding iw by (intro conjI) assumption+
  have cp: "checkOne M pu projectSet w' = (w', None)"
    unfolding checkOne_passes using runOne_passes(1,2,3) [OF r(2)] p assms(5) id by simp
  have newest: "at_newest M sset cell" if "at_latest M sset cell" for sset cell
    using that newest_of_latest [OF _ wn] by (auto simp: at_latest_def at_newest_def latestEmbeddedVersion_def split: option.splits)
  have "at_newest M ingestSet (x iu ingestSet) \<and> at_newest M projectSet (x pu projectSet)" if c: "snd (CheckMigrations M iu pu x) = None" for x
  proof -
    obtain x1 e1 where c1: "checkOne M iu ingestSet x = (x1, e1)" by fastforce
    then have "e1 = None" using c by (auto simp: CheckMigrations_def each_target_def split: if_splits)
    moreover obtain x2 e2 where c2: "checkOne M pu projectSet x1 = (x2, e2)" by fastforce
    ultimately have "checkOne M iu ingestSet x = (x1, None)" "checkOne M pu projectSet x1 = (x2, None)"
      using c c1 by (simp_all add: CheckMigrations_def each_target_def)
    then have l: "at_latest M ingestSet (x iu ingestSet)" "at_latest M projectSet (x1 pu projectSet)"
      and x1: "x1 = x(iu := (x iu)(ingestSet := (x iu ingestSet)\<lparr>sc_created := True\<rparr>))" by (simp_all only: checkOne_passes)
    have "x1 pu projectSet = x pu projectSet" using sets unfolding x1 by simp
    with l newest show ?thesis by simp
  qed
  then show ?thesis using ci cp by (simp add: CheckMigrations_def each_target_def)
qed

text \<open>The embedded directories, and databases without any schema.\<close>

definition embedded :: migrate_env where
  "embedded = \<lparr>me_connect = (\<lambda>_. True), me_create = (\<lambda>_ _. True), me_open = (\<lambda>_ _. True),
     me_files = (\<lambda>sset. if sset = ''ingest'' then Some [''000001_init.down.sql'', ''000001_init.up.sql'']
       else if sset = ''project'' then Some [''000001_init.down.sql'', ''000001_init.up.sql'', ''000002_nodes.down.sql'', ''000002_nodes.up.sql'',
         ''000003_nodes_advert_received_at.down.sql'', ''000003_nodes_advert_received_at.up.sql'']
       else None),
     me_up = (\<lambda>files cell. (cell\<lparr>sc_version := Some (if length files = 2 then 1 else 3), sc_dirty := False\<rparr>, UpDone)),
     me_readable = (\<lambda>_ _. True)\<rparr>"

text \<open>Names as the directories have them, one version per file.\<close>

lemma named_migration:
  "parse_uint digits = Some v \<Longrightarrow> migration_file v dir ''sql'' (digits @ ''_'' @ title @ ''.'' @ dir @ ''.sql'')"
  unfolding migration_file_def by (intro exI [of _ digits] exI [of _ title]) simp

lemma embedded_names:
  "migration_file 1 ''down'' ''sql'' ''000001_init.down.sql''" "migration_file 1 ''up'' ''sql'' ''000001_init.up.sql''"
  "migration_file 2 ''down'' ''sql'' ''000002_nodes.down.sql''" "migration_file 2 ''up'' ''sql'' ''000002_nodes.up.sql''"
  "migration_file 3 ''down'' ''sql'' ''000003_nodes_advert_received_at.down.sql''"
  "migration_file 3 ''up'' ''sql'' ''000003_nodes_advert_received_at.up.sql''"
proof -
  have "parse_uint ''000001'' = Some 1" "parse_uint ''000002'' = Some 2" "parse_uint ''000003'' = Some 3"
    by (simp_all add: parse_uint_def digit_val_def)
  note n = this [THEN named_migration]
  show "migration_file 1 ''down'' ''sql'' ''000001_init.down.sql''" "migration_file 1 ''up'' ''sql'' ''000001_init.up.sql''"
    using n(1) [of "''down''" "''init''"] n(1) [of "''up''" "''init''"] by simp_all
  show "migration_file 2 ''down'' ''sql'' ''000002_nodes.down.sql''" "migration_file 2 ''up'' ''sql'' ''000002_nodes.up.sql''"
    using n(2) [of "''down''" "''nodes''"] n(2) [of "''up''" "''nodes''"] by simp_all
  show "migration_file 3 ''down'' ''sql'' ''000003_nodes_advert_received_at.down.sql''"
    "migration_file 3 ''up'' ''sql'' ''000003_nodes_advert_received_at.up.sql''"
    using n(3) [of "''down''" "''nodes_advert_received_at''"] n(3) [of "''up''" "''nodes_advert_received_at''"] by simp_all
qed

text \<open>A directory of one down and one up migration for each version.\<close>

definition migration_pair :: "nat \<times> string \<times> string \<Rightarrow> bool" where
  "migration_pair = (\<lambda>(v, down, up). 0 < v \<and> v < 2 ^ 64 \<and> migration_file v ''down'' ''sql'' down \<and> migration_file v ''up'' ''sql'' up)"

lemma paired_files:
  assumes ps: "\<forall>p \<in> set ps. migration_pair p" and files: "files = concat (map (\<lambda>(v, down, up). [down, up]) ps)"
  shows "well_named files" "has_version files u \<longleftrightarrow> u \<in> fst ` set ps"
proof -
  have mem: "name \<in> set files \<longleftrightarrow> (\<exists>v down up. (v, down, up) \<in> set ps \<and> (name = down \<or> name = up))" for name
    unfolding files by fastforce
  have pair: "0 < v" "v < 2 ^ 64" "migration_file v ''down'' ''sql'' down" "migration_file v ''up'' ''sql'' up" if "(v, down, up) \<in> set ps" for v down up
    using ps that by (auto simp: migration_pair_def)
  show "well_named files"
    unfolding well_named_def
  proof
    fix name assume "name \<in> set files"
    then obtain v down up where m: "(v, down, up) \<in> set ps" "name = down \<or> name = up" unfolding mem by blast
    have "up \<in> set files" using m(1) unfolding mem by blast
    with m(2) pair [OF m(1)] show "\<exists>v. 0 < v \<and> v < 2 ^ 64 \<and> (\<exists>dir \<in> {''up'', ''down''}. migration_file v dir ''sql'' name) \<and>
        (\<exists>up \<in> set files. migration_file v ''up'' ''sql'' up)" by blast
  qed
  show "has_version files u \<longleftrightarrow> u \<in> fst ` set ps"
  proof
    assume "has_version files u"
    then obtain name dir ext where n: "name \<in> set files" "migration_file u dir ext name" unfolding has_version_def by blast
    obtain v down up where m: "(v, down, up) \<in> set ps" "name = down \<or> name = up" using n(1) unfolding mem by blast
    have "v = u" using m(2) pair(3,4) [OF m(1)] migration_file_version(1) [OF n(2)] migration_file_version(1) by (metis option.inject)
    then show "u \<in> fst ` set ps" using m(1) by force
  next
    assume "u \<in> fst ` set ps"
    then obtain down up where m: "(u, down, up) \<in> set ps" by force
    then have "up \<in> set files" unfolding mem by blast
    then show "has_version files u" using pair(4) [OF m] unfolding has_version_def by blast
  qed
qed

lemma embedded_files:
  assumes "me_files embedded sset = Some files"
  shows "well_named files" "newest_version files (if length files = 2 then 1 else 3)"
proof -
  let ?p = "\<lambda>v digits title. (v :: nat, digits @ ''_'' @ title @ ''.down.sql'', digits @ ''_'' @ title @ ''.up.sql'')"
  let ?ps = "[?p 1 ''000001'' ''init'']"
  let ?qs = "?ps @ [?p 2 ''000002'' ''nodes'', ?p 3 ''000003'' ''nodes_advert_received_at'']"
  have ok: "\<forall>p \<in> set ?qs. migration_pair p" using embedded_names by (simp add: migration_pair_def)
  have "files = concat (map (\<lambda>(v, down, up). [down, up]) ?ps) \<or> files = concat (map (\<lambda>(v, down, up). [down, up]) ?qs)"
    using assms by (simp add: embedded_def split: if_splits)
  then have "well_named files \<and> newest_version files (if length files = 2 then 1 else 3)"
  proof
    assume f: "files = concat (map (\<lambda>(v, down, up). [down, up]) ?ps)"
    have "\<forall>p \<in> set ?ps. migration_pair p" using ok by simp
    note p = paired_files [OF this f]
    have "length files = 2" unfolding f by simp
    with p show ?thesis by (simp add: newest_version_def)
  next
    assume f: "files = concat (map (\<lambda>(v, down, up). [down, up]) ?qs)"
    note p = paired_files [OF ok f]
    have "length files \<noteq> 2" unfolding f by simp
    with p show ?thesis by (simp add: newest_version_def)
  qed
  then show "well_named files" "newest_version files (if length files = 2 then 1 else 3)" by blast+
qed

lemma services_start_after_migrate_witness:
  "\<exists>w'. RunMigrations embedded ''db'' ''db'' (\<lambda>_ _. \<lparr>sc_created = False, sc_version = None, sc_dirty = False\<rparr>) = (w', None) \<and>
    CheckMigrations embedded ''db'' ''db'' w' = (w', None)"
proof -
  let ?w = "\<lambda>_ _. \<lparr>sc_created = False, sc_version = None, sc_dirty = False\<rparr>"
  have "snd (RunMigrations embedded ''db'' ''db'' ?w) = None"
    by (simp add: RunMigrations_def each_target_def runOne_def ensureSchema_def embedded_def ingestSet_def projectSet_def)
  then obtain w' where r: "RunMigrations embedded ''db'' ''db'' ?w = (w', None)" by (metis prod.collapse)
  have "me_up embedded files cell = (cell\<lparr>sc_version := Some (if length files = 2 then 1 else 3), sc_dirty := False\<rparr>, UpDone)" for files cell
    by (simp add: embedded_def)
  then have "up_law embedded" using embedded_files(2) by (auto simp: up_law_def)
  moreover have "me_readable embedded u s" for u s by (simp add: embedded_def)
  ultimately show ?thesis using services_start_after_migrate [OF _ r] r embedded_files(1) by simp
qed

end
