(* ===== verification/Services.thy ===== *)
theory Services
  imports Ingest Projector Store_Partitions Store_Migrations Config
begin

text \<open>
  The subcommands (\<^verbatim>\<open>cmd/meshbug\<close>): what \<^verbatim>\<open>migrate\<close>, \<^verbatim>\<open>ingest\<close>, \<^verbatim>\<open>project\<close> and \<^verbatim>\<open>web\<close> do before they run, in
  order, and at which stage they give up. Flag parsing, logging and signals are left out; whether a
  pool opens or the broker manager starts is an argument.
\<close>

section \<open>Model\<close>

text \<open>\<^verbatim>\<open>fail(stage, err)\<close> ends the process with the code 1.\<close>

datatype 'a started = Failed string | Started 'a

datatype command = Migrate | IngestService | ProjectService | WebService | Usage nat

definition subcommand :: "string list \<Rightarrow> command" where
  "subcommand os_args =
     (if length os_args < 2 then Usage 2
      else let cmd = os_args ! 1 in
        if cmd = ''migrate'' then Migrate
        else if cmd = ''ingest'' then IngestService
        else if cmd = ''project'' then ProjectService
        else if cmd = ''web'' then WebService
        else if cmd = ''-h'' \<or> cmd = ''--help'' \<or> cmd = ''help'' then Usage 0
        else Usage 2)"

definition runMigrate :: "os \<Rightarrow> migrate_env \<Rightarrow> databases \<Rightarrow> databases \<times> unit started" where
  "runMigrate E M w =
     (case LoadMigrate E of
        Inl e \<Rightarrow> (w, Failed ''config'')
      | Inr cfg \<Rightarrow> (case RunMigrations M (cf_IngestDatabaseURL cfg) (cf_DatabaseURL cfg) w of
          (w1, e) \<Rightarrow> (w1, if e \<noteq> None then Failed ''migrate'' else Started ())))"

text \<open>
  What the services find: the schemas, the partitions of the store they write, and of their connections
  which pools open.
\<close>

record site =
  si_schemas :: databases
  si_parts :: part_conn

definition check_then :: "migrate_env \<Rightarrow> Config \<Rightarrow> (site \<Rightarrow> site \<times> 'a started) \<Rightarrow> site \<Rightarrow> site \<times> 'a started" where
  "check_then M cfg k s =
     (case CheckMigrations M (cf_IngestDatabaseURL cfg) (cf_DatabaseURL cfg) (si_schemas s) of
        (w, e) \<Rightarrow> if e \<noteq> None then (s\<lparr>si_schemas := w\<rparr>, Failed ''migrate-check'') else k (s\<lparr>si_schemas := w\<rparr>))"

definition partitions_then :: "time \<Rightarrow> string \<Rightarrow> (site \<Rightarrow> site \<times> 'a started) \<Rightarrow> site \<Rightarrow> site \<times> 'a started" where
  "partitions_then now tab k s =
     (case EnsurePartitions now [tab] (si_parts s) of
        (c, e) \<Rightarrow> if e \<noteq> None then (s\<lparr>si_parts := c\<rparr>, Failed ''partitions'') else k (s\<lparr>si_parts := c\<rparr>))"

definition runIngest :: "os \<Rightarrow> migrate_env \<Rightarrow> bool \<Rightarrow> bool \<Rightarrow> time \<Rightarrow> site \<Rightarrow> site \<times> Manager started" where
  "runIngest E M store_ok mqtt_ok now s =
     (case LoadIngest E of
        Inl e \<Rightarrow> (s, Failed ''config'')
      | Inr cfg \<Rightarrow> check_then M cfg (\<lambda>s.
          if \<not> store_ok then (s, Failed ''store'')
          else partitions_then now ''raw_events'' (\<lambda>s.
            let mgr = NewManager (cf_Brokers cfg) in if \<not> mqtt_ok then (s, Failed ''mqtt'') else (s, Started mgr)) s) s)"

text \<open>\<open>d\<close> is the project database, \<open>pl\<close> the pool that notifies; the result is what \<^verbatim>\<open>Run\<close> ends with.\<close>

definition start_projector ::
  "bool \<Rightarrow> io \<Rightarrow> (world \<Rightarrow> (err + int) \<times> world) \<Rightarrow> world \<Rightarrow> site \<Rightarrow> site \<times> ((err + int) \<times> world) started"
where
  "start_projector reset io run w s =
     (if reset then (case Reset io w of
          (w1, Inl e) \<Rightarrow> (s, Failed ''reset'')
        | (w1, Inr _) \<Rightarrow> (s, Started (run w1)))
      else (s, Started (run w)))"

definition runProject ::
  "os \<Rightarrow> migrate_env \<Rightarrow> bool \<Rightarrow> bool \<Rightarrow> time \<Rightarrow> bool \<Rightarrow> io \<Rightarrow> (world \<Rightarrow> (err + int) \<times> world) \<Rightarrow> pool \<Rightarrow> db \<Rightarrow> site \<Rightarrow>
    site \<times> ((err + int) \<times> world) started"
where
  "runProject E M events_ok projections_ok now reset io run pl d s =
     (case LoadProject E of
        Inl e \<Rightarrow> (s, Failed ''config'')
      | Inr cfg \<Rightarrow> check_then M cfg (\<lambda>s.
          if \<not> events_ok then (s, Failed ''events-store'')
          else if \<not> projections_ok then (s, Failed ''projection-store'')
          else partitions_then now ''packet_observations'' (start_projector reset io run (projector_stages, pl, d)) s) s)"

text \<open>The maintainer that runs beside a service, one tick every six hours; an error is logged only.\<close>

definition maintain_partitions :: "string \<Rightarrow> time list \<Rightarrow> part_conn \<Rightarrow> part_conn" where
  "maintain_partitions tab ticks c = fold (\<lambda>now c. fst (EnsurePartitions now [tab] c)) ticks c"

definition runWeb :: "os \<Rightarrow> migrate_env \<Rightarrow> bool \<Rightarrow> bool \<Rightarrow> site \<Rightarrow> site \<times> (string list \<times> string) started" where
  "runWeb E M store_ok server_ok s =
     (case LoadWeb E of
        Inl e \<Rightarrow> (s, Failed ''config'')
      | Inr cfg \<Rightarrow> check_then M cfg (\<lambda>s.
          if \<not> store_ok then (s, Failed ''store'')
          else if \<not> server_ok then (s, Failed ''web server'')
          else (s, Started ([ChannelPackets, ChannelStatus, ChannelAnomaly], cf_HTTPAddr cfg))) s)"

section \<open>What a service that started can rely on\<close>

definition schemas_current :: "migrate_env \<Rightarrow> Config \<Rightarrow> databases \<Rightarrow> bool" where
  "schemas_current M cfg w \<longleftrightarrow>
     at_latest M ingestSet (w (cf_IngestDatabaseURL cfg) ingestSet) \<and> at_latest M projectSet (w (cf_DatabaseURL cfg) projectSet)"

lemma CheckMigrations_current:
  assumes "CheckMigrations M iu pu w = (w', None)"
  shows "at_latest M ingestSet (w' iu ingestSet)" "at_latest M projectSet (w' pu projectSet)"
proof -
  have sets: "ingestSet \<noteq> projectSet" by (simp add: ingestSet_def projectSet_def)
  have up: "at_latest M x (c\<lparr>sc_created := True\<rparr>) = at_latest M x c" for x c by (simp add: at_latest_def)
  obtain w1 where c: "checkOne M iu ingestSet w = (w1, None)" "checkOne M pu projectSet w1 = (w', None)"
    using assms by (auto simp: CheckMigrations_def each_target_def split: prod.splits if_splits)
  then have "at_latest M ingestSet (w iu ingestSet)" "at_latest M projectSet (w1 pu projectSet)"
    and w1: "w1 = w(iu := (w iu)(ingestSet := (w iu ingestSet)\<lparr>sc_created := True\<rparr>))"
    and w': "w' = w1(pu := (w1 pu)(projectSet := (w1 pu projectSet)\<lparr>sc_created := True\<rparr>))" by (simp_all only: checkOne_passes)
  then show "at_latest M projectSet (w' pu projectSet)" "at_latest M ingestSet (w' iu ingestSet)"
    using sets by (auto simp: w' w1 up)
qed

lemma check_then_Started:
  assumes "check_then M cfg k s = (s', Started x)"
  obtains w where "schemas_current M cfg w" "k (s\<lparr>si_schemas := w\<rparr>) = (s', Started x)"
  using assms CheckMigrations_current by (fastforce simp: check_then_def schemas_current_def split: prod.splits if_splits)

lemma partitions_then_Started:
  assumes "partitions_then now tab k s = (s', Started x)"
  obtains c where "EnsurePartitions now [tab] (si_parts s) = (c, None)" "k (s\<lparr>si_parts := c\<rparr>) = (s', Started x)"
  using assms by (auto simp: partitions_then_def split: prod.splits if_splits)

text \<open>A service that started has found both schemas current, and has the partition of the moment it started in.\<close>

lemma partitions_then_covered:
  assumes "partitions_then now tab k s = (s', Started x)" "parts_ok (pc_db (si_parts s))" "0 \<le> now" "month_of now + 2 < 120000"
  obtains c where "covered (pc_db c) tab now" "parts_ok (pc_db c)" "k (s\<lparr>si_parts := c\<rparr>) = (s', Started x)"
proof -
  obtain c where c: "EnsurePartitions now [tab] (si_parts s) = (c, None)" "k (s\<lparr>si_parts := c\<rparr>) = (s', Started x)"
    using partitions_then_Started [OF assms(1)] by blast
  note keep = ensure_all_keeps [OF assms(2) todo_dated [OF assms(3,4)] c(1) [unfolded EnsurePartitions_todo]]
  then have "month_name tab (month_of now) \<in> fst ` set (pd_state (pc_db c))" by simp
  moreover have "dated (month_of now)" using dated_now [OF assms(3), of 0] assms(4) by simp
  ultimately have "covered (pc_db c) tab now" using covered_month [OF _ assms(3)] keep by blast
  with that c(2) keep show thesis by blast
qed

lemma start_projector_Started:
  assumes "start_projector reset io run w s = (s', Started r)"
  shows "s' = s" "r = run (if reset then fst (Reset io w) else w)"
  using assms by (cases "Reset io w", auto simp: start_projector_def split: if_splits sum.splits)+

lemma runProject_ready:
  assumes "runProject E M events_ok projections_ok now reset io run pl d s = (s', Started r)" "LoadProject E = Inr cfg"
    and "parts_ok (pc_db (si_parts s))" "0 \<le> now" "month_of now + 2 < 120000"
  shows "schemas_current M cfg (si_schemas s') \<and> covered (pc_db (si_parts s')) ''packet_observations'' now \<and>
    r = run (if reset then fst (Reset io (projector_stages, pl, d)) else (projector_stages, pl, d))"
proof -
  let ?k = "start_projector reset io run (projector_stages, pl, d)"
  obtain w where w: "schemas_current M cfg w" "partitions_then now ''packet_observations'' ?k (s\<lparr>si_schemas := w\<rparr>) = (s', Started r)"
    using assms(1,2) by (auto simp: runProject_def elim!: check_then_Started split: if_splits)
  have "parts_ok (pc_db (si_parts (s\<lparr>si_schemas := w\<rparr>)))" using assms(3) by simp
  from partitions_then_covered [OF w(2) this assms(4,5)] obtain c
    where c: "covered (pc_db c) ''packet_observations'' now" "?k (s\<lparr>si_schemas := w, si_parts := c\<rparr>) = (s', Started r)" by (metis site.ext_inject)
  from start_projector_Started [OF c(2)] w(1) c(1) show ?thesis by simp
qed

end
