(* ===== verification/Spec2Isabelle.thy ===== *)
theory Spec2Isabelle
  imports Project_System Web_Server Services
begin

text \<open>
  MeshBug records the MQTT traffic of MeshCore radio observers in an append-only log, projects the log
  into tables and shows the tables on web pages. One binary runs as three services that share only
  Postgres: \<^verbatim>\<open>ingest\<close> captures messages, \<^verbatim>\<open>project\<close> decodes the log in batches and maintains the derived
  tables, \<^verbatim>\<open>web\<close> reads them and pushes changes to browsers over SSE. This development models the three
  services and how they meet in the database.

  \<^bold>\<open>Go and its library.\<close> \<^verbatim>\<open>Prelude\<close> has the shared types (bytes, instants in nanoseconds since the
  zero time, wrapping 64-bit integers, Go maps with the order of a \<^verbatim>\<open>range\<close> as an argument, loops with an
  early error return) and SQL helpers. \<^verbatim>\<open>Go_Float\<close> is \<^verbatim>\<open>float64\<close> over the rationals, rounded after every
  operation; \<^verbatim>\<open>Go_Strings\<close>, \<^verbatim>\<open>Go_Time\<close>, \<^verbatim>\<open>Go_Calendar\<close> and \<^verbatim>\<open>Go_JSON\<close> what is used of \<^verbatim>\<open>strings\<close>, \<^verbatim>\<open>strconv\<close>,
  \<^verbatim>\<open>utf8\<close>, \<^verbatim>\<open>hex\<close>, \<^verbatim>\<open>time\<close> and \<^verbatim>\<open>encoding/json\<close>. The fuel of the JSON parser is twice the length of its
  input plus two, since every second call at least consumes a character; lemmas there show that more
  fuel changes nothing.

  \<^bold>\<open>Capture.\<close> \<^verbatim>\<open>Config\<close> models \<^verbatim>\<open>internal/config/config.go\<close> with the environment as an argument;
  \<^verbatim>\<open>MQTT_Client\<close> the options, filters and callback of \<^verbatim>\<open>internal/mqtt/mqtt.go\<close>; \<^verbatim>\<open>Ingest\<close> the loop of
  \<^verbatim>\<open>internal/ingest/ingest.go\<close> over the choices of its \<^verbatim>\<open>select\<close>; \<^verbatim>\<open>Raw_Log\<close> the log and its queries in
  \<^verbatim>\<open>internal/store/queries.go\<close>. Shown: a configuration that loads is complete, every topic the client
  subscribes to decodes, the captured log is the received messages in order, with their receive times in
  the whole microseconds that Postgres keeps; and two losses, of messages of brokers with another topic
  prefix and of the last batch at shutdown.

  \<^bold>\<open>Decoding.\<close> \<^verbatim>\<open>Meshcore_Decode\<close> (\<^verbatim>\<open>internal/meshcore/decode.go\<close>, the library meshcore-go being a
  parameter) and \<^verbatim>\<open>Event_Decoder\<close> (\<^verbatim>\<open>internal/project/decoder.go\<close>, \<^verbatim>\<open>parse.go\<close>) turn rows of the log into the
  events of \<^verbatim>\<open>Event_Types\<close>. Shown: from which member of the document, or part of the wire frame, each field of
  an event is read, with its domain, and that topics read back.

  \<^bold>\<open>Projection.\<close> \<^verbatim>\<open>Project_DB\<close> has the tables and transactions. \<^verbatim>\<open>Stage_Interface\<close> states as locales what a
  stage promises: with a flush of a batch its table becomes a function of the committed log, its memory
  stays in step, eviction is harmless. The theories \<^verbatim>\<open>Stage_Observers\<close>, \<^verbatim>\<open>Stage_Status\<close>, \<^verbatim>\<open>Stage_Nodes\<close>,
  \<^verbatim>\<open>Stage_Packets\<close>, \<^verbatim>\<open>Stage_Unique\<close>, \<^verbatim>\<open>Stage_Rollup_Observer\<close>, \<^verbatim>\<open>Stage_Rollup_Neighbor\<close> and
  \<^verbatim>\<open>Stage_Anomalies\<close> model the files of \<^verbatim>\<open>internal/project/stages\<close>, each with an interpretation of the
  locales on its operations, and \<^verbatim>\<open>Pipeline\<close> (\<^verbatim>\<open>internal/project/pipeline\<close>) composes them into a batch
  with every error path and outcome of the commit. \<^verbatim>\<open>Projector\<close> (\<^verbatim>\<open>internal/project/project.go\<close>) is the
  catch-up loop, its rounds given by what each of them meets; that finitely many rounds suffice is the
  termination property, which bounds them by the full batches left of the log. \<^verbatim>\<open>Project_Store\<close> is the
  cursor and the reset, and \<^verbatim>\<open>Project_System\<close> a step relation of the writer and of projector processes
  that start, work, die inside a batch and are reset. Shown: the tables are always what their stages promise
  of the log up to the stored cursor, and two histories with the same log and cursor agree on what the
  log determines, unless a process lives on after a failed batch; that a batch whose transaction could not
  begin is counted twice when it is tried again; and that one packet that violates a column stops the
  projection for good. Not determined by the log are the generated ids, the values of averages, the
  noise floors, the anomalies, and the distinct packets of a bucket with a packet whose hash is empty but
  not NULL, which is counted after a restart only. Receive times are taken to be in the range of
  \<^verbatim>\<open>UnixNano\<close>, the years 1678 to 2262.

  \<^bold>\<open>Notification.\<close> \<^verbatim>\<open>Notify\<close> (\<^verbatim>\<open>internal/notify\<close>) publishes and listens, \<^verbatim>\<open>SSE_Hub\<close> (\<^verbatim>\<open>internal/sse/hub.go\<close>)
  distributes, as a step relation of all interleavings, and \<^verbatim>\<open>Web_Bridge\<close> (\<^verbatim>\<open>cmd/meshbug/web.go\<close>)
  connects the two; \<^verbatim>\<open>JSON_Roundtrip\<close> has the lemmas by which a payload is read back as it was written. Shown: the
  hub never panics and fills no channel beyond its capacity, and which pages a batch wakes, with the number of observers from which it wakes
  none.

  \<^bold>\<open>Pages.\<close> \<^verbatim>\<open>Web_View\<close> has what queries share: the snapshot, the order in which rows arrive, where the
  connection breaks, scanning row by row. \<^verbatim>\<open>Web_Nodes\<close>, \<^verbatim>\<open>Web_Live\<close>, \<^verbatim>\<open>Web_Pages\<close> and \<^verbatim>\<open>Web_Topology\<close> translate
  the queries of \<^verbatim>\<open>internal/web/queries.go\<close> clause by clause, \<^verbatim>\<open>Web_Links\<close> the links and texts of
  \<^verbatim>\<open>internal/web/templates/helpers.go\<close>, \<^verbatim>\<open>Web_Server\<close> the handlers and streams of \<^verbatim>\<open>handlers.go\<close>,
  \<^verbatim>\<open>server.go\<close> and \<^verbatim>\<open>sse_writer.go\<close>. Shown: the figures of the neighbors page are figures of the log, the
  pages of the nodes list cover the list, links read back, the live feed pushes each row once, and the
  page of an idle observer fails.

  \<^bold>\<open>Operation.\<close> \<^verbatim>\<open>Store_Partitions\<close> (\<^verbatim>\<open>internal/store/partitions.go\<close>) and \<^verbatim>\<open>Store_Migrations\<close>
  (\<^verbatim>\<open>migrations.go\<close>) keep the database ready, and \<^verbatim>\<open>Services\<close> (\<^verbatim>\<open>cmd/meshbug\<close>) composes the start of each
  service from the parts above. Shown: which instants a successful call has partitions for, what a skipped month
  leads to, that the check of a service passes after the migrations and never below the newest
  migration file, and that a projector that runs has current schemas and the partition of its month. Years are bounded by 9999, the
  last with the four digits that partition names rely on.

  \<^bold>\<open>Parameters.\<close> Not decided by the code, and therefore arguments: the outcome of each round trip to
  Postgres and of each commit, the numeric arithmetic, collation and text functions of the server and
  the order of its rows, what pgx does after a failed scan, meshcore-go, golang-migrate, paho, the
  order of a \<^verbatim>\<open>range\<close> over a map, sine and cosine, and the templates, which map a value to text.

  \<^bold>\<open>Not modelled.\<close> The markup of the templates and their formatting of floats (points of a sparkline, the
  map link), the scaling of icons and the static files, the routing table and chi, the set-up of
  connection pools, flags, signals, timers and logging, reconnection inside paho, and the URL that
  golang-migrate is given: none of them holds state of the program. SQL is modelled by what its statements
  do to the tables, not as text, apart from the condition of the nodes list, which the code assembles
  with numbered placeholders. Two transactions of one table do not run at the same time in the model,
  as each table has one writer. A query of the projector answers with all its rows or fails, so a result that
  breaks off in the middle is a failed query; a notification is bridged in one step, while in the code other
  operations of the hub may run between the publications to its topics.
\<close>

end
